(* ===== verification/Prelude.thy ===== *)
theory Prelude
  imports Main "HOL-Library.Word"
begin

text \<open>
  Shared vocabulary of the development: machine-integer synonyms, the faults a C++ execution
  can end in, the type of stateful computations that may fault, and the two calculi every
  component proof uses: triples with a fault postcondition and the
  approximation order between computations that agree up to a fault, running out of fuel for one
  (collection \<open>approx_rules\<close>).  Generic list lemmas close the theory.
\<close>

section \<open>Machine integers\<close>

type_synonym byte = "8 word"
type_synonym bytes = "8 word list"
type_synonym ushort = "16 word"

text \<open>The conversion of a wide signed result (\<^verbatim>\<open>ssize_t\<close>) to a 32-bit \<^verbatim>\<open>int\<close>.\<close>

definition to_int32 :: "int \<Rightarrow> int" where
  "to_int32 r = signed_take_bit 31 r"

lemma to_int32_id: "- (2 ^ 31) \<le> r \<Longrightarrow> r < 2 ^ 31 \<Longrightarrow> to_int32 r = r"
  by (simp add: to_int32_def signed_take_bit_int_eq_self)

lemma to_int32_small [simp]:
  "to_int32 0 = 0" "to_int32 1 = 1" "to_int32 (- 1) = - 1" "to_int32 (numeral n) = signed_take_bit 31 (numeral n)"
  by (simp_all add: to_int32_def)

section \<open>Faults and computations\<close>

text \<open>
  The ways a run of the program can leave the defined behaviour of C++ or stop:
  \<^item> \<open>UseAfterFree\<close>: a destroyed object is read or written;
  \<^item> \<open>InvalidatedCallbacks\<close>: an element of a callback list is read while the list is executed and
    has changed since;
  \<^item> \<open>InvalidatedPollIterator\<close>: an element of the handler's vectors is read through an iterator
    taken before a change that the change counter did not reveal;
  \<^item> \<open>NullPointer\<close>: a null pointer is dereferenced;
  \<^item> \<open>OutOfRange\<close>: an element outside a vector or a buffer is addressed;
  \<^item> \<open>Uninitialised\<close>: an object is read before its lifetime begins;
  \<^item> \<open>AssertFailed\<close>: an \<^verbatim>\<open>assert\<close> aborts;
  \<^item> \<open>LogicError\<close>: a \<^verbatim>\<open>std::logic_error\<close> is thrown (nothing in the library catches it);
  \<^item> \<open>NoSuchAction\<close>: an action tag that the object's action list lacks (a failed static assertion);
  \<^item> \<open>Misuse\<close>: the user program names an object that does not exist (any more);
  \<^item> \<open>OutOfFuel\<close>: the bound on callback nesting and loop iterations of the model is exhausted.
\<close>

datatype fault =
    UseAfterFree
  | InvalidatedCallbacks
  | InvalidatedPollIterator
  | NullPointer
  | OutOfRange
  | Uninitialised
  | AssertFailed
  | LogicError string
  | NoSuchAction
  | Misuse
  | OutOfFuel

type_synonym ('s, 'a) prog = "'s \<Rightarrow> fault + ('a \<times> 's)"

definition ret :: "'a \<Rightarrow> ('s, 'a) prog" where
  "ret a = (\<lambda>s. Inr (a, s))"

definition raise :: "fault \<Rightarrow> ('s, 'a) prog" where
  "raise e = (\<lambda>s. Inl e)"

definition andThen :: "('s, 'a) prog \<Rightarrow> ('a \<Rightarrow> ('s, 'b) prog) \<Rightarrow> ('s, 'b) prog" where
  "andThen m k = (\<lambda>s. case m s of Inl e \<Rightarrow> Inl e | Inr (a, s') \<Rightarrow> k a s')"

definition reads :: "('s \<Rightarrow> 'a) \<Rightarrow> ('s, 'a) prog" where
  "reads f = (\<lambda>s. Inr (f s, s))"

definition update :: "('s \<Rightarrow> 's) \<Rightarrow> ('s, unit) prog" where
  "update f = (\<lambda>s. Inr ((), f s))"

definition require :: "fault \<Rightarrow> ('s \<Rightarrow> bool) \<Rightarrow> ('s, unit) prog" where
  "require e P = (\<lambda>s. if P s then Inr ((), s) else Inl e)"

text \<open>Running a computation on every element of a list, left to right.\<close>

fun run_all :: "('a \<Rightarrow> ('s, unit) prog) \<Rightarrow> 'a list \<Rightarrow> ('s, unit) prog" where
  "run_all f [] = ret ()"
| "run_all f (x # xs) = andThen (f x) (\<lambda>_. run_all f xs)"

named_theorems prog_simps "evaluation of computations on a given state"

lemma ret_apply [prog_simps]: "ret a s = Inr (a, s)"
  by (simp add: ret_def)

lemma raise_apply [prog_simps]: "raise e s = Inl e"
  by (simp add: raise_def)

lemma andThen_apply [prog_simps]:
  "andThen m k s = (case m s of Inl e \<Rightarrow> Inl e | Inr (a, s') \<Rightarrow> k a s')"
  by (simp add: andThen_def)

lemma reads_apply [prog_simps]: "reads f s = Inr (f s, s)"
  by (simp add: reads_def)

lemma update_apply [prog_simps]: "update f s = Inr ((), f s)"
  by (simp add: update_def)

lemma require_apply [prog_simps]: "require e P s = (if P s then Inr ((), s) else Inl e)"
  by (simp add: require_def)

lemma andThen_ret_left [simp]: "andThen (ret a) k = k a"
  by (simp add: fun_eq_iff prog_simps)

lemma andThen_ret_right [simp]: "andThen m ret = m"
  by (auto simp: fun_eq_iff prog_simps split: sum.splits)

lemma andThen_raise [simp]: "andThen (raise e) k = raise e"
  by (simp add: fun_eq_iff prog_simps)

lemma andThen_assoc: "andThen (andThen m k) l = andThen m (\<lambda>a. andThen (k a) l)"
  by (auto simp: fun_eq_iff prog_simps split: sum.splits)

lemma andThen_same:
  "(\<And>a s'. m s = Inr (a, s') \<Longrightarrow> k a s' = l a s') \<Longrightarrow> andThen m k s = andThen m l s"
  by (simp add: andThen_apply split: sum.split)

lemma run_all_append: "run_all f (xs @ ys) = andThen (run_all f xs) (\<lambda>_. run_all f ys)"
  by (induction xs) (simp_all add: andThen_assoc)

section \<open>Triples with a fault postcondition\<close>

definition triple ::
    "('s \<Rightarrow> bool) \<Rightarrow> ('s, 'a) prog \<Rightarrow> ('a \<Rightarrow> 's \<Rightarrow> bool) \<Rightarrow> (fault \<Rightarrow> bool) \<Rightarrow> bool" where
  "triple P m Q E \<longleftrightarrow>
     (\<forall>s. P s \<longrightarrow> (case m s of Inl e \<Rightarrow> E e | Inr (a, s') \<Rightarrow> Q a s'))"

lemma tripleI:
  "(\<And>s e. P s \<Longrightarrow> m s = Inl e \<Longrightarrow> E e) \<Longrightarrow>
   (\<And>s a s'. P s \<Longrightarrow> m s = Inr (a, s') \<Longrightarrow> Q a s') \<Longrightarrow> triple P m Q E"
  by (auto simp: triple_def split: sum.splits)

lemma tripleD: "triple P m Q E \<Longrightarrow> P s \<Longrightarrow> m s = Inr (a, s') \<Longrightarrow> Q a s'"
  by (fastforce simp: triple_def)

lemma tripleD_fault: "triple P m Q E \<Longrightarrow> P s \<Longrightarrow> m s = Inl e \<Longrightarrow> E e"
  by (fastforce simp: triple_def)

lemma triple_weaken:
  "triple P m Q E \<Longrightarrow> (\<And>s. P' s \<Longrightarrow> P s) \<Longrightarrow> (\<And>a s. Q a s \<Longrightarrow> Q' a s) \<Longrightarrow>
   (\<And>e. E e \<Longrightarrow> E' e) \<Longrightarrow> triple P' m Q' E'"
  by (fastforce simp: triple_def split: sum.splits)

lemma triple_pre: "triple P m Q E \<Longrightarrow> (\<And>s. P' s \<Longrightarrow> P s) \<Longrightarrow> triple P' m Q E"
  by (rule triple_weaken)

lemma triple_post: "triple P m Q E \<Longrightarrow> (\<And>a s. Q a s \<Longrightarrow> Q' a s) \<Longrightarrow> triple P m Q' E"
  by (rule triple_weaken)

lemma triple_ret: "(\<And>s. P s \<Longrightarrow> Q a s) \<Longrightarrow> triple P (ret a) Q E"
  by (simp add: triple_def prog_simps)

lemma triple_raise: "E e \<Longrightarrow> triple P (raise e) Q E"
  by (simp add: triple_def prog_simps)

lemma triple_reads: "(\<And>s. P s \<Longrightarrow> Q (f s) s) \<Longrightarrow> triple P (reads f) Q E"
  by (simp add: triple_def prog_simps)

lemma triple_update: "(\<And>s. P s \<Longrightarrow> Q () (f s)) \<Longrightarrow> triple P (update f) Q E"
  by (simp add: triple_def prog_simps)

lemma triple_require:
  "(\<And>s. P s \<Longrightarrow> B s \<Longrightarrow> Q () s) \<Longrightarrow> (\<And>s. P s \<Longrightarrow> \<not> B s \<Longrightarrow> E e) \<Longrightarrow> triple P (require e B) Q E"
  by (simp add: triple_def prog_simps)

lemma triple_andThen:
  "triple P m R E \<Longrightarrow> (\<And>a. triple (R a) (k a) Q E) \<Longrightarrow> triple P (andThen m k) Q E"
  by (fastforce simp: triple_def prog_simps split: sum.splits prod.splits)

lemma triple_if:
  "(b \<Longrightarrow> triple P m Q E) \<Longrightarrow> (\<not> b \<Longrightarrow> triple P m' Q E) \<Longrightarrow> triple P (if b then m else m') Q E"
  by simp

lemma triple_case_option:
  "(x = None \<Longrightarrow> triple P m Q E) \<Longrightarrow> (\<And>y. x = Some y \<Longrightarrow> triple P (k y) Q E) \<Longrightarrow>
   triple P (case x of None \<Rightarrow> m | Some y \<Rightarrow> k y) Q E"
  by (cases x) simp_all

lemma triple_run_all:
  "(\<And>x. x \<in> set xs \<Longrightarrow> triple P (f x) (\<lambda>_. P) E) \<Longrightarrow> triple P (run_all f xs) (\<lambda>_. P) E"
proof (induction xs)
  case Nil
  show ?case by (simp add: triple_ret)
next
  case (Cons x xs)
  then show ?case
    by (auto intro!: triple_andThen [where R = "\<lambda>_. P"])
qed

section \<open>More fuel never changes a result\<close>

text \<open>
  \<open>approx ft m m'\<close>: wherever \<open>m\<close> does not stop with the fault \<open>ft\<close>, \<open>m'\<close> does the same.
\<close>

definition approx :: "fault \<Rightarrow> ('s, 'a) prog \<Rightarrow> ('s, 'a) prog \<Rightarrow> bool" where
  "approx ft m m' \<longleftrightarrow> (\<forall>s. m s = Inl ft \<or> m s = m' s)"

named_theorems approx_rules "monotonicity of the program combinators and operations"

lemma approx_refl [approx_rules, simp]: "approx ft m m"
  by (simp add: approx_def)

lemma approx_out_of_fuel: "approx ft (raise ft) m"
  by (simp add: approx_def prog_simps)

lemma approxD: "approx ft m m' \<Longrightarrow> m s \<noteq> Inl ft \<Longrightarrow> m' s = m s"
  by (auto simp: approx_def)

lemma approx_andThen [approx_rules]:
  assumes "approx ft m m'" and "\<And>a. approx ft (k a) (k' a)"
  shows "approx ft (andThen m k) (andThen m' k')"
proof -
  have "andThen m k s = Inl ft \<or> andThen m k s = andThen m' k' s" for s
  proof (cases "m s")
    case (Inl e)
    then show ?thesis
      using assms(1) by (auto simp: approx_def prog_simps split: sum.splits dest: spec [of _ s])
  next
    case (Inr r)
    then have "m' s = Inr r"
      using approxD [OF assms(1), of s] by simp
    then show ?thesis
      using Inr assms(2) by (cases r) (auto simp: approx_def prog_simps)
  qed
  then show ?thesis by (simp add: approx_def)
qed

lemma approx_if [approx_rules]:
  "(b \<Longrightarrow> approx ft m m') \<Longrightarrow> (\<not> b \<Longrightarrow> approx ft n n') \<Longrightarrow>
   approx ft (if b then m else n) (if b then m' else n')"
  by simp

lemma approx_case_option [approx_rules]:
  "approx ft m m' \<Longrightarrow> (\<And>y. approx ft (k y) (k' y)) \<Longrightarrow>
   approx ft (case x of None \<Rightarrow> m | Some y \<Rightarrow> k y) (case x of None \<Rightarrow> m' | Some y \<Rightarrow> k' y)"
  by (cases x) simp_all

lemma approx_case_list [approx_rules]:
  "approx ft m m' \<Longrightarrow> (\<And>y ys. approx ft (k y ys) (k' y ys)) \<Longrightarrow>
   approx ft (case x of [] \<Rightarrow> m | y # ys \<Rightarrow> k y ys) (case x of [] \<Rightarrow> m' | y # ys \<Rightarrow> k' y ys)"
  by (cases x) simp_all

lemma approx_run_all [approx_rules]:
  "(\<And>x. approx ft (f x) (f' x)) \<Longrightarrow> approx ft (run_all f xs) (run_all f' xs)"
  by (induction xs) (auto intro: approx_rules)

section \<open>Lists updated by position\<close>

text \<open>
  Overwriting a prefix or an inner segment of a buffer (\<^verbatim>\<open>memcpy\<close> into it), and
  \<^verbatim>\<open>vector::erase\<close> at a position, undefined at or past the end.
\<close>

definition write_at :: "nat \<Rightarrow> 'a list \<Rightarrow> 'a list \<Rightarrow> 'a list" where
  "write_at i ys xs = take i xs @ ys @ drop (i + length ys) xs"

definition erase_at :: "nat \<Rightarrow> 'a list \<Rightarrow> 'a list option" where
  "erase_at i xs = (if i < length xs then Some (take i xs @ drop (Suc i) xs) else None)"

lemma length_write_at: "i + length ys \<le> length xs \<Longrightarrow> length (write_at i ys xs) = length xs"
  by (simp add: write_at_def)

lemma nth_write_at_inside:
  "i + length ys \<le> length xs \<Longrightarrow> j < length ys \<Longrightarrow> write_at i ys xs ! (i + j) = ys ! j"
  by (simp add: write_at_def nth_append)

lemma nth_write_at_outside:
  "i + length ys \<le> length xs \<Longrightarrow> j < length xs \<Longrightarrow> j < i \<or> i + length ys \<le> j \<Longrightarrow>
   write_at i ys xs ! j = xs ! j"
  by (auto simp: write_at_def nth_append)

lemma erase_at_Some_length: "erase_at i xs = Some ys \<Longrightarrow> length xs = Suc (length ys)"
  by (auto simp: erase_at_def split: if_splits)

lemma erase_at_zip:
  "length xs = length ys \<Longrightarrow> erase_at i xs = Some xs' \<Longrightarrow> erase_at i ys = Some ys' \<Longrightarrow>
   erase_at i (zip xs ys) = Some (zip xs' ys')"
  by (auto simp: erase_at_def zip_append1 take_zip drop_zip min_def split: if_splits)

lemma erase_at_Cons:
  "erase_at i (x # xs) =
     (case i of 0 \<Rightarrow> Some xs | Suc j \<Rightarrow> map_option ((#) x) (erase_at j xs))"
  by (auto simp: erase_at_def split: nat.splits)

end
