(* ===== verification/Action_Handler.thy ===== *)
theory Action_Handler
  imports Prelude
begin

text \<open>
  The action handler (\<^verbatim>\<open>includes/events/action_hanlder.hpp\<close>): bitwise action flags, the list of
  callbacks of one action with its insertion and execution, and the compile-time lookup of an
  action in an action list.  Callbacks are abstract here (a type variable); the library's own
  lambdas and the user's are the constructors of a datatype in theory \<open>World\<close>.
\<close>

section \<open>Flags and callback lists\<close>

datatype action_flag = DEFAULT | SKIP | STOP_AFTER | QUEUE_END

fun flag_value :: "action_flag \<Rightarrow> ushort" where
  "flag_value DEFAULT = 0"
| "flag_value SKIP = 1"
| "flag_value STOP_AFTER = 2"
| "flag_value QUEUE_END = 4"

declare flag_value.simps [simp del]

record 'cb action_callback =
  exec :: 'cb
  flags :: ushort

unbundle bit_operations_syntax

definition has_flag :: "ushort \<Rightarrow> action_flag \<Rightarrow> bool" where
  "has_flag fl f \<longleftrightarrow> fl AND flag_value f \<noteq> 0"

text \<open>
  \<^verbatim>\<open>add_callback\<close> walks the reverse iterator past the callbacks flagged \<open>QUEUE_END\<close> and inserts
  before the base of the iterator it stops at.  The argument of \<open>insert_base\<close> is what is left
  between the reverse iterator and \<^verbatim>\<open>crend\<close>; the base is that many elements from the front.
\<close>

fun insert_base :: "'cb action_callback list \<Rightarrow> nat" where
  "insert_base [] = 0"
| "insert_base (c # cs) =
     (if NOT (flags c) AND flag_value QUEUE_END \<noteq> 0 then length (c # cs) else insert_base cs)"

definition add_callback ::
    "'cb \<Rightarrow> ushort \<Rightarrow> 'cb action_callback list \<Rightarrow> 'cb action_callback list" where
  "add_callback func fl xs =
     (let n = insert_base (rev xs)
      in take n xs @ [\<lparr>exec = func, flags = fl\<rparr>] @ drop n xs)"

text \<open>
  \<^verbatim>\<open>action::execute\<close>.  Before every element is read the list must still be in place
  (\<open>touch\<close>); \<open>run\<close> executes one callback, which may do anything to the state.  After a callback
  flagged \<open>STOP_AFTER\<close> the loop returns without touching the list again.
\<close>

fun execute_list ::
    "('s, unit) prog \<Rightarrow> ('cb \<Rightarrow> ('s, unit) prog) \<Rightarrow> 'cb action_callback list \<Rightarrow> ('s, unit) prog" where
  "execute_list touch run [] = ret ()"
| "execute_list touch run (c # cs) =
     andThen touch (\<lambda>_.
       if has_flag (flags c) SKIP then execute_list touch run cs
       else if has_flag (flags c) STOP_AFTER then run (exec c)
       else andThen (run (exec c)) (\<lambda>_. execute_list touch run cs))"

section \<open>Specification: the order of execution\<close>

text \<open>
  The callbacks one execution runs when nothing interferes, and the list built by a series of
  \<^verbatim>\<open>on\<close> calls.
\<close>

fun executed :: "'cb action_callback list \<Rightarrow> 'cb list" where
  "executed [] = []"
| "executed (c # cs) =
     (if has_flag (flags c) SKIP then executed cs
      else if has_flag (flags c) STOP_AFTER then [exec c]
      else exec c # executed cs)"

definition add_all ::
    "('cb \<times> ushort) list \<Rightarrow> 'cb action_callback list \<Rightarrow> 'cb action_callback list" where
  "add_all ons xs = fold (\<lambda>(f, fl). add_callback f fl) ons xs"

abbreviation at_end :: "'cb action_callback \<Rightarrow> bool" where
  "at_end c \<equiv> has_flag (flags c) QUEUE_END"

text \<open>The queue seen abstractly: the ordinary callbacks and the ones kept at the end.\<close>

definition queue_wf :: "'cb action_callback list \<Rightarrow> bool" where
  "queue_wf xs \<longleftrightarrow> xs = filter (\<lambda>c. \<not> at_end c) xs @ filter at_end xs"

lemma has_flag_bit:
  "has_flag fl SKIP \<longleftrightarrow> bit fl 0" "has_flag fl STOP_AFTER \<longleftrightarrow> bit fl 1"
  "has_flag fl QUEUE_END \<longleftrightarrow> bit fl 2"
proof -
  have m: "fl AND 2 ^ n = 0 \<longleftrightarrow> \<not> bit fl n" for n
    by (rule and_exp_eq_0_iff_not_bit)
  show "has_flag fl SKIP \<longleftrightarrow> bit fl 0"
    using m [of 0] by (simp add: has_flag_def flag_value.simps)
  show "has_flag fl STOP_AFTER \<longleftrightarrow> bit fl 1"
    using m [of 1] by (simp add: has_flag_def flag_value.simps)
  show "has_flag fl QUEUE_END \<longleftrightarrow> bit fl 2"
    using m [of 2] by (simp add: has_flag_def flag_value.simps)
qed

lemma no_flags [simp]: "\<not> has_flag 0 f"
  by (simp add: has_flag_def)

lemma not_flag_and: "NOT fl AND flag_value QUEUE_END \<noteq> 0 \<longleftrightarrow> \<not> has_flag (fl :: ushort) QUEUE_END"
proof -
  have "NOT fl AND 2 ^ 2 = 0 \<longleftrightarrow> \<not> bit (NOT fl) 2"
    by (rule and_exp_eq_0_iff_not_bit)
  then show ?thesis
    by (simp add: has_flag_bit bit_not_iff flag_value.simps)
qed

lemma insert_base_rev:
  "insert_base (rev xs) = length xs - length (takeWhile at_end (rev xs))"
proof (induction xs rule: rev_induct)
  case Nil
  show ?case by simp
next
  case (snoc x xs)
  have "length (takeWhile at_end (rev xs)) \<le> length xs"
    using length_takeWhile_le [of at_end "rev xs"] by simp
  then show ?case
    using snoc by (simp add: not_flag_and)
qed

lemma takeWhile_all_filter:
  "\<forall>c \<in> set ys. P c \<Longrightarrow> \<forall>c \<in> set xs. \<not> P c \<Longrightarrow> takeWhile P (rev (xs @ ys)) = rev ys"
  by (cases xs rule: rev_cases) (auto simp: takeWhile_append)

lemma add_callback_split:
  assumes "\<forall>c \<in> set xs. \<not> at_end c" and "\<forall>c \<in> set ys. at_end c"
  shows "add_callback f fl (xs @ ys) = xs @ \<lparr>exec = f, flags = fl\<rparr> # ys"
proof -
  have "takeWhile at_end (rev (xs @ ys)) = rev ys"
    using assms by (intro takeWhile_all_filter) auto
  then have "insert_base (rev (xs @ ys)) = length xs"
    by (simp only: insert_base_rev) simp
  then show ?thesis
    by (simp add: add_callback_def)
qed

lemma add_callback_parts:
  assumes "queue_wf xs"
  shows "add_callback f fl xs =
    filter (\<lambda>c. \<not> at_end c) xs @ \<lparr>exec = f, flags = fl\<rparr> # filter at_end xs"
proof -
  have "add_callback f fl xs = add_callback f fl (filter (\<lambda>c. \<not> at_end c) xs @ filter at_end xs)"
    using assms by (simp add: queue_wf_def)
  also have "\<dots> = filter (\<lambda>c. \<not> at_end c) xs @ \<lparr>exec = f, flags = fl\<rparr> # filter at_end xs"
    by (rule add_callback_split) auto
  finally show ?thesis .
qed

lemma queue_wf_Nil [simp]: "queue_wf []"
  by (simp add: queue_wf_def)

lemma queue_wf_splitI:
  "\<forall>c \<in> set xs. \<not> at_end c \<Longrightarrow> \<forall>c \<in> set ys. at_end c \<Longrightarrow> queue_wf (xs @ ys)"
  by (simp add: queue_wf_def)

lemma queue_wf_add_callback: "queue_wf xs \<Longrightarrow> queue_wf (add_callback f fl xs)"
  by (simp add: add_callback_parts) (simp add: queue_wf_def)

lemma set_add_callback:
  "set (add_callback f fl xs) = insert \<lparr>exec = f, flags = fl\<rparr> (set xs)"
  by (metis (no_types, opaque_lifting) Un_insert_right add_callback_def append_take_drop_id
      list.set(2) set_append sup_bot.right_neutral append_Cons append_Nil)

lemma queue_wf_add_all: "queue_wf xs \<Longrightarrow> queue_wf (add_all ons xs)"
  by (induction ons arbitrary: xs) (auto simp: add_all_def queue_wf_add_callback)

section \<open>Lemmas on insertion order and execution\<close>

abbreviation mk_callback :: "'cb \<times> ushort \<Rightarrow> 'cb action_callback" where
  "mk_callback p \<equiv> \<lparr>exec = fst p, flags = snd p\<rparr>"

lemma add_all_order:
  "queue_wf xs \<Longrightarrow> add_all ons xs =
     filter (\<lambda>c. \<not> at_end c) xs @ map mk_callback (filter (\<lambda>p. \<not> has_flag (snd p) QUEUE_END) ons)
     @ rev (map mk_callback (filter (\<lambda>p. has_flag (snd p) QUEUE_END) ons)) @ filter at_end xs"
proof (induction ons arbitrary: xs)
  case Nil
  then show ?case by (simp add: add_all_def queue_wf_def)
next
  case (Cons p ons)
  have "add_all (p # ons) xs = add_all ons (add_callback (fst p) (snd p) xs)"
    by (simp add: add_all_def case_prod_beta)
  also have "\<dots> = filter (\<lambda>c. \<not> at_end c) (add_callback (fst p) (snd p) xs)
      @ map mk_callback (filter (\<lambda>p. \<not> has_flag (snd p) QUEUE_END) ons)
      @ rev (map mk_callback (filter (\<lambda>p. has_flag (snd p) QUEUE_END) ons))
      @ filter at_end (add_callback (fst p) (snd p) xs)"
    by (rule Cons.IH) (rule queue_wf_add_callback [OF Cons.prems])
  finally show ?case
    by (simp add: add_callback_parts [OF Cons.prems])
qed

definition stops :: "'cb action_callback \<Rightarrow> bool" where
  "stops c \<longleftrightarrow> \<not> has_flag (flags c) SKIP \<and> has_flag (flags c) STOP_AFTER"

lemma executed_append:
  "executed (xs @ ys) = (if \<exists>c \<in> set xs. stops c then executed xs else executed xs @ executed ys)"
  by (induction xs) (auto simp: stops_def)

lemma executed_no_stop:
  "\<forall>c \<in> set xs. \<not> stops c \<Longrightarrow>
   executed xs = map exec (filter (\<lambda>c. \<not> has_flag (flags c) SKIP) xs)"
  by (induction xs) (auto simp: stops_def)

lemma set_executed: "set (executed xs) \<subseteq> exec ` set xs"
  by (induction xs) auto

text \<open>
  One execution under a state predicate \<open>I\<close> that keeps the list readable and that the callbacks
  in \<open>S\<close> preserve: it runs exactly the scheduled callbacks, and a last one that no other stops may end
  anywhere.
\<close>

locale callback_execution =
  fixes touch :: "('s, unit) prog" and run :: "'cb \<Rightarrow> ('s, unit) prog"
    and I :: "'s \<Rightarrow> bool" and E :: "fault \<Rightarrow> bool" and S :: "'cb set"
  assumes touch_ok: "I s \<Longrightarrow> touch s = Inr ((), s)"
    and run_ok: "cb \<in> S \<Longrightarrow> triple I (run cb) (\<lambda>_. I) E"
begin

lemma execute_as_scheduled:
  "I s \<Longrightarrow> exec ` set cs \<subseteq> S \<Longrightarrow> execute_list touch run cs s = run_all run (executed cs) s"
proof (induction cs arbitrary: s)
  case Nil
  show ?case by simp
next
  case (Cons c cs)
  have keep: "I s'" if "run (exec c) s = Inr (u, s')" for u s'
    using tripleD [OF run_ok Cons.prems(1) that] Cons.prems(2) by simp
  show ?case
    using Cons keep
    by (auto simp: prog_simps touch_ok split: sum.splits prod.splits)
qed

lemma execute_triple:
  "exec ` set cs \<subseteq> S \<Longrightarrow> triple I (execute_list touch run cs) (\<lambda>_. I) E"
proof (induction cs)
  case Nil
  show ?case by (simp add: triple_ret)
next
  case (Cons c cs)
  have t: "triple I touch (\<lambda>_. I) E"
    by (rule tripleI) (auto simp: touch_ok)
  show ?case
    using Cons by (auto intro!: triple_andThen [OF t] triple_if run_ok triple_andThen [OF run_ok])
qed

lemma execute_last_triple:
  assumes "exec ` set cs \<subseteq> S" and "\<forall>d \<in> set cs. \<not> stops d" and "\<not> has_flag (flags c) SKIP"
    and "triple I (run (exec c)) (\<lambda>_. J) E"
  shows "triple I (execute_list touch run (cs @ [c])) (\<lambda>_. J) E"
  using assms(1,2)
proof (induction cs)
  case Nil
  have t: "triple I touch (\<lambda>_. I) E"
    by (rule tripleI) (auto simp: touch_ok)
  show ?case
    using assms(3,4) by (auto intro!: triple_andThen [OF t])
next
  case (Cons d cs)
  have t: "triple I touch (\<lambda>_. I) E"
    by (rule tripleI) (auto simp: touch_ok)
  show ?case
    using Cons by (auto simp: stops_def intro!: triple_andThen [OF t] triple_andThen [OF run_ok])
qed

end

lemma approx_execute_list [approx_rules]:
  "(\<And>cb. approx ft (run cb) (run' cb)) \<Longrightarrow> approx ft (execute_list touch run cs) (execute_list touch run' cs)"
  by (induction cs) (auto intro!: approx_andThen approx_if)

section \<open>Compile-time lookup of actions\<close>

text \<open>
  An action list is a tuple of action types, each a tag with its callback prototype
  (\<^verbatim>\<open>std::function\<close> type).  \<open>get_action\<close> follows the three template specialisations; the fourth
  line of a tuple access, \<^verbatim>\<open>std::get\<close> by type, is ill-formed when the type occurs twice.
\<close>

type_synonym ('tag, 'proto) actions_list = "('tag \<times> 'proto) list"

fun get_action :: "'tag \<Rightarrow> ('tag, 'proto) actions_list \<Rightarrow> ('tag \<times> 'proto) option" where
  "get_action atype [] = None"
| "get_action atype ((tag, func) # aargs) =
     (if tag = atype then Some (tag, func) else get_action atype aargs)"

text \<open>Which of its two static assertions an instantiation of \<^verbatim>\<open>on\<close> violates, if any.\<close>

datatype on_diagnosis = Compiles | Action_not_found | Invalid_function_handler

definition on_check :: "'tag \<Rightarrow> 'proto \<Rightarrow> ('tag, 'proto) actions_list \<Rightarrow> on_diagnosis" where
  "on_check atype func_type acts =
     (case get_action atype acts of
        None \<Rightarrow> Action_not_found
      | Some (tag, proto) \<Rightarrow> if proto = func_type then Invalid_function_handler else Compiles)"

lemma get_action_map_of: "get_action t acts = map_option (\<lambda>f. (t, f)) (map_of acts t)"
  by (induction acts) auto

lemma get_action_append:
  "get_action t (xs @ ys) = (case get_action t xs of None \<Rightarrow> get_action t ys | Some a \<Rightarrow> Some a)"
  by (induction xs) auto

text \<open>
  C25. The order in which callbacks registered by a series of \<^verbatim>\<open>on\<close> calls stand in the list: the
  ordinary ones in registration order, then those flagged \<open>QUEUE_END\<close>, latest registration first.
\<close>

theorem registration_order:
  "add_all ons [] = map mk_callback (filter (\<lambda>p. \<not> has_flag (snd p) QUEUE_END) ons)
     @ rev (map mk_callback (filter (\<lambda>p. has_flag (snd p) QUEUE_END) ons))"
  by (simp add: add_all_order)




end
