(* ===== verification/Poll_Handler.thy ===== *)
theory Poll_Handler
  imports Prelude
begin

text \<open>
  The event handler: \<^verbatim>\<open>handler_impl<POLL>\<close> with its two parallel vectors
  (\<^verbatim>\<open>includes/events/handlers/poll/handler_impl.hpp\<close>, \<^verbatim>\<open>src/events/handlers/poll.cpp\<close>), the class
  \<^verbatim>\<open>events::handler\<close> with its change counter (\<^verbatim>\<open>includes/events/polling_handler.hpp\<close>) and the
  selection of the implementation (\<^verbatim>\<open>includes/events/events_types.hpp\<close>).
  Pointers to sockets are a type variable.
\<close>

section \<open>Selection of the handler implementation\<close>

datatype handler_types = POLL | EPOLL | KQUEUE | SELECT

text \<open>
  \<open>use\<close> is the value of \<^verbatim>\<open>USE_POLL_HANDLER\<close> when that macro is defined, \<open>macros\<close> the macros the
  compiler predefines.
\<close>

definition poll_handler :: "handler_types option \<Rightarrow> string list \<Rightarrow> handler_types" where
  "poll_handler use macros =
     (case use of
        Some h \<Rightarrow> h
      | None \<Rightarrow>
          if List.member macros ''__LINUX__'' then EPOLL
          else if List.member macros ''__APPLE__'' \<or> List.member macros ''__NetBSD__''
                  \<or> List.member macros ''__FreeBSD__'' then POLL
          else SELECT)"

text \<open>The only specialisation of \<^verbatim>\<open>handler_impl\<close> and \<^verbatim>\<open>poll_impl\<close> in the library.\<close>

definition implemented :: "handler_types \<Rightarrow> bool" where
  "implemented h \<longleftrightarrow> h = POLL"

section \<open>The two vectors\<close>

record pollfd =
  pfd :: int
  events :: ushort
  revents :: ushort

definition POLLIN :: ushort where "POLLIN = 1"

definition POLLOUT :: ushort where "POLLOUT = 4"

text \<open>
  \<open>storage\<close> stands for the iterators into the two vectors: it changes with every
  \<^verbatim>\<open>push_back\<close> and \<^verbatim>\<open>erase\<close>, the operations that invalidate them.
\<close>

record 'p handler_impl =
  sockets :: "pollfd list"
  socket_ptrs :: "'p list"
  storage :: nat

text \<open>The comparison operators between \<^verbatim>\<open>pollfd\<close> structs and descriptors.\<close>

definition pollfd_eq_fd :: "pollfd \<Rightarrow> int \<Rightarrow> bool" where
  "pollfd_eq_fd s_socket i_socket \<longleftrightarrow> pfd s_socket = i_socket"

definition pollfd_less_fd :: "pollfd \<Rightarrow> int \<Rightarrow> bool" where
  "pollfd_less_fd s_socket i_socket \<longleftrightarrow> pfd s_socket < i_socket"

definition pollfd_greater_fd :: "pollfd \<Rightarrow> int \<Rightarrow> bool" where
  "pollfd_greater_fd s_socket i_socket \<longleftrightarrow> pfd s_socket > i_socket"

definition pollfd_eq :: "pollfd \<Rightarrow> pollfd \<Rightarrow> bool" where
  "pollfd_eq a b \<longleftrightarrow> pfd a = pfd b"

definition pollfd_less :: "pollfd \<Rightarrow> pollfd \<Rightarrow> bool" where
  "pollfd_less a b \<longleftrightarrow> pfd a < pfd b"

definition pollfd_greater :: "pollfd \<Rightarrow> pollfd \<Rightarrow> bool" where
  "pollfd_greater a b \<longleftrightarrow> pfd a > pfd b"

text \<open>\<^verbatim>\<open>std::find\<close> over the vector: the position of the first match, or the size for \<^verbatim>\<open>end()\<close>.\<close>

fun find_socket :: "pollfd list \<Rightarrow> int \<Rightarrow> nat" where
  "find_socket [] socket = 0"
| "find_socket (s # ss) socket = (if pollfd_eq_fd s socket then 0 else Suc (find_socket ss socket))"

definition impl_add_socket ::
    "int \<Rightarrow> 'p \<Rightarrow> ('p, 'z) handler_impl_scheme \<Rightarrow> ('p, 'z) handler_impl_scheme" where
  "impl_add_socket socket ref h =
     h\<lparr>sockets := sockets h @ [\<lparr>pfd = socket, events = POLLIN, revents = 0\<rparr>],
       socket_ptrs := socket_ptrs h @ [ref],
       storage := Suc (storage h)\<rparr>"

text \<open>
  \<open>None\<close> is the undefined erasure past the end of \<^verbatim>\<open>socket_ptrs\<close>, reached only if the vectors
  differ in size.
\<close>

definition impl_del_socket ::
    "int \<Rightarrow> ('p, 'z) handler_impl_scheme \<Rightarrow> ('p, 'z) handler_impl_scheme option" where
  "impl_del_socket socket h =
     (let it = find_socket (sockets h) socket in
      if it = length (sockets h) then Some h
      else case erase_at it (socket_ptrs h) of
          None \<Rightarrow> None
        | Some ptrs \<Rightarrow>
            (case erase_at it (sockets h) of
               None \<Rightarrow> None
             | Some socks \<Rightarrow>
                 Some (h\<lparr>socket_ptrs := ptrs, sockets := socks, storage := Suc (storage h)\<rparr>)))"

definition impl_empty :: "('p, 'z) handler_impl_scheme \<Rightarrow> bool" where
  "impl_empty h \<longleftrightarrow> sockets h = []"

definition impl_count :: "('p, 'z) handler_impl_scheme \<Rightarrow> nat" where
  "impl_count h = length (sockets h)"

unbundle bit_operations_syntax

definition impl_socket_want_read ::
    "int \<Rightarrow> bool \<Rightarrow> ('p, 'z) handler_impl_scheme \<Rightarrow> ('p, 'z) handler_impl_scheme" where
  "impl_socket_want_read socket active h =
     (let it = find_socket (sockets h) socket in
      if it = length (sockets h) then h
      else let s = sockets h ! it in
        h\<lparr>sockets := (sockets h)[it :=
            if active then s\<lparr>events := events s OR POLLIN\<rparr>
            else s\<lparr>events := events s AND NOT POLLIN\<rparr>]\<rparr>)"

definition impl_socket_want_write ::
    "int \<Rightarrow> bool \<Rightarrow> ('p, 'z) handler_impl_scheme \<Rightarrow> ('p, 'z) handler_impl_scheme" where
  "impl_socket_want_write socket active h =
     (let it = find_socket (sockets h) socket in
      if it = length (sockets h) then h
      else let s = sockets h ! it in
        h\<lparr>sockets := (sockets h)[it :=
            if active then s\<lparr>events := events s OR POLLOUT\<rparr>
            else s\<lparr>events := events s AND NOT POLLOUT\<rparr>]\<rparr>)"

section \<open>The handler and its change counter\<close>

record 'p handler = "'p handler_impl" +
  invalid :: ushort

text \<open>
  The constructor starts with empty vectors and does not initialise \<^verbatim>\<open>invalid\<close>: the field keeps
  whatever the memory held (\<open>garbage\<close>).
\<close>

definition new_handler :: "ushort \<Rightarrow> 'p handler" where
  "new_handler garbage = \<lparr>sockets = [], socket_ptrs = [], storage = 0, invalid = garbage\<rparr>"

definition add_socket :: "int \<Rightarrow> 'p \<Rightarrow> 'p handler \<Rightarrow> 'p handler" where
  "add_socket socket sptr h =
     (let h' = impl_add_socket socket sptr h in h'\<lparr>invalid := invalid h' + 1\<rparr>)"

definition delete_socket :: "int \<Rightarrow> 'p handler \<Rightarrow> 'p handler option" where
  "delete_socket socket h =
     map_option (\<lambda>h'. h'\<lparr>invalid := invalid h' + 1\<rparr>) (impl_del_socket socket h)"

definition get_ref :: "'p handler \<Rightarrow> ushort" where
  "get_ref h = invalid h"

definition ref_has_changed :: "ushort \<Rightarrow> 'p handler \<Rightarrow> bool" where
  "ref_has_changed old_ref h \<longleftrightarrow> old_ref \<noteq> get_ref h"

section \<open>Abstraction: a registry of descriptors\<close>

text \<open>
  A registered descriptor has the pointer of its socket and the two interests
  (reading, writing).
\<close>

definition interest :: "pollfd \<Rightarrow> bool \<times> bool" where
  "interest s = (events s AND POLLIN \<noteq> 0, events s AND POLLOUT \<noteq> 0)"

definition entries :: "('p, 'z) handler_impl_scheme \<Rightarrow> (int \<times> 'p \<times> bool \<times> bool) list" where
  "entries h = zip (map pfd (sockets h)) (zip (socket_ptrs h) (map interest (sockets h)))"

definition registry :: "('p, 'z) handler_impl_scheme \<Rightarrow> int \<rightharpoonup> 'p \<times> bool \<times> bool" where
  "registry h = map_of (entries h)"

definition handler_wf :: "('p, 'z) handler_impl_scheme \<Rightarrow> bool" where
  "handler_wf h \<longleftrightarrow>
     length (sockets h) = length (socket_ptrs h) \<and> distinct (map pfd (sockets h))"

section \<open>The operations on the vectors, entry by entry\<close>

text \<open>
  What a search followed by an erasure or an update does to the list, by recursion on the list.
\<close>

fun update_first :: "int \<Rightarrow> (pollfd \<Rightarrow> pollfd) \<Rightarrow> pollfd list \<Rightarrow> pollfd list" where
  "update_first fd f [] = []"
| "update_first fd f (s # ss) = (if pfd s = fd then f s # ss else s # update_first fd f ss)"

fun del_first :: "'k \<Rightarrow> ('k \<times> 'v) list \<Rightarrow> ('k \<times> 'v) list" where
  "del_first k [] = []"
| "del_first k ((k', v) # es) = (if k' = k then es else (k', v) # del_first k es)"

lemmas pollfd_compare_defs = pollfd_eq_fd_def pollfd_less_fd_def pollfd_greater_fd_def
  pollfd_eq_def pollfd_less_def pollfd_greater_def

lemma find_socket_le: "find_socket ss fd \<le> length ss"
  by (induction ss) auto

lemma find_socket_end: "find_socket ss fd = length ss \<longleftrightarrow> fd \<notin> pfd ` set ss"
  by (induction ss) (auto simp: pollfd_compare_defs)

lemma find_socket_nth: "find_socket ss fd < length ss \<Longrightarrow> pfd (ss ! find_socket ss fd) = fd"
  by (induction ss) (auto simp: pollfd_compare_defs)

lemma list_update_find:
  "(let it = find_socket ss fd in if it = length ss then ss else ss[it := f (ss ! it)]) = update_first fd f ss"
  by (induction ss) (auto simp: pollfd_compare_defs Let_def split: if_splits)

lemma pfd_update_first:
  "(\<And>s. pfd (f s) = pfd s) \<Longrightarrow> map pfd (update_first fd f ss) = map pfd ss"
  by (induction ss) auto

lemma length_update_first [simp]: "length (update_first fd f ss) = length ss"
  by (induction ss) auto

lemma update_first_absent: "fd \<notin> pfd ` set ss \<Longrightarrow> update_first fd f ss = ss"
  by (induction ss) auto

lemma keys_del_first: "distinct (map fst es) \<Longrightarrow> fst ` set (del_first k es) = fst ` set es - {k}"
proof (induction es)
  case (Cons e es)
  then show ?case by (cases e) force
qed simp

lemma distinct_del_first: "distinct (map fst es) \<Longrightarrow> distinct (map fst (del_first k es))"
proof (induction es)
  case (Cons e es)
  then show ?case by (cases e) (auto simp: keys_del_first rev_image_eqI)
qed simp

lemma map_of_del_first: "distinct (map fst es) \<Longrightarrow> map_of (del_first k es) = (map_of es)(k := None)"
proof (induction es)
  case (Cons e es)
  then show ?case
    by (cases e) (auto simp: fun_eq_iff map_of_eq_None_iff rev_image_eqI)
qed (simp add: fun_eq_iff)

lemma del_first_absent: "k \<notin> fst ` set es \<Longrightarrow> del_first k es = es"
  by (induction es) auto

lemma impl_want_read_update:
  "impl_socket_want_read fd b h = h\<lparr>sockets := update_first fd
     (\<lambda>s. if b then s\<lparr>events := events s OR POLLIN\<rparr> else s\<lparr>events := events s AND NOT POLLIN\<rparr>) (sockets h)\<rparr>"
  by (auto simp: impl_socket_want_read_def list_update_find [symmetric] Let_def)

lemma impl_want_write_update:
  "impl_socket_want_write fd b h = h\<lparr>sockets := update_first fd
     (\<lambda>s. if b then s\<lparr>events := events s OR POLLOUT\<rparr> else s\<lparr>events := events s AND NOT POLLOUT\<rparr>) (sockets h)\<rparr>"
  by (auto simp: impl_socket_want_write_def list_update_find [symmetric] Let_def)

lemma erase_find_Some:
  assumes "length ps = length ss" and "find_socket ss fd \<noteq> length ss"
  obtains ps' ss' where
    "erase_at (find_socket ss fd) ps = Some ps'" "erase_at (find_socket ss fd) ss = Some ss'"
    "length ps' = length ss'"
    "zip (map pfd ss') (zip ps' (map interest ss')) =
       del_first fd (zip (map pfd ss) (zip ps (map interest ss)))"
proof -
  let ?i = "find_socket ss fd"
  have lt: "?i < length ss"
    using assms(2) find_socket_le [of ss fd] by linarith
  have zip: "zip (map pfd (take ?i ss @ drop (Suc ?i) ss))
       (zip (take ?i ps @ drop (Suc ?i) ps) (map interest (take ?i ss @ drop (Suc ?i) ss))) =
     del_first fd (zip (map pfd ss) (zip ps (map interest ss)))"
    using assms
  proof (induction ps ss rule: list_induct2)
    case Nil
    then show ?case by simp
  next
    case (Cons p ps s ss)
    then show ?case by (auto simp: pollfd_compare_defs)
  qed
  show ?thesis
    by (rule that [of "take ?i ps @ drop (Suc ?i) ps" "take ?i ss @ drop (Suc ?i) ss"])
      (use lt assms(1) zip in \<open>auto simp: erase_at_def\<close>)
qed

lemma erase_at_Some_iff: "(\<exists>ys. erase_at i xs = Some ys) \<longleftrightarrow> i < length xs"
  by (simp add: erase_at_def)

text \<open>Every operation on the entry list.\<close>

lemma entries_add:
  "length (sockets h) = length (socket_ptrs h) \<Longrightarrow>
   entries (impl_add_socket fd p h) = entries h @ [(fd, p, True, False)]"
  by (simp add: entries_def impl_add_socket_def interest_def POLLIN_def POLLOUT_def)

lemma impl_del_socket_total:
  assumes "length (sockets h) = length (socket_ptrs h)"
  obtains h' where "impl_del_socket fd h = Some h'" "entries h' = del_first fd (entries h)"
    "length (sockets h') = length (socket_ptrs h')"
    "storage h' = (if fd \<in> pfd ` set (sockets h) then Suc (storage h) else storage h)"
proof (cases "find_socket (sockets h) fd = length (sockets h)")
  case True
  then have "fd \<notin> pfd ` set (sockets h)"
    by (simp add: find_socket_end)
  moreover from this have "del_first fd (entries h) = entries h"
    by (intro del_first_absent) (auto simp: entries_def dest!: set_zip_leftD)
  ultimately show ?thesis
    using True assms that [of h] by (auto simp: impl_del_socket_def)
next
  case False
  then have mem: "fd \<in> pfd ` set (sockets h)"
    by (simp add: find_socket_end)
  obtain ps ss where e: "erase_at (find_socket (sockets h) fd) (socket_ptrs h) = Some ps"
      "erase_at (find_socket (sockets h) fd) (sockets h) = Some ss" "length ps = length ss"
      "zip (map pfd ss) (zip ps (map interest ss)) =
         del_first fd (zip (map pfd (sockets h)) (zip (socket_ptrs h) (map interest (sockets h))))"
    by (rule erase_find_Some [of "socket_ptrs h" "sockets h" fd]) (use assms False in auto)
  show ?thesis
    by (rule that) (use False e mem in
        \<open>auto simp: impl_del_socket_def entries_def\<close>)
qed

lemma map_zip_update_first:
  assumes "\<And>s. pfd (f s) = pfd s" and "\<And>s. interest (f s) = g (interest s)"
    and "length ss = length ps"
  shows "map_of (zip (map pfd ss) (zip ps (map interest (update_first fd f ss)))) =
    (\<lambda>k. if k = fd then map_option (\<lambda>(p, i). (p, g i)) (map_of (zip (map pfd ss) (zip ps (map interest ss))) k)
         else map_of (zip (map pfd ss) (zip ps (map interest ss))) k)"
  using assms(3)
proof (induction ss ps rule: list_induct2)
  case Nil
  then show ?case by (simp add: fun_eq_iff)
next
  case (Cons s ss p ps)
  then show ?case by (auto simp: fun_eq_iff assms(1,2))
qed

section \<open>The registry contract\<close>

datatype 'p registry_op =
    Add int 'p
  | Delete int
  | Want_read int bool
  | Want_write int bool

text \<open>The abstract effect of an operation; adding a descriptor that is present has no contract.\<close>

fun spec_op :: "'p registry_op \<Rightarrow> (int \<rightharpoonup> 'p \<times> bool \<times> bool) \<Rightarrow> (int \<rightharpoonup> 'p \<times> bool \<times> bool) option" where
  "spec_op (Add fd p) m = (if m fd = None then Some (m(fd \<mapsto> (p, True, False))) else None)"
| "spec_op (Delete fd) m = Some (m(fd := None))"
| "spec_op (Want_read fd b) m = Some (m(fd := map_option (\<lambda>(p, r, w). (p, b, w)) (m fd)))"
| "spec_op (Want_write fd b) m = Some (m(fd := map_option (\<lambda>(p, r, w). (p, r, b)) (m fd)))"

fun run_ops :: "('o \<Rightarrow> 'h \<Rightarrow> 'h option) \<Rightarrow> 'o list \<Rightarrow> 'h \<Rightarrow> 'h option" where
  "run_ops step [] h = Some h"
| "run_ops step (x # xs) h = (case step x h of None \<Rightarrow> None | Some h' \<Rightarrow> run_ops step xs h')"

fun registry_step ::
    "(int \<Rightarrow> 'p \<Rightarrow> 'h \<Rightarrow> 'h) \<Rightarrow> (int \<Rightarrow> 'h \<Rightarrow> 'h option) \<Rightarrow> (int \<Rightarrow> bool \<Rightarrow> 'h \<Rightarrow> 'h) \<Rightarrow>
     (int \<Rightarrow> bool \<Rightarrow> 'h \<Rightarrow> 'h) \<Rightarrow> 'p registry_op \<Rightarrow> 'h \<Rightarrow> 'h option" where
  "registry_step add del rd wr (Add fd p) h = Some (add fd p h)"
| "registry_step add del rd wr (Delete fd) h = del fd h"
| "registry_step add del rd wr (Want_read fd b) h = Some (rd fd b h)"
| "registry_step add del rd wr (Want_write fd b) h = Some (wr fd b h)"

locale socket_registry =
  fixes wf :: "'h \<Rightarrow> bool" and lookup :: "'h \<Rightarrow> int \<rightharpoonup> 'p \<times> bool \<times> bool"
    and add :: "int \<Rightarrow> 'p \<Rightarrow> 'h \<Rightarrow> 'h" and del :: "int \<Rightarrow> 'h \<Rightarrow> 'h option"
    and want_read :: "int \<Rightarrow> bool \<Rightarrow> 'h \<Rightarrow> 'h" and want_write :: "int \<Rightarrow> bool \<Rightarrow> 'h \<Rightarrow> 'h"
  assumes add_law: "wf h \<Longrightarrow> lookup h fd = None \<Longrightarrow>
      wf (add fd p h) \<and> lookup (add fd p h) = (lookup h)(fd \<mapsto> (p, True, False))"
    and del_law: "wf h \<Longrightarrow>
      \<exists>h'. del fd h = Some h' \<and> wf h' \<and> lookup h' = (lookup h)(fd := None)"
    and read_law: "wf h \<Longrightarrow> wf (want_read fd b h) \<and>
      lookup (want_read fd b h) = (lookup h)(fd := map_option (\<lambda>(p, r, w). (p, b, w)) (lookup h fd))"
    and write_law: "wf h \<Longrightarrow> wf (want_write fd b h) \<and>
      lookup (want_write fd b h) = (lookup h)(fd := map_option (\<lambda>(p, r, w). (p, r, b)) (lookup h fd))"
begin

lemma step_simulates:
  "wf h \<Longrightarrow> spec_op x (lookup h) = Some m \<Longrightarrow>
   \<exists>h'. registry_step add del want_read want_write x h = Some h' \<and> wf h' \<and> lookup h' = m"
  by (cases x) (auto simp: add_law read_law write_law dest: del_law split: if_splits)

lemma run_simulates:
  "wf h \<Longrightarrow> run_ops spec_op xs (lookup h) = Some m \<Longrightarrow>
   \<exists>h'. run_ops (registry_step add del want_read want_write) xs h = Some h' \<and> wf h' \<and> lookup h' = m"
proof (induction xs arbitrary: h)
  case Nil
  then show ?case by simp
next
  case (Cons x xs)
  then obtain m1 where m1: "spec_op x (lookup h) = Some m1" "run_ops spec_op xs m1 = Some m"
    by (auto split: option.splits)
  obtain h1 where "registry_step add del want_read want_write x h = Some h1" "wf h1" "lookup h1 = m1"
    using step_simulates [OF Cons.prems(1) m1(1)] by blast
  then show ?case
    using Cons.IH [of h1] m1(2) by simp
qed

lemma register_unregister:
  "wf h \<Longrightarrow> lookup h fd = None \<Longrightarrow>
   \<exists>h'. del fd (add fd p h) = Some h' \<and> wf h' \<and> lookup h' = lookup h"
  using add_law [of h fd p] del_law [of "add fd p h" fd] by (auto simp: fun_upd_idem)

end

lemma entries_keys: "length (sockets h) = length (socket_ptrs h) \<Longrightarrow> map fst (entries h) = map pfd (sockets h)"
  by (simp add: entries_def)

lemma registry_None_iff:
  "handler_wf h \<Longrightarrow> registry h fd = None \<longleftrightarrow> fd \<notin> pfd ` set (sockets h)"
proof -
  assume "handler_wf h"
  then have "fst ` set (entries h) = pfd ` set (sockets h)"
    by (metis entries_keys handler_wf_def list.set_map)
  then show ?thesis
    by (simp add: registry_def map_of_eq_None_iff)
qed

lemma registry_position:
  assumes "handler_wf h" and "registry h fd = Some (p, r, b)"
  obtains i where "i < length (sockets h)" "socket_ptrs h ! i = p" "pfd (sockets h ! i) = fd"
proof -
  have "(fd, p, r, b) \<in> set (entries h)"
    using assms(2) by (auto simp: registry_def dest: map_of_SomeD)
  then show ?thesis
    using that by (auto simp: entries_def in_set_zip)
qed

lemma impl_add_law:
  "handler_wf h \<Longrightarrow> registry h fd = None \<Longrightarrow>
   handler_wf (impl_add_socket fd p h) \<and>
   registry (impl_add_socket fd p h) = (registry h)(fd \<mapsto> (p, True, False))"
proof -
  assume wf: "handler_wf h" and fresh: "registry h fd = None"
  have len: "length (sockets h) = length (socket_ptrs h)"
    using wf by (simp add: handler_wf_def)
  have "map_of (entries h @ [(fd, p, True, False)]) = (map_of (entries h))(fd \<mapsto> (p, True, False))"
    using fresh by (auto simp: registry_def fun_eq_iff map_add_def split: option.splits)
  then have "registry (impl_add_socket fd p h) = (registry h)(fd \<mapsto> (p, True, False))"
    by (simp add: registry_def entries_add [OF len])
  moreover have "handler_wf (impl_add_socket fd p h)"
    using wf fresh registry_None_iff [OF wf, of fd] by (simp add: handler_wf_def impl_add_socket_def)
  ultimately show ?thesis by simp
qed

lemma impl_del_law:
  assumes "handler_wf h"
  shows "\<exists>h'. impl_del_socket fd h = Some h' \<and> handler_wf h' \<and> registry h' = (registry h)(fd := None)"
proof -
  have len: "length (sockets h) = length (socket_ptrs h)" and dist: "distinct (map fst (entries h))"
    using assms by (simp_all add: handler_wf_def entries_keys)
  obtain h' where h': "impl_del_socket fd h = Some h'" "entries h' = del_first fd (entries h)"
      "length (sockets h') = length (socket_ptrs h')"
    by (rule impl_del_socket_total [OF len, of fd])
  then have "handler_wf h'"
    using distinct_del_first [OF dist, of fd] by (simp add: handler_wf_def flip: entries_keys)
  then show ?thesis
    using h' map_of_del_first [OF dist] by (auto simp: registry_def)
qed

lemma bit_interest:
  "interest s = (bit (events s) 0, bit (events s) 2)"
  using and_exp_eq_0_iff_not_bit [of "events s" 0] and_exp_eq_0_iff_not_bit [of "events s" 2]
  by (simp add: interest_def POLLIN_def POLLOUT_def)

lemma poll_bits [simp]:
  "bit POLLIN n \<longleftrightarrow> n = 0" "bit POLLOUT n \<longleftrightarrow> n = 2"
  using bit_exp_iff [of 0 n, where ?'a = "16 word"] bit_exp_iff [of 2 n, where ?'a = "16 word"]
  by (auto simp: POLLIN_def POLLOUT_def possible_bit_word)

lemma impl_want_read_law:
  "handler_wf h \<Longrightarrow> handler_wf (impl_socket_want_read fd b h) \<and>
   registry (impl_socket_want_read fd b h) =
     (registry h)(fd := map_option (\<lambda>(p, r, w). (p, b, w)) (registry h fd))"
  by (auto simp: impl_want_read_update handler_wf_def registry_def entries_def pfd_update_first fun_eq_iff
      map_zip_update_first [where g = "\<lambda>(r, w). (b, w)"] bit_interest bit_simps case_prod_beta
      intro!: option.map_cong0)

lemma impl_want_write_law:
  "handler_wf h \<Longrightarrow> handler_wf (impl_socket_want_write fd b h) \<and>
   registry (impl_socket_want_write fd b h) =
     (registry h)(fd := map_option (\<lambda>(p, r, w). (p, r, b)) (registry h fd))"
  by (auto simp: impl_want_write_update handler_wf_def registry_def entries_def pfd_update_first fun_eq_iff
      map_zip_update_first [where g = "\<lambda>(r, w). (r, b)"] bit_interest bit_simps case_prod_beta
      intro!: option.map_cong0)

lemma handler_invalid_irrelevant [simp]:
  "handler_wf (h\<lparr>invalid := n\<rparr>) = handler_wf h" "registry (h\<lparr>invalid := n\<rparr>) = registry h"
  "entries (h\<lparr>invalid := n\<rparr>) = entries h"
  by (simp_all add: handler_wf_def registry_def entries_def)

interpretation poll: socket_registry handler_wf registry add_socket delete_socket
  impl_socket_want_read impl_socket_want_write
proof
  show "handler_wf (add_socket fd p h) \<and> registry (add_socket fd p h) = (registry h)(fd \<mapsto> (p, True, False))"
    if "handler_wf h" "registry h fd = None" for h :: "'p handler" and fd p
    using impl_add_law [OF that] by (simp add: add_socket_def Let_def)
  show "\<exists>h'. delete_socket fd h = Some h' \<and> handler_wf h' \<and> registry h' = (registry h)(fd := None)"
    if "handler_wf h" for h :: "'p handler" and fd
    using impl_del_law [OF that, of fd] by (auto simp: delete_socket_def)
qed (simp_all add: impl_want_read_law impl_want_write_law)

section \<open>Properties\<close>

text \<open>
  C11. Refinement: from a well-formed handler, any sequence of additions, deletions and interest
  changes that the abstract registry (a map from descriptors to the socket pointer and its two
  interests) allows is executed without an out-of-range erasure, keeps the two vectors in step
  and ends in a handler that abstracts to the registry's result.
\<close>

theorem handler_refines_registry:
  assumes "handler_wf h" and "run_ops spec_op ops (registry h) = Some m"
  shows "\<exists>h'. run_ops (registry_step add_socket delete_socket impl_socket_want_read
      impl_socket_want_write) ops h = Some h' \<and> handler_wf h' \<and> registry h' = m"
  using assms by (rule poll.run_simulates)

abbreviation handler_op :: "'p registry_op \<Rightarrow> 'p handler \<Rightarrow> 'p handler option" where
  "handler_op \<equiv> registry_step add_socket delete_socket impl_socket_want_read impl_socket_want_write"

lemma handler_wf_new: "handler_wf (new_handler g)" "registry (new_handler g) = Map.empty"
  by (simp_all add: handler_wf_def new_handler_def registry_def entries_def)

theorem handler_refines_registry_witness:
  "\<exists>h'. run_ops handler_op [Add 5 (0::nat), Add 6 1, Want_write 5 True, Delete 6] (new_handler 7) = Some h'
    \<and> handler_wf h' \<and> registry h' = [5 \<mapsto> (0, True, True)]"
  by (rule handler_refines_registry) (auto simp: handler_wf_new fun_eq_iff)

fun is_change :: "'p registry_op \<Rightarrow> bool" where
  "is_change (Add fd p) = True"
| "is_change (Delete fd) = True"
| "is_change (Want_read fd b) = False"
| "is_change (Want_write fd b) = False"

lemma handler_op_invalid:
  "handler_op x h = Some h' \<Longrightarrow> invalid h' = invalid h + (if is_change x then 1 else 0)"
  by (cases x) (auto simp: add_socket_def delete_socket_def impl_add_socket_def impl_del_socket_def
      impl_want_read_update impl_want_write_update Let_def split: if_splits option.splits)

lemma handler_ops_invalid:
  "run_ops handler_op ops h = Some h' \<Longrightarrow>
   invalid h' = invalid h + of_nat (length (filter is_change ops))"
  by (induction ops arbitrary: h) (auto dest!: handler_op_invalid split: option.splits)

text \<open>
  The change counter: after any sequence of operations a reference taken before it is
  reported as changed exactly when the number of additions and deletions in between is not a
  multiple of 65536, whatever value the uninitialised counter started with.
\<close>

theorem ref_has_changed_iff:
  assumes "run_ops handler_op ops h = Some h'"
  shows "ref_has_changed (get_ref h) h' \<longleftrightarrow> length (filter is_change ops) mod 65536 \<noteq> 0"
proof -
  have "get_ref h' = get_ref h + of_nat (length (filter is_change ops))"
    using handler_ops_invalid [OF assms] by (simp add: get_ref_def)
  then have "ref_has_changed (get_ref h) h' \<longleftrightarrow> (of_nat (length (filter is_change ops)) :: ushort) \<noteq> 0"
    by (auto simp: ref_has_changed_def)
  also have "\<dots> \<longleftrightarrow> length (filter is_change ops) mod 65536 \<noteq> 0"
    by (simp add: word_of_nat_eq_0_iff dvd_eq_mod_eq_0)
  finally show ?thesis .
qed

theorem ref_has_changed_iff_witness:
  "\<exists>h'. run_ops handler_op [Add 5 (0::nat), Want_read 5 False, Delete 5] (new_handler 65535) = Some h'
    \<and> ref_has_changed 65535 h'"
proof -
  obtain h' where h': "run_ops handler_op [Add 5 (0::nat), Want_read 5 False, Delete 5] (new_handler 65535)
      = Some h'"
    using handler_refines_registry [OF handler_wf_new(1), of "[Add 5 (0::nat), Want_read 5 False, Delete 5]"]
    by (auto simp: handler_wf_new)
  show ?thesis
    using ref_has_changed_iff [OF h'] h' by (simp add: get_ref_def new_handler_def)
qed

text \<open>
  The comparison operators on \<^verbatim>\<open>pollfd\<close> form a strict weak order (exactly one of less, equal and
  greater holds, less is transitive and equality is compatible with it), and comparing with a
  descriptor is comparing with any struct that carries it.
\<close>

lemma pollfd_order:
  "(pollfd_less a b \<and> \<not> pollfd_eq a b \<and> \<not> pollfd_greater a b) \<or>
   (\<not> pollfd_less a b \<and> pollfd_eq a b \<and> \<not> pollfd_greater a b) \<or>
   (\<not> pollfd_less a b \<and> \<not> pollfd_eq a b \<and> pollfd_greater a b)"
  "pollfd_less a b \<and> pollfd_less b c \<Longrightarrow> pollfd_less a c"
  "pollfd_eq a b = pollfd_eq_fd a (pfd b) \<and> pollfd_less a b = pollfd_less_fd a (pfd b) \<and>
   pollfd_greater a b = pollfd_greater_fd a (pfd b)"
  by (auto simp: pollfd_compare_defs)

end
