(* ===== verification/Ordered_Map.thy ===== *)
theory Ordered_Map
  imports Prelude
begin

text \<open>
  \<^verbatim>\<open>std::map\<close> as the library uses it (\<^verbatim>\<open>insert\<close> that does not overwrite, \<^verbatim>\<open>erase\<close> by key,
  \<^verbatim>\<open>begin\<close>, \<^verbatim>\<open>empty\<close>): a key-ordered association list, behind an interface locale.
\<close>

locale ordered_map =
  fixes wf :: "'m \<Rightarrow> bool" and lookup :: "'m \<Rightarrow> 'k::linorder \<rightharpoonup> 'v"
    and insert :: "'k \<Rightarrow> 'v \<Rightarrow> 'm \<Rightarrow> 'm \<times> bool" and erase :: "'k \<Rightarrow> 'm \<Rightarrow> 'm"
    and begin_of :: "'m \<Rightarrow> ('k \<times> 'v) option"
  assumes finite_law: "wf m \<Longrightarrow> finite (dom (lookup m))"
    and insert_law: "wf m \<Longrightarrow> wf (fst (insert k v m)) \<and> snd (insert k v m) = (lookup m k = None) \<and>
      lookup (fst (insert k v m)) = (if lookup m k = None then (lookup m)(k \<mapsto> v) else lookup m)"
    and erase_law: "wf m \<Longrightarrow> wf (erase k m) \<and> lookup (erase k m) = (lookup m)(k := None)"
    and begin_None: "wf m \<Longrightarrow> begin_of m = None \<longleftrightarrow> lookup m = Map.empty"
    and begin_Some: "wf m \<Longrightarrow> begin_of m = Some (k, v) \<Longrightarrow>
      lookup m k = Some v \<and> (\<forall>k' \<in> dom (lookup m). k \<le> k')"
begin

lemma erase_begin_smaller:
  assumes "wf m" and "begin_of m = Some (k, v)"
  shows "card (dom (lookup (erase k m))) < card (dom (lookup m))"
proof -
  have "k \<in> dom (lookup m)"
    using begin_Some [OF assms] by auto
  then have "dom (lookup (erase k m)) \<subset> dom (lookup m)"
    using erase_law [OF assms(1), of k] by auto
  then show ?thesis
    by (rule psubset_card_mono [OF finite_law [OF assms(1)]])
qed

lemma insert_erase:
  "wf m \<Longrightarrow> lookup m k = None \<Longrightarrow> lookup (erase k (fst (insert k v m))) = lookup m"
  using insert_law [of m k v] erase_law [of "fst (insert k v m)" k] by (auto simp: fun_upd_idem)

end

section \<open>The implementation\<close>

fun map_find :: "('k::linorder \<times> 'v) list \<Rightarrow> 'k \<Rightarrow> 'v option" where
  "map_find [] k = None"
| "map_find ((k', v) # m) k = (if k' = k then Some v else map_find m k)"

fun map_insert :: "'k::linorder \<Rightarrow> 'v \<Rightarrow> ('k \<times> 'v) list \<Rightarrow> ('k \<times> 'v) list \<times> bool" where
  "map_insert k v [] = ([(k, v)], True)"
| "map_insert k v ((k', v') # m) =
     (if k < k' then ((k, v) # (k', v') # m, True)
      else if k = k' then ((k', v') # m, False)
      else let (m', b) = map_insert k v m in ((k', v') # m', b))"

fun map_erase :: "'k::linorder \<Rightarrow> ('k \<times> 'v) list \<Rightarrow> ('k \<times> 'v) list" where
  "map_erase k [] = []"
| "map_erase k ((k', v) # m) = (if k' = k then m else (k', v) # map_erase k m)"

fun map_begin :: "('k::linorder \<times> 'v) list \<Rightarrow> ('k \<times> 'v) option" where
  "map_begin [] = None"
| "map_begin (e # m) = Some e"

definition map_wf :: "('k::linorder \<times> 'v) list \<Rightarrow> bool" where
  "map_wf m \<longleftrightarrow> sorted (map fst m) \<and> distinct (map fst m)"

lemma map_find_map_of: "map_find m = map_of m"
  by (induction m) (auto simp: fun_eq_iff)

lemma map_wf_Cons: "map_wf ((k, v) # m) \<longleftrightarrow> map_wf m \<and> (\<forall>k' \<in> fst ` set m. k < k')"
  by (auto simp: map_wf_def order.strict_iff_order)

lemma keys_map_insert: "fst ` set (fst (map_insert k v m)) = {k} \<union> fst ` set m"
  by (induction k v m rule: map_insert.induct) (auto simp: case_prod_beta Let_def)

lemma map_wf_insert: "map_wf m \<Longrightarrow> map_wf (fst (map_insert k v m))"
proof (induction k v m rule: map_insert.induct)
  case (2 k v k' v' m)
  obtain m' b where m': "map_insert k v m = (m', b)" by fastforce
  have "fst ` set m' = {k} \<union> fst ` set m"
    using keys_map_insert [of k v m] m' by simp
  then show ?case
    using 2 m' by (auto simp: map_wf_Cons)
qed (simp add: map_wf_def)

lemma snd_map_insert: "map_wf m \<Longrightarrow> snd (map_insert k v m) = (map_of m k = None)"
proof (induction k v m rule: map_insert.induct)
  case (2 k v k' v' m)
  then show ?case
    by (force simp: map_wf_Cons map_of_eq_None_iff split: prod.splits)
qed simp

lemma map_of_insert:
  "map_wf m \<Longrightarrow> map_of (fst (map_insert k v m)) = (if map_of m k = None then (map_of m)(k \<mapsto> v) else map_of m)"
proof (induction k v m rule: map_insert.induct)
  case (2 k v k' v' m)
  obtain m' b where m': "map_insert k v m = (m', b)" by fastforce
  have none: "k < k' \<Longrightarrow> map_of m k = None"
    using "2.prems" by (force simp: map_wf_Cons map_of_eq_None_iff)
  show ?case
    using 2 m' none by (auto simp: map_wf_Cons fun_eq_iff)
qed simp

lemma keys_map_erase: "fst ` set (map_erase k m) \<subseteq> fst ` set m"
  by (induction k m rule: map_erase.induct) auto

lemma map_wf_erase: "map_wf m \<Longrightarrow> map_wf (map_erase k m)"
  by (induction k m rule: map_erase.induct) (use keys_map_erase in \<open>fastforce simp: map_wf_Cons\<close>)+

lemma map_of_erase: "map_wf m \<Longrightarrow> map_of (map_erase k m) = (map_of m)(k := None)"
proof (induction k m rule: map_erase.induct)
  case (2 k k' v m)
  then show ?case
    by (auto simp: map_wf_Cons fun_eq_iff map_of_eq_None_iff)
qed (simp add: fun_eq_iff)

interpretation std_map: ordered_map map_wf map_find map_insert map_erase map_begin
proof
  fix m :: "('a \<times> 'b) list" and k :: 'a and v :: 'b
  assume wf: "map_wf m"
  show "finite (dom (map_find m))"
    by (simp add: map_find_map_of finite_dom_map_of)
  show "map_wf (fst (map_insert k v m)) \<and> snd (map_insert k v m) = (map_find m k = None) \<and>
      map_find (fst (map_insert k v m)) = (if map_find m k = None then (map_find m)(k \<mapsto> v) else map_find m)"
    using wf by (simp add: map_find_map_of map_wf_insert snd_map_insert map_of_insert)
  show "map_wf (map_erase k m) \<and> map_find (map_erase k m) = (map_find m)(k := None)"
    using wf by (simp add: map_find_map_of map_wf_erase map_of_erase)
  show "map_begin m = None \<longleftrightarrow> map_find m = Map.empty"
    by (cases m) (auto simp: map_find_map_of)
  show "map_find m k = Some v \<and> (\<forall>k' \<in> dom (map_find m). k \<le> k')" if "map_begin m = Some (k, v)"
  proof (cases m)
    case Nil
    then show ?thesis using that by simp
  next
    case (Cons e m')
    then show ?thesis
      using that wf by (force simp: map_find_map_of map_wf_Cons dest: map_of_SomeD split: if_splits)
  qed
qed

lemma map_wf_Nil [simp]: "map_wf []"
  by (simp add: map_wf_def)

end
