(* ===== verification/Socket_Address.thy ===== *)
theory Socket_Address
  imports Prelude
begin

text \<open>
  \<^verbatim>\<open>socket_address\<close> (\<^verbatim>\<open>includes/socket/socket_address.hpp\<close>, \<^verbatim>\<open>src/socket/socket_address.cpp\<close>): a
  128-byte address storage read through casts, host resolution with retries and the textual
  description.  The code reads \<^verbatim>\<open>sa_len\<close>, so it is for the BSD layout of socket addresses: byte 0
  is the length, byte 1 the family, bytes 2 and 3 the port in network order; the address families
  have the values of macOS and integers are stored little-endian.  The resolver
  (\<^verbatim>\<open>getaddrinfo\<close>, \<^verbatim>\<open>getnameinfo\<close>, \<^verbatim>\<open>inet_ntop\<close>, \<^verbatim>\<open>strerror\<close>) is a parameter.
\<close>

section \<open>Results and constants\<close>

datatype addrinfo_result = AI_SUCCESS | AI_ERROR | AI_UNAVAILABLE | AI_ADDRESS_TOO_BIG

datatype nameinfo_result = NI_SUCCESS | NI_ERROR | NI_UNAVAILABLE | NI_NAME_TOO_BIG

definition IP_ADDRESS_BUFFER_SIZE :: nat where "IP_ADDRESS_BUFFER_SIZE = 128"

definition HOSTNAME_BUFFER_SIZE :: nat where "HOSTNAME_BUFFER_SIZE = 128"

definition MAX_HOST_RESOLVE_RETRIES :: nat where "MAX_HOST_RESOLVE_RETRIES = 3"

definition ADDRESS_STORAGE_SIZE :: nat where "ADDRESS_STORAGE_SIZE = 128"

type_synonym family = "8 word"

definition AF_UNSPEC :: family where "AF_UNSPEC = 0"

definition AF_UNIX :: family where "AF_UNIX = 1"

definition AF_INET :: family where "AF_INET = 2"

definition AF_INET6 :: family where "AF_INET6 = 30"

definition EAI_AGAIN :: int where "EAI_AGAIN = 2"

lemmas af_defs = AF_UNSPEC_def AF_UNIX_def AF_INET_def AF_INET6_def

section \<open>The storage and its constructors\<close>

type_synonym saddr = bytes

definition address_wf :: "saddr \<Rightarrow> bool" where
  "address_wf a \<longleftrightarrow> length a = ADDRESS_STORAGE_SIZE"

definition new_address :: saddr where
  "new_address = replicate ADDRESS_STORAGE_SIZE 0"

text \<open>
  The constructor from a \<^verbatim>\<open>sockaddr\<close> pointer and a length copies without a bound: past the storage
  or past the source it is out of range.
\<close>

definition address_of_sockaddr :: "bytes \<Rightarrow> nat \<Rightarrow> fault + saddr" where
  "address_of_sockaddr addr addr_len =
     (if addr_len \<le> length addr \<and> addr_len \<le> ADDRESS_STORAGE_SIZE
      then Inr (write_at 0 (take addr_len addr) new_address) else Inl OutOfRange)"

text \<open>The copy constructors and the assignment copy the whole storage.\<close>

definition copy_address :: "saddr \<Rightarrow> saddr" where
  "copy_address other = other"

definition sa_size :: "saddr \<Rightarrow> nat" where
  "sa_size a = unat (a ! 0)"

definition sa_family :: "saddr \<Rightarrow> family" where
  "sa_family a = a ! 1"

section \<open>Reinterpretation\<close>

datatype sockaddr_type = Sockaddr | Sockaddr_in | Sockaddr_in6 | Other_sockaddr

fun address_type_of :: "family \<Rightarrow> sockaddr_type" where
  "address_type_of f = (if f = AF_INET then Sockaddr_in else if f = AF_INET6 then Sockaddr_in6 else Sockaddr)"

fun address_family_of :: "sockaddr_type \<Rightarrow> family" where
  "address_family_of Sockaddr_in = AF_INET"
| "address_family_of Sockaddr_in6 = AF_INET6"
| "address_family_of _ = AF_UNSPEC"

text \<open>
  \<^verbatim>\<open>to<T>()\<close>: \<open>None\<close> is the null pointer; the specialisation for \<^verbatim>\<open>sockaddr\<close> does not check the
  family.
\<close>

definition to_type :: "sockaddr_type \<Rightarrow> saddr \<Rightarrow> saddr option" where
  "to_type t a =
     (if t = Sockaddr then Some a
      else if address_family_of t \<noteq> sa_family a then None
      else Some a)"

unbundle bit_operations_syntax

definition htons :: "ushort \<Rightarrow> ushort" where
  "htons v = push_bit 8 v OR drop_bit 8 v"

definition load16 :: "nat \<Rightarrow> saddr \<Rightarrow> ushort" where
  "load16 i a = ucast (a ! i) OR push_bit 8 (ucast (a ! Suc i))"

definition store16 :: "nat \<Rightarrow> ushort \<Rightarrow> saddr \<Rightarrow> saddr" where
  "store16 i v a = write_at i [ucast v, ucast (drop_bit 8 v)] a"

fun le_value :: "bytes \<Rightarrow> nat" where
  "le_value [] = 0"
| "le_value (b # bs) = unat b + 256 * le_value bs"

text \<open>
  \<^verbatim>\<open>to<sockaddr_in>()->sin_port\<close> and \<^verbatim>\<open>to<sockaddr_in6>()->sin6_port\<close>, both at offset 2: a store and a
  load through the pointer the cast returns.
\<close>

definition set_port :: "sockaddr_type \<Rightarrow> ushort \<Rightarrow> saddr \<Rightarrow> fault + saddr" where
  "set_port t port a =
     (case to_type t a of None \<Rightarrow> Inl NullPointer | Some _ \<Rightarrow> Inr (store16 2 (htons port) a))"

definition get_port :: "sockaddr_type \<Rightarrow> saddr \<Rightarrow> fault + ushort" where
  "get_port t a = (case to_type t a of None \<Rightarrow> Inl NullPointer | Some b \<Rightarrow> Inr (load16 2 b))"

section \<open>The resolver and resolution with retries\<close>

record gai_answer =
  gai_err :: int
  gai_res :: "bytes option"

record 's resolver =
  getaddrinfo :: "string \<Rightarrow> family \<Rightarrow> 's \<Rightarrow> gai_answer \<times> 's"
  getnameinfo :: "saddr \<Rightarrow> nat \<Rightarrow> nat \<Rightarrow> 's \<Rightarrow> (int \<times> string) \<times> 's"
  inet_ntop :: "family \<Rightarrow> bytes \<Rightarrow> nat \<Rightarrow> 's \<Rightarrow> string option \<times> 's"
  strerror :: "int \<Rightarrow> string"
  errno_of :: "'s \<Rightarrow> int"

definition external :: "('s \<Rightarrow> 'a \<times> 's) \<Rightarrow> ('s, 'a) prog" where
  "external f = (\<lambda>s. Inr (f s))"

text \<open>
  The \<^verbatim>\<open>do \<dots> while (--n_retries > 0)\<close> loop: \<open>None\<close> is the early return of \<open>ERROR\<close>, otherwise the last
  answer with the value of \<^verbatim>\<open>n_retries\<close> at the exit.
\<close>

function resolve_loop ::
    "('s, 'a) prog \<Rightarrow> ('a \<Rightarrow> int) \<Rightarrow> int \<Rightarrow> ('s, ('a \<times> int) option) prog" where
  "resolve_loop attempt err n_retries =
     andThen attempt (\<lambda>a.
       if err a = 0 then ret (Some (a, n_retries))
       else if err a \<noteq> EAI_AGAIN then ret None
       else if n_retries - 1 > 0 then resolve_loop attempt err (n_retries - 1)
       else ret (Some (a, n_retries - 1)))"
  by pat_completeness auto
termination
  by (relation "measure (\<lambda>(attempt, err, n). nat n)") auto

declare resolve_loop.simps [simp del]

definition addrinfo ::
    "'s resolver \<Rightarrow> saddr \<Rightarrow> string \<Rightarrow> family \<Rightarrow> ('s, addrinfo_result \<times> saddr) prog" where
  "addrinfo R address hostname fam =
     andThen (resolve_loop (external (getaddrinfo R hostname fam)) gai_err (int MAX_HOST_RESOLVE_RETRIES))
       (\<lambda>r. case r of
          None \<Rightarrow> ret (AI_ERROR, address)
        | Some (a, n_retries) \<Rightarrow>
            (case gai_res a of
               None \<Rightarrow> ret (AI_UNAVAILABLE, address)
             | Some ai_addr \<Rightarrow>
                 if n_retries = 0 then ret (AI_UNAVAILABLE, address)
                 else if length ai_addr > ADDRESS_STORAGE_SIZE then ret (AI_ADDRESS_TOO_BIG, address)
                 else ret (AI_SUCCESS, write_at 0 ai_addr address)))"

definition nameinfo ::
    "'s resolver \<Rightarrow> string \<Rightarrow> saddr \<Rightarrow> nat \<Rightarrow> ('s, nameinfo_result \<times> string) prog" where
  "nameinfo R hostname addr addr_len =
     andThen (resolve_loop (external (getnameinfo R addr addr_len HOSTNAME_BUFFER_SIZE)) fst
         (int MAX_HOST_RESOLVE_RETRIES))
       (\<lambda>r. case r of
          None \<Rightarrow> ret (NI_ERROR, hostname)
        | Some ((err, hostname_buffer), n_retries) \<Rightarrow>
            if n_retries = 0 \<or> hostname_buffer = [] then ret (NI_UNAVAILABLE, hostname)
            else ret (NI_SUCCESS, hostname_buffer))"

definition nameinfo_of :: "'s resolver \<Rightarrow> string \<Rightarrow> saddr \<Rightarrow> ('s, nameinfo_result \<times> string) prog" where
  "nameinfo_of R hostname address = nameinfo R hostname address (sa_size address)"

section \<open>Addresses from host names\<close>

definition lift_fault :: "fault + 'a \<Rightarrow> ('s, 'a) prog" where
  "lift_fault r = (case r of Inl e \<Rightarrow> raise e | Inr a \<Rightarrow> ret a)"

text \<open>The constructor for IPv4 and IPv6 addresses writes the port through \<^verbatim>\<open>to<sockaddr_in>()\<close>.\<close>

definition address_of_host :: "'s resolver \<Rightarrow> string \<Rightarrow> ushort \<Rightarrow> bool \<Rightarrow> ('s, saddr) prog" where
  "address_of_host R host port use_IPv6 =
     andThen (addrinfo R new_address host (if use_IPv6 then AF_INET6 else AF_INET)) (\<lambda>(result, a).
       if result \<noteq> AI_SUCCESS then raise (LogicError ''unable to retrieve host address'')
       else lift_fault (set_port Sockaddr_in port a))"

definition address_from :: "'s resolver \<Rightarrow> string \<Rightarrow> family \<Rightarrow> ('s, saddr) prog" where
  "address_from R hostname fam =
     andThen (addrinfo R new_address hostname fam) (\<lambda>(result, a).
       if result \<noteq> AI_SUCCESS
       then andThen (reads (errno_of R)) (\<lambda>errno.
         raise (LogicError (''error when trying to get address info: '' @ strerror R errno)))
       else ret a)"

definition address_from_port :: "'s resolver \<Rightarrow> string \<Rightarrow> ushort \<Rightarrow> family \<Rightarrow> ('s, saddr) prog" where
  "address_from_port R hostname port fam =
     andThen (addrinfo R new_address hostname fam) (\<lambda>(result, a).
       if result \<noteq> AI_SUCCESS
       then andThen (reads (errno_of R)) (\<lambda>errno.
         raise (LogicError (''error when trying to get address info: '' @ strerror R errno)))
       else if sa_family a \<noteq> AF_INET \<and> sa_family a \<noteq> AF_INET6
       then raise (LogicError (''invalid inet address from constructor: required port but ''
         @ ''address is not of type AF_INET or AF_INET6''))
       else lift_fault (set_port Sockaddr_in port a))"

section \<open>Textual description\<close>

definition nl :: string where "nl = [CHR 0x0A]"

text \<open>\<^verbatim>\<open>std::to_string\<close> of unsigned and signed integers.\<close>

fun nat_to_string :: "nat \<Rightarrow> string" where
  "nat_to_string n = (if n < 10 then [char_of (48 + n)]
                      else nat_to_string (n div 10) @ [char_of (48 + n mod 10)])"

declare nat_to_string.simps [simp del]

definition int_to_string :: "int \<Rightarrow> string" where
  "int_to_string i = (if i < 0 then ''-'' @ nat_to_string (nat (- i)) else nat_to_string (nat i))"

text \<open>
  \<^verbatim>\<open>get_ip\<close> gives \<^verbatim>\<open>inet_ntop\<close> the size of the address, not of the buffer, as the space available.
\<close>

definition get_ip :: "'s resolver \<Rightarrow> saddr \<Rightarrow> ('s, string) prog" where
  "get_ip R address =
     (if sa_family address = AF_INET \<or> sa_family address = AF_INET6 then
        andThen (external (if sa_family address = AF_INET
            then inet_ntop R AF_INET (take 4 (drop 4 address)) (sa_size address)
            else inet_ntop R AF_INET6 (take 16 (drop 8 address)) (sa_size address)))
          (\<lambda>r. case r of
             None \<Rightarrow> andThen (reads (errno_of R)) (\<lambda>errno.
               ret (''[inet_ntop error: '' @ strerror R errno @ '']''))
           | Some ip \<Rightarrow> ret ip)
      else ret ''[invalid address family]'')"

definition sin_zero_string :: "saddr \<Rightarrow> string" where
  "sin_zero_string a = concat (map (\<lambda>i. int_to_string (sint (a ! (8 + i))) @ '' '') [0..<8])"

definition describe_host :: "'s resolver \<Rightarrow> saddr \<Rightarrow> ('s, string) prog" where
  "describe_host R a =
     andThen (nameinfo_of R [] a) (\<lambda>(result, host).
       if result \<noteq> NI_SUCCESS
       then andThen (reads (errno_of R)) (\<lambda>errno. ret (''could not retrieve host: '' @ strerror R errno))
       else ret host)"

definition to_string_inet :: "'s resolver \<Rightarrow> saddr \<Rightarrow> ('s, string) prog" where
  "to_string_inet R a =
     andThen (describe_host R a) (\<lambda>host.
     andThen (get_ip R a) (\<lambda>ip.
     case to_type Sockaddr_in a of
       None \<Rightarrow> raise NullPointer
     | Some sin \<Rightarrow> ret
         (''sin_len:     '' @ nat_to_string (sa_size a) @ nl
          @ ''sin_family:  '' @ ''AF_INET'' @ nl
          @ ''sin_addr:    '' @ ip @ '' ('' @ host @ '')'' @ nl
          @ ''sin_port:    '' @ nat_to_string (unat (load16 2 sin)) @ nl
          @ ''sin_zero:    '' @ sin_zero_string sin @ nl)))"

text \<open>The IPv6 description reads the port through \<^verbatim>\<open>to<sockaddr_in>()\<close>, too.\<close>

definition to_string_inet6 :: "'s resolver \<Rightarrow> saddr \<Rightarrow> ('s, string) prog" where
  "to_string_inet6 R a =
     andThen (describe_host R a) (\<lambda>host.
     andThen (get_ip R a) (\<lambda>ip.
     case to_type Sockaddr_in a of
       None \<Rightarrow> raise NullPointer
     | Some sin \<Rightarrow>
        (case to_type Sockaddr_in6 a of
           None \<Rightarrow> raise NullPointer
         | Some sin6 \<Rightarrow> ret
            (''sin6_len:    '' @ nat_to_string (sa_size a) @ nl
             @ ''sin6_family: '' @ ''AF_INET6'' @ nl
             @ ''sin6_addr:   '' @ ip @ '' ('' @ host @ '')'' @ nl
             @ ''sin6_port:   '' @ nat_to_string (unat (load16 2 sin)) @ nl
             @ ''sin6_flowinfo: '' @ int_to_string (to_int32 (int (le_value (take 4 (drop 4 sin6))))) @ nl
             @ ''sin6_scope_id: '' @ int_to_string (to_int32 (int (le_value (take 4 (drop 24 sin6))))) @ nl))))"

definition to_string_other :: "saddr \<Rightarrow> string" where
  "to_string_other a = ''unkown address family: '' @ nat_to_string (unat (sa_family a))"

definition to_string :: "'s resolver \<Rightarrow> saddr \<Rightarrow> ('s, string) prog" where
  "to_string R a =
     (if sa_family a = AF_INET then to_string_inet R a
      else if sa_family a = AF_INET6 then to_string_inet6 R a
      else if sa_family a = AF_UNIX then ret (to_string_other a)
      else if sa_family a = AF_UNSPEC
      then ret (''sa_family: AF_UNSPEC'' @ nl @ ''sa_len: '' @ nat_to_string (sa_size a) @ nl)
      else ret (''unknown address family: '' @ nat_to_string (unat (sa_family a)) @ nl))"

section \<open>Ports and families\<close>

lemma htons_involution [simp]: "htons (htons v) = v"
  by (rule bit_word_eqI) (auto simp: htons_def bit_simps)

lemma load16_store16:
  "i + 2 \<le> length a \<Longrightarrow> load16 i (store16 i v a) = v"
proof -
  assume len: "i + 2 \<le> length a"
  have "store16 i v a ! i = ucast v" "store16 i v a ! Suc i = ucast (drop_bit 8 v)"
    using len nth_write_at_inside [of i "[ucast v, ucast (drop_bit 8 v)]" a 0]
      nth_write_at_inside [of i "[ucast v, ucast (drop_bit 8 v)]" a 1]
    by (simp_all add: store16_def)
  moreover have "ucast (ucast v :: byte) OR push_bit 8 (ucast (ucast (drop_bit 8 v) :: byte)) = v"
    by (rule bit_word_eqI) (auto simp: bit_simps)
  ultimately show ?thesis
    by (simp add: load16_def)
qed

lemma store16_other:
  "i + 2 \<le> length a \<Longrightarrow> j < length a \<Longrightarrow> j < i \<or> i + 2 \<le> j \<Longrightarrow> store16 i v a ! j = a ! j"
  using nth_write_at_outside [of i "[ucast v, ucast (drop_bit 8 v)]" a j] by (auto simp: store16_def)

lemma length_store16 [simp]: "i + 2 \<le> length a \<Longrightarrow> length (store16 i v a) = length a"
  by (simp add: store16_def length_write_at)

lemma address_wf_new [simp]: "address_wf new_address"
  by (simp add: address_wf_def new_address_def)

lemma set_port_Inr:
  assumes "address_wf a" and "set_port t port a = Inr b"
  shows "address_wf b" "get_port t b = Inr (htons port)" "sa_family b = sa_family a"
    "\<forall>j < length a. j \<noteq> 2 \<and> j \<noteq> 3 \<longrightarrow> b ! j = a ! j"
proof -
  have b: "b = store16 2 (htons port) a" and t: "to_type t a \<noteq> None"
    using assms(2) by (auto simp: set_port_def split: option.splits)
  have len: "length a = 128"
    using assms(1) by (simp add: address_wf_def ADDRESS_STORAGE_SIZE_def)
  show "address_wf b"
    using assms(1) len by (simp add: b address_wf_def)
  show keep: "\<forall>j < length a. j \<noteq> 2 \<and> j \<noteq> 3 \<longrightarrow> b ! j = a ! j"
    using len by (auto simp: b intro!: store16_other)
  show fam: "sa_family b = sa_family a"
    using len keep by (simp add: sa_family_def)
  show "get_port t b = Inr (htons port)"
    using t fam len by (auto simp: get_port_def to_type_def load16_store16 b split: if_splits)
qed

section \<open>What the retry loop returns\<close>

text \<open>The first \<open>n\<close> answers of an external call and the state after them.\<close>

fun answers :: "('s \<Rightarrow> 'a \<times> 's) \<Rightarrow> nat \<Rightarrow> 's \<Rightarrow> 'a list \<times> 's" where
  "answers f 0 s = ([], s)"
| "answers f (Suc n) s = (let (a, s') = f s; (as, s'') = answers f n s' in (a # as, s''))"

definition retried :: "('a \<Rightarrow> int) \<Rightarrow> 'a list \<Rightarrow> nat" where
  "retried err as = length (takeWhile (\<lambda>a. err a = EAI_AGAIN) as)"

lemma EAI_AGAIN_nonzero [simp]: "EAI_AGAIN \<noteq> 0"
  by (simp add: EAI_AGAIN_def)

lemma length_answers [simp]: "length (fst (answers f n s)) = n"
  by (induction n arbitrary: s) (auto simp: case_prod_beta Let_def)

lemma answers_Suc:
  "fst (answers f (Suc n) s) = fst (f s) # fst (answers f n (snd (f s)))"
  "snd (answers f (Suc n) s) = snd (answers f n (snd (f s)))"
  by (simp_all add: case_prod_beta Let_def)

lemma retried_Cons [simp]:
  "retried err [] = 0" "retried err (a # as) = (if err a = EAI_AGAIN then Suc (retried err as) else 0)"
  by (simp_all add: retried_def)

declare answers.simps(2) [simp del]

lemma resolve_loop_outcome:
  "resolve_loop (external f) err (int (Suc n)) s =
    (let as = fst (answers f (Suc n) s); k = retried err as in
     if k = Suc n then Inr (Some (as ! n, 0), snd (answers f (Suc n) s))
     else Inr (if err (as ! k) = 0 then Some (as ! k, int (Suc n) - int k) else None,
               snd (answers f (Suc k) s)))"
proof (induction n arbitrary: s)
  case 0
  show ?case
    by (subst resolve_loop.simps)
      (simp add: prog_simps external_def Let_def answers_Suc case_prod_beta)
next
  case (Suc n)
  show ?case
  proof (cases "err (fst (f s)) = EAI_AGAIN")
    case True
    have "resolve_loop (external f) err (int (Suc (Suc n))) s
        = resolve_loop (external f) err (int (Suc n)) (snd (f s))"
      by (subst resolve_loop.simps) (simp add: prog_simps external_def True case_prod_beta)
    also have "\<dots> = (let as = fst (answers f (Suc n) (snd (f s))); k = retried err as in
       if k = Suc n then Inr (Some (as ! n, 0), snd (answers f (Suc n) (snd (f s))))
       else Inr (if err (as ! k) = 0 then Some (as ! k, int (Suc n) - int k) else None,
               snd (answers f (Suc k) (snd (f s)))))"
      by (rule Suc.IH)
    finally show ?thesis
      by (simp only: answers_Suc(1) [of _ "Suc n"] answers_Suc(2) [of _ "Suc _"] Let_def True retried_Cons
          nth_Cons_Suc if_True nat.inject of_nat_Suc) (simp add: answers_Suc(2))
  next
    case False
    then show ?thesis
      by (subst resolve_loop.simps)
        (simp add: prog_simps external_def Let_def answers_Suc case_prod_beta)
  qed
qed

text \<open>
  C35. Host resolution: with the answers \<open>as\<close> of the first three attempts and \<open>k\<close> leading
  \<^verbatim>\<open>EAI_AGAIN\<close> answers among them, \<^verbatim>\<open>addrinfo\<close> performs \<open>min (k + 1) 3\<close> attempts; it reports
  \<open>UNAVAILABLE\<close> after three, \<open>ERROR\<close> on any other error code, and on success copies the answer over
  the start of the storage exactly when it is not null and fits.  Every other outcome leaves
  the address untouched.
\<close>

theorem addrinfo_outcome:
  "addrinfo R address host fam s =
    (let f = getaddrinfo R host fam; as = fst (answers f 3 s); k = retried gai_err as in
     if k = 3 then Inr ((AI_UNAVAILABLE, address), snd (answers f 3 s))
     else Inr ((if gai_err (as ! k) \<noteq> 0 then (AI_ERROR, address)
                else case gai_res (as ! k) of
                    None \<Rightarrow> (AI_UNAVAILABLE, address)
                  | Some b \<Rightarrow> if length b > 128 then (AI_ADDRESS_TOO_BIG, address)
                      else (AI_SUCCESS, write_at 0 b address)),
               snd (answers f (Suc k) s)))"
proof -
  let ?f = "getaddrinfo R host fam"
  let ?as = "fst (answers ?f 3 s)"
  let ?k = "retried gai_err ?as"
  have le: "?k \<le> 3"
    using length_takeWhile_le [of _ ?as] by (simp add: retried_def)
  have loop: "resolve_loop (external ?f) gai_err 3 s =
      (if ?k = 3 then Inr (Some (?as ! 2, 0), snd (answers ?f 3 s))
       else Inr (if gai_err (?as ! ?k) = 0 then Some (?as ! ?k, 3 - int ?k) else None,
                 snd (answers ?f (Suc ?k) s)))"
    using resolve_loop_outcome [of ?f gai_err 2 s] by (simp add: Let_def numeral_3_eq_3)
  show ?thesis
    using le by (auto simp: addrinfo_def MAX_HOST_RESOLVE_RETRIES_def ADDRESS_STORAGE_SIZE_def Let_def
        andThen_apply ret_apply loop split: option.splits)
qed

section \<open>Consequences\<close>

text \<open>
  What \<^verbatim>\<open>getaddrinfo\<close> documents for a hint with a family: an answer without error carries an address
  of that family.
\<close>

definition honours_family :: "'s resolver \<Rightarrow> bool" where
  "honours_family R \<longleftrightarrow>
     (\<forall>host fam s b. gai_err (fst (getaddrinfo R host fam s)) = 0 \<longrightarrow>
        gai_res (fst (getaddrinfo R host fam s)) = Some b \<longrightarrow> 2 \<le> length b \<and> b ! 1 = fam)"

lemma answers_nth:
  "k < n \<Longrightarrow> \<exists>t. fst (answers f n s) ! k = fst (f t)"
proof (induction n arbitrary: k s)
  case (Suc n)
  then show ?case
    by (cases k) (auto simp: answers_Suc)
qed simp

lemma addrinfo_immediate:
  "gai_err (fst (getaddrinfo R host fam s)) = 0 \<Longrightarrow>
   gai_res (fst (getaddrinfo R host fam s)) = Some b \<Longrightarrow> length b \<le> 128 \<Longrightarrow>
   addrinfo R address host fam s =
     Inr ((AI_SUCCESS, write_at 0 b address), snd (getaddrinfo R host fam s))"
  by (simp add: addrinfo_outcome Let_def answers_Suc numeral_3_eq_3)

lemma addrinfo_cases:
  obtains (success) b s' t where "addrinfo R address host fam s = Inr ((AI_SUCCESS, write_at 0 b address), s')"
      "gai_err (fst (getaddrinfo R host fam t)) = 0" "gai_res (fst (getaddrinfo R host fam t)) = Some b"
      "length b \<le> 128"
  | (failure) r s' where "addrinfo R address host fam s = Inr ((r, address), s')" "r \<noteq> AI_SUCCESS"
proof -
  let ?f = "getaddrinfo R host fam"
  let ?as = "fst (answers ?f 3 s)"
  let ?k = "retried gai_err ?as"
  have "?k \<le> 3"
    using length_takeWhile_le [of _ ?as] by (simp add: retried_def)
  show ?thesis
  proof (cases "?k = 3")
    case True
    then show ?thesis
      by (intro failure [of AI_UNAVAILABLE]) (simp_all add: addrinfo_outcome Let_def)
  next
    case k: False
    show ?thesis
    proof (cases "gai_err (?as ! ?k) = 0")
      case False
      with k show ?thesis
        by (intro failure [of AI_ERROR]) (simp_all add: addrinfo_outcome Let_def)
    next
      case ok: True
      obtain t where t: "?as ! ?k = fst (?f t)"
        using answers_nth [of ?k 3 ?f s] k \<open>?k \<le> 3\<close> by auto
      show ?thesis
      proof (cases "gai_res (?as ! ?k)")
        case None
        with k ok show ?thesis
          by (intro failure [of AI_UNAVAILABLE]) (simp_all add: addrinfo_outcome Let_def)
      next
        case (Some b)
        show ?thesis
        proof (cases "length b \<le> 128")
          case True
          with k ok Some t show ?thesis
            by (intro success [of b _ t]) (simp_all add: addrinfo_outcome Let_def)
        next
          case False
          with k ok Some show ?thesis
            by (intro failure [of AI_ADDRESS_TOO_BIG]) (simp_all add: addrinfo_outcome Let_def)
        qed
      qed
    qed
  qed
qed

lemma sa_family_write:
  "2 \<le> length b \<Longrightarrow> length b \<le> 128 \<Longrightarrow> address_wf a \<Longrightarrow>
   sa_family (write_at 0 b a) = b ! 1 \<and> address_wf (write_at 0 b a)"
  by (simp add: sa_family_def write_at_def address_wf_def ADDRESS_STORAGE_SIZE_def nth_append)

text \<open>
  C36. Round trip of the port: an address built from a host name, a port and the IPv4 family has the
  IPv4 family and the full storage, and its port field read through \<^verbatim>\<open>sockaddr_in\<close> and converted
  back to host order is the given port.
\<close>

theorem address_from_port_roundtrip:
  assumes "address_from_port R host port AF_INET s = Inr (a, s')"
  shows "map_sum id htons (get_port Sockaddr_in a) = Inr port \<and> sa_family a = AF_INET \<and> address_wf a"
proof (cases rule: addrinfo_cases [where R = R and address = new_address and host = host
      and fam = AF_INET and s = s])
  case (success b t u)
  let ?b = "write_at 0 b new_address"
  have a: "set_port Sockaddr_in port ?b = Inr a"
    using assms success(1)
    by (auto simp: address_from_port_def prog_simps lift_fault_def split: if_splits sum.splits)
  have "address_wf ?b"
    using success(4) by (simp add: write_at_def address_wf_def ADDRESS_STORAGE_SIZE_def new_address_def)
  moreover have "sa_family ?b = AF_INET"
    using a by (auto simp: set_port_def to_type_def split: if_splits)
  ultimately show ?thesis
    using set_port_Inr [OF _ a] by simp
next
  case (failure r t)
  then show ?thesis
    using assms by (simp add: address_from_port_def prog_simps)
qed

text \<open>A resolver that answers every query at once with a loopback address of the wanted family.\<close>

definition loopback_resolver :: "nat resolver" where
  "loopback_resolver =
    \<lparr>getaddrinfo = (\<lambda>host fam s. (\<lparr>gai_err = 0, gai_res =
        Some (if fam = AF_INET6 then [28, fam] @ replicate 21 0 @ [1] @ replicate 4 0
              else [16, fam, 0, 0, 127, 0, 0, 1] @ replicate 8 0)\<rparr>, Suc s)),
     getnameinfo = (\<lambda>a l n s. ((0, ''localhost''), Suc s)),
     inet_ntop = (\<lambda>fam bs size s. (if 39 < size then Some (replicate 39 CHR ''f'') else None, Suc s)),
     strerror = (\<lambda>e. nat_to_string (nat e)),
     errno_of = (\<lambda>s. 28)\<rparr>"

lemma honours_loopback: "honours_family loopback_resolver"
  by (simp add: honours_family_def loopback_resolver_def)

lemma loopback_addrinfo:
  "addrinfo loopback_resolver new_address host AF_INET s =
     Inr ((AI_SUCCESS, write_at 0 ([16, 2, 0, 0, 127, 0, 0, 1] @ replicate 8 0) new_address), Suc s)"
  "addrinfo loopback_resolver new_address host AF_INET6 s =
     Inr ((AI_SUCCESS, write_at 0 ([28, 30] @ replicate 21 0 @ [1] @ replicate 4 0) new_address), Suc s)"
  by (subst addrinfo_immediate; simp add: loopback_resolver_def af_defs)+

theorem address_from_port_roundtrip_witness:
  "\<exists>a s'. address_from_port loopback_resolver ''localhost'' 8000 AF_INET 0 = Inr (a, s')
    \<and> map_sum id htons (get_port Sockaddr_in a) = Inr 8000"
proof -
  have "\<exists>a s'. address_from_port loopback_resolver ''localhost'' 8000 AF_INET 0 = Inr (a, s')"
    by (simp add: address_from_port_def prog_simps loopback_addrinfo)
      (simp add: set_port_def to_type_def sa_family_def write_at_def lift_fault_def prog_simps af_defs)
  then show ?thesis
    using address_from_port_roundtrip [of loopback_resolver "''localhost''" 8000 0] by blast
qed

text \<open>
  C37. With a resolver that honours the requested family, the constructor for IPv6 addresses and
  \<^verbatim>\<open>from(hostname, port, AF_INET6)\<close> never produce an address: either the resolution fails and
  \<^verbatim>\<open>std::logic_error\<close> is thrown, or the port is written through the null pointer that
  \<^verbatim>\<open>to<sockaddr_in>()\<close> returns for an IPv6 address.
\<close>

theorem ipv6_address_never_built:
  assumes "honours_family R"
  shows "\<exists>e e'. address_of_host R host port True s = Inl e \<and>
    address_from_port R host port AF_INET6 s = Inl e' \<and>
    (if \<exists>a s'. addrinfo R new_address host AF_INET6 s = Inr ((AI_SUCCESS, a), s')
     then e = NullPointer \<and> e' = NullPointer
     else e = LogicError ''unable to retrieve host address'' \<and> (\<exists>m. e' = LogicError m))"
proof (cases rule: addrinfo_cases [where R = R and address = new_address and host = host
      and fam = AF_INET6 and s = s])
  case (success b t u)
  have "sa_family (write_at 0 b new_address) = AF_INET6"
    using assms success sa_family_write [of b new_address] by (auto simp: honours_family_def)
  then show ?thesis
    using success(1)
    by (simp add: address_of_host_def address_from_port_def prog_simps set_port_def to_type_def
        lift_fault_def af_defs)
next
  case (failure r t)
  then show ?thesis
    by (auto simp: address_of_host_def address_from_port_def prog_simps)
qed

theorem ipv6_address_never_built_witness:
  "address_of_host loopback_resolver ''::1'' 8000 True 0 = Inl NullPointer"
  using ipv6_address_never_built [OF honours_loopback, of "''::1''" 8000 0]
  by (auto simp: loopback_addrinfo)

lemma describe_host_returns: "\<exists>h s'. describe_host R a s = Inr (h, s')"
proof -
  let ?f = "getnameinfo R a (sa_size a) HOSTNAME_BUFFER_SIZE"
  have "\<exists>r s'. resolve_loop (external ?f) fst (int MAX_HOST_RESOLVE_RETRIES) s = Inr (r, s')"
    using resolve_loop_outcome [of ?f fst 2 s]
    by (auto simp: MAX_HOST_RESOLVE_RETRIES_def Let_def)
  then show ?thesis
    by (auto simp: describe_host_def nameinfo_of_def nameinfo_def prog_simps split: option.splits)
qed

lemma get_ip_returns: "\<exists>ip s'. get_ip R a s = Inr (ip, s')"
  by (auto simp: get_ip_def prog_simps external_def split: prod.splits option.splits)


text \<open>
  What \<^verbatim>\<open>inet_ntop\<close> documents: the text if it fits the given space with its terminator,
  otherwise a null pointer.
\<close>

definition ntop_contract :: "'s resolver \<Rightarrow> (family \<Rightarrow> bytes \<Rightarrow> string) \<Rightarrow> bool" where
  "ntop_contract R txt \<longleftrightarrow>
     (\<forall>fam bs size s. fst (inet_ntop R fam bs size s) =
        (if length (txt fam bs) < size then Some (txt fam bs) else None))"

text \<open>
  \<^verbatim>\<open>get_ip\<close> of an inet address returns the text of the address exactly when the text is
  shorter than the \<^verbatim>\<open>sa_len\<close> of the address; otherwise it returns an error message, although the
  buffer has 128 bytes.  For IPv6 (\<^verbatim>\<open>sa_len\<close> 28) that rejects every text of 28 to 45 characters.
\<close>

theorem get_ip_limited_by_sa_len:
  assumes "ntop_contract R txt" and "sa_family a = AF_INET6"
  shows "\<exists>s'. get_ip R a s = Inr
    (if length (txt AF_INET6 (take 16 (drop 8 a))) < sa_size a then txt AF_INET6 (take 16 (drop 8 a))
     else ''[inet_ntop error: '' @ strerror R (errno_of R s') @ '']'', s')"
proof -
  obtain r s' where r: "inet_ntop R AF_INET6 (take 16 (drop 8 a)) (sa_size a) s = (r, s')"
    by fastforce
  then have "r = (if length (txt AF_INET6 (take 16 (drop 8 a))) < sa_size a
      then Some (txt AF_INET6 (take 16 (drop 8 a))) else None)"
    using assms(1) by (metis fst_conv ntop_contract_def)
  then show ?thesis
    using assms(2) r by (auto simp: get_ip_def prog_simps external_def af_defs)
qed

theorem get_ip_limited_by_sa_len_witness:
  "\<exists>s'. get_ip loopback_resolver ([28, 30] @ replicate 126 0) 0 =
     Inr (''[inet_ntop error: '' @ strerror loopback_resolver 28 @ '']'', s')"
proof -
  have c: "ntop_contract loopback_resolver (\<lambda>fam bs. replicate 39 CHR ''f'')"
    by (simp add: ntop_contract_def loopback_resolver_def)
  have e: "errno_of loopback_resolver s = 28" for s
    by (simp add: loopback_resolver_def)
  show ?thesis
    using get_ip_limited_by_sa_len [OF c, of "[28, 30] @ replicate 126 0" 0]
    by (simp add: sa_family_def sa_size_def af_defs e)
qed

end
