(* ===== verification/World.thy ===== *)
theory World
  imports Action_Handler Poll_Handler Ordered_Map Socket_Address
begin

text \<open>
  The state of a program that uses the library: the socket objects in memory, the handlers, the
  servers and clients with their containers, \<^verbatim>\<open>errno\<close> and the history of system calls.  The kernel
  is a parameter: a function from the history and a call to the answer.  Callbacks are data: one
  constructor for every lambda in the library and one for the user's.
\<close>

section \<open>Action tags, prototypes and action lists\<close>

datatype tag =
    READABLE | WRITEABLE | CLOSED | ERROR
  | RECVMSG | RECVFROM
  | UDP_RECEIVE | UDP_BIND | UDP_CLOSED
  | RECV
  | CONNECT | TCP_CLOSED | TCP_RECEIVE
  | LISTEN | ACCEPT | DISCONNECT

datatype prototype =
    P_void
  | P_error
  | P_bytes
  | P_connection
  | P_connection_bytes
  | P_msghdr
  | P_address_bytes
  | P_address

type_synonym action_types = "(tag, prototype) actions_list"

definition basic_actions_list :: "action_types \<Rightarrow> action_types" where
  "basic_actions_list acts =
     [(READABLE, P_void), (WRITEABLE, P_void), (CLOSED, P_void), (ERROR, P_error)] @ acts"

definition raw_actions_list :: "action_types \<Rightarrow> action_types" where
  "raw_actions_list extended = [(RECVMSG, P_msghdr), (RECVFROM, P_address_bytes)] @ extended"

definition udp_actions_list :: "action_types \<Rightarrow> action_types" where
  "udp_actions_list extended =
     [(UDP_RECEIVE, P_address_bytes), (UDP_BIND, P_address), (UDP_CLOSED, P_address)] @ extended"

definition connection_actions_list :: action_types where
  "connection_actions_list = [(RECV, P_bytes)]"

definition client_actions_list :: "action_types \<Rightarrow> action_types" where
  "client_actions_list extended =
     [(ERROR, P_error), (CONNECT, P_connection), (TCP_CLOSED, P_connection),
      (TCP_RECEIVE, P_connection_bytes)] @ extended"

definition server_actions_list :: "action_types \<Rightarrow> action_types" where
  "server_actions_list extended =
     [(ERROR, P_error), (LISTEN, P_connection), (TCP_CLOSED, P_connection),
      (TCP_RECEIVE, P_connection_bytes), (ACCEPT, P_connection), (DISCONNECT, P_connection)] @ extended"

lemmas action_list_defs = basic_actions_list_def raw_actions_list_def udp_actions_list_def
  connection_actions_list_def client_actions_list_def server_actions_list_def

section \<open>Objects\<close>

type_synonym ptr = nat
type_synonym hid = nat
type_synonym sid = nat

datatype obj = Socket_obj ptr | Server_obj sid | Client_obj sid

datatype container_ref = Listeners sid | Clients sid | Connections sid

text \<open>Arguments of an execution, and the prototype they fit.\<close>

datatype args =
    A_none
  | A_error string int
  | A_bytes bytes
  | A_connection ptr
  | A_connection_bytes ptr bytes
  | A_msghdr bytes
  | A_address_bytes saddr bytes
  | A_address saddr

fun args_prototype :: "args \<Rightarrow> prototype" where
  "args_prototype A_none = P_void"
| "args_prototype (A_error _ _) = P_error"
| "args_prototype (A_bytes _) = P_bytes"
| "args_prototype (A_connection _) = P_connection"
| "args_prototype (A_connection_bytes _ _) = P_connection_bytes"
| "args_prototype (A_msghdr _) = P_msghdr"
| "args_prototype (A_address_bytes _ _) = P_address_bytes"
| "args_prototype (A_address _) = P_address"

text \<open>
  The lambdas: the user's, the container's erasure, those that \<^verbatim>\<open>connect\<close>, \<^verbatim>\<open>listen\<close> and \<^verbatim>\<open>accept\<close>
  register on connections, and those of a udp socket.  Pointers and identities they hold are
  what the lambdas capture.
\<close>

datatype callback =
    User nat
  | Container_erase container_ref int
  | Connection_recv ptr
  | Connection_send_flush ptr
  | Server_accept sid ptr
  | Server_closed sid ptr
  | Server_disconnect sid ptr
  | Server_receive sid ptr
  | Client_closed sid ptr
  | Client_receive sid ptr
  | Udp_recvfrom ptr
  | Udp_receive ptr
  | Udp_closed ptr

type_synonym action_table = "tag \<Rightarrow> callback action_callback list"

text \<open>The classes derived from \<^verbatim>\<open>unisock::socket\<close>, by the action list they instantiate it with.\<close>

datatype sock_class = Tcp_connection | Raw_socket | Udp_socket

fun class_actions :: "sock_class \<Rightarrow> action_types" where
  "class_actions Tcp_connection = basic_actions_list connection_actions_list"
| "class_actions Raw_socket = basic_actions_list (raw_actions_list [])"
| "class_actions Udp_socket = basic_actions_list (raw_actions_list (udp_actions_list []))"

text \<open>
  The members of the entity that the user adds to a socket (\<^verbatim>\<open>data\<close>), by name.
\<close>

type_synonym entity = "string \<Rightarrow> int"

record sock =
  sclass :: sock_class
  sock_fd :: int
  address :: saddr
  sactions :: action_table
  shandler :: hid
  send_buffer :: "bytes list"
  data :: entity

record socket_container =
  c_handler :: hid
  c_sockets :: "(int \<times> ptr) list"

record server_impl =
  srv_handler :: hid
  srv_actions :: action_table
  listeners_container :: socket_container
  clients_container :: socket_container

record client_impl =
  cl_handler :: hid
  cl_actions :: action_table
  cl_container :: socket_container

section \<open>The kernel\<close>

datatype syscall =
    Sys_socket int int int
  | Sys_close int
  | Sys_setsockopt int int int bytes
  | Sys_getsockopt int int int nat
  | Sys_bind int saddr nat
  | Sys_listen int int
  | Sys_accept int nat
  | Sys_connect int saddr nat
  | Sys_send int bytes int
  | Sys_recv int nat int
  | Sys_sendmsg int bytes int
  | Sys_sendto int bytes int saddr nat
  | Sys_recvmsg int nat int
  | Sys_recvfrom int nat int nat
  | Sys_poll "(int \<times> ushort) list" int
  | Lib_getaddrinfo string family
  | Lib_getnameinfo saddr nat nat
  | Lib_inet_ntop family bytes nat
  | Sys_fcntl int int int
  | Sys_write int string
  | Lib_clock

record sysret =
  ret_value :: int
  ret_errno :: int
  ret_data :: bytes
  ret_addr :: "bytes option"
  ret_revents :: "ushort list"
  ret_text :: "string option"

type_synonym history = "(syscall \<times> sysret) list"

record kernel =
  respond :: "history \<Rightarrow> syscall \<Rightarrow> sysret"
  error_text :: "int \<Rightarrow> string"

section \<open>The world\<close>

record world =
  handlers :: "hid \<Rightarrow> ptr handler"
  next_handler :: hid
  heap :: "ptr \<rightharpoonup> sock"
  next_ptr :: ptr
  servers :: "sid \<Rightarrow> server_impl"
  clients :: "sid \<Rightarrow> client_impl"
  errno :: int
  trace :: history
  variables :: "string \<Rightarrow> int"

type_synonym 'a act = "(world, 'a) prog"

text \<open>The execution of an action of an object, as the operations below use it.\<close>

type_synonym executor = "obj \<Rightarrow> tag \<Rightarrow> args \<Rightarrow> unit act"

text \<open>A call appends itself and its answer to the history; a failing one sets \<^verbatim>\<open>errno\<close>.\<close>

definition reply :: "kernel \<Rightarrow> syscall \<Rightarrow> world \<Rightarrow> sysret" where
  "reply K c w = respond K (trace w) c"

definition after :: "kernel \<Rightarrow> syscall \<Rightarrow> world \<Rightarrow> world" where
  "after K c w =
     w\<lparr>trace := trace w @ [(c, reply K c w)],
       errno := if ret_value (reply K c w) < 0 then ret_errno (reply K c w) else errno w\<rparr>"

definition answer :: "kernel \<Rightarrow> syscall \<Rightarrow> world \<Rightarrow> sysret \<times> world" where
  "answer K c w = (reply K c w, after K c w)"

definition sys :: "kernel \<Rightarrow> syscall \<Rightarrow> sysret act" where
  "sys K c = external (answer K c)"

definition world_resolver :: "kernel \<Rightarrow> world resolver" where
  "world_resolver K =
     \<lparr>getaddrinfo = (\<lambda>host fam w. let (r, w') = answer K (Lib_getaddrinfo host fam) w
        in (\<lparr>gai_err = ret_value r, gai_res = ret_addr r\<rparr>, w')),
      getnameinfo = (\<lambda>a len n w. let (r, w') = answer K (Lib_getnameinfo a len n) w
        in ((ret_value r, case ret_text r of None \<Rightarrow> [] | Some t \<Rightarrow> t), w')),
      inet_ntop = (\<lambda>fam bs size w. let (r, w') = answer K (Lib_inet_ntop fam bs size) w
        in (ret_text r, w')),
      strerror = error_text K,
      errno_of = errno\<rparr>"

section \<open>Memory\<close>

definition get_sock :: "ptr \<Rightarrow> sock act" where
  "get_sock p = (\<lambda>w. case heap w p of None \<Rightarrow> Inl UseAfterFree | Some s \<Rightarrow> Inr (s, w))"

definition put_sock :: "ptr \<Rightarrow> (sock \<Rightarrow> sock) \<Rightarrow> unit act" where
  "put_sock p f = (\<lambda>w. case heap w p of None \<Rightarrow> Inl UseAfterFree
     | Some s \<Rightarrow> Inr ((), w\<lparr>heap := (heap w)(p \<mapsto> f s)\<rparr>))"

definition alloc_sock :: "sock \<Rightarrow> ptr act" where
  "alloc_sock s = (\<lambda>w. Inr (next_ptr w, w\<lparr>heap := (heap w)(next_ptr w \<mapsto> s), next_ptr := Suc (next_ptr w)\<rparr>))"

definition free_sock :: "ptr \<Rightarrow> unit act" where
  "free_sock p = update (\<lambda>w. w\<lparr>heap := (heap w)(p := None)\<rparr>)"

fun get_container :: "container_ref \<Rightarrow> world \<Rightarrow> socket_container" where
  "get_container (Listeners i) w = listeners_container (servers w i)"
| "get_container (Clients i) w = clients_container (servers w i)"
| "get_container (Connections i) w = cl_container (clients w i)"

fun put_container :: "container_ref \<Rightarrow> socket_container \<Rightarrow> world \<Rightarrow> world" where
  "put_container (Listeners i) c w =
     w\<lparr>servers := (servers w)(i := (servers w i)\<lparr>listeners_container := c\<rparr>)\<rparr>"
| "put_container (Clients i) c w =
     w\<lparr>servers := (servers w)(i := (servers w i)\<lparr>clients_container := c\<rparr>)\<rparr>"
| "put_container (Connections i) c w =
     w\<lparr>clients := (clients w)(i := (clients w i)\<lparr>cl_container := c\<rparr>)\<rparr>"

section \<open>Action tables of objects\<close>

fun actions_of :: "obj \<Rightarrow> world \<Rightarrow> action_table option" where
  "actions_of (Socket_obj p) w = map_option sactions (heap w p)"
| "actions_of (Server_obj i) w = Some (srv_actions (servers w i))"
| "actions_of (Client_obj i) w = Some (cl_actions (clients w i))"

fun types_of :: "obj \<Rightarrow> world \<Rightarrow> action_types option" where
  "types_of (Socket_obj p) w = map_option (class_actions \<circ> sclass) (heap w p)"
| "types_of (Server_obj i) w = Some (server_actions_list [])"
| "types_of (Client_obj i) w = Some (client_actions_list [])"

fun put_actions :: "obj \<Rightarrow> action_table \<Rightarrow> world \<Rightarrow> world" where
  "put_actions (Socket_obj p) t w =
     (case heap w p of None \<Rightarrow> w | Some s \<Rightarrow> w\<lparr>heap := (heap w)(p \<mapsto> s\<lparr>sactions := t\<rparr>)\<rparr>)"
| "put_actions (Server_obj i) t w = w\<lparr>servers := (servers w)(i := (servers w i)\<lparr>srv_actions := t\<rparr>)\<rparr>"
| "put_actions (Client_obj i) t w = w\<lparr>clients := (clients w)(i := (clients w i)\<lparr>cl_actions := t\<rparr>)\<rparr>"

text \<open>
  \<^verbatim>\<open>action_handler::on\<close>: the tag is looked up in the object's action list (statically in the
  source), the callback is added to that action.
\<close>

definition on :: "obj \<Rightarrow> tag \<Rightarrow> callback \<Rightarrow> ushort \<Rightarrow> unit act" where
  "on ob t cb fl = (\<lambda>w. case (actions_of ob w, types_of ob w) of
       (Some acts, Some types) \<Rightarrow>
         (case get_action t types of
            None \<Rightarrow> Inl NoSuchAction
          | Some _ \<Rightarrow> Inr ((), put_actions ob (acts(t := add_callback cb fl (acts t))) w))
     | _ \<Rightarrow> Inl UseAfterFree)"

text \<open>
  \<^verbatim>\<open>action_handler::execute\<close>, for a way \<open>run\<close> to call a callback.  The list is read element by
  element while the callbacks run; reading on after the object is gone or its list has changed is
  a fault.
\<close>

definition touch_list :: "obj \<Rightarrow> tag \<Rightarrow> callback action_callback list \<Rightarrow> unit act" where
  "touch_list ob t l = (\<lambda>w. case actions_of ob w of
       None \<Rightarrow> Inl UseAfterFree
     | Some acts \<Rightarrow> if acts t = l then Inr ((), w) else Inl InvalidatedCallbacks)"

definition execute_action ::
    "(callback \<Rightarrow> args \<Rightarrow> unit act) \<Rightarrow> obj \<Rightarrow> tag \<Rightarrow> args \<Rightarrow> unit act" where
  "execute_action run ob t a = (\<lambda>w. case (actions_of ob w, types_of ob w) of
       (Some acts, Some types) \<Rightarrow>
         if get_action t types = Some (t, args_prototype a)
         then execute_list (touch_list ob t (acts t)) (\<lambda>cb. run cb a) (acts t) w
         else Inl NoSuchAction
     | _ \<Rightarrow> Inl UseAfterFree)"

section \<open>Handlers in the world\<close>

definition set_handler :: "hid \<Rightarrow> ptr handler \<Rightarrow> world \<Rightarrow> world" where
  "set_handler h x w = w\<lparr>handlers := (handlers w)(h := x)\<rparr>"

definition handler_add_socket :: "hid \<Rightarrow> int \<Rightarrow> ptr \<Rightarrow> unit act" where
  "handler_add_socket h fd p = update (\<lambda>w. set_handler h (add_socket fd p (handlers w h)) w)"

definition handler_delete_socket :: "hid \<Rightarrow> int \<Rightarrow> unit act" where
  "handler_delete_socket h fd = (\<lambda>w. case delete_socket fd (handlers w h) of
       None \<Rightarrow> Inl OutOfRange
     | Some h' \<Rightarrow> Inr ((), set_handler h h' w))"

definition handler_want_read :: "hid \<Rightarrow> int \<Rightarrow> bool \<Rightarrow> unit act" where
  "handler_want_read h fd active =
     update (\<lambda>w. set_handler h (impl_socket_want_read fd active (handlers w h)) w)"

definition handler_want_write :: "hid \<Rightarrow> int \<Rightarrow> bool \<Rightarrow> unit act" where
  "handler_want_write h fd active =
     update (\<lambda>w. set_handler h (impl_socket_want_write fd active (handlers w h)) w)"

text \<open>\<^verbatim>\<open>std::make_shared<events::handler>()\<close>, on memory whose previous content is not cleared.\<close>

definition make_handler :: "hid act" where
  "make_handler = (\<lambda>w. let h = next_handler w in
     Inr (h, (set_handler h (new_handler (invalid (handlers w h))) w)\<lparr>next_handler := Suc h\<rparr>))"

section \<open>Evaluation of the primitives\<close>

lemma sys_apply [prog_simps]: "sys K c w = Inr (reply K c w, after K c w)"
  by (simp add: sys_def answer_def external_def)

lemma after_simps [simp]:
  "handlers (after K c w) = handlers w" "next_handler (after K c w) = next_handler w"
  "heap (after K c w) = heap w" "next_ptr (after K c w) = next_ptr w"
  "servers (after K c w) = servers w" "clients (after K c w) = clients w"
  "trace (after K c w) = trace w @ [(c, reply K c w)]"
  by (simp_all add: after_def)

lemma set_handler_simps [simp]:
  "handlers (set_handler h x w) = (handlers w)(h := x)" "variables (set_handler h x w) = variables w" "next_handler (set_handler h x w) = next_handler w"
  "heap (set_handler h x w) = heap w" "next_ptr (set_handler h x w) = next_ptr w"
  "servers (set_handler h x w) = servers w" "clients (set_handler h x w) = clients w"
  "trace (set_handler h x w) = trace w" "errno (set_handler h x w) = errno w"
  by (simp_all add: set_handler_def)

lemma put_container_simps [simp]:
  "handlers (put_container c x w) = handlers w" "next_handler (put_container c x w) = next_handler w"
  "heap (put_container c x w) = heap w" "next_ptr (put_container c x w) = next_ptr w"
  "trace (put_container c x w) = trace w" "errno (put_container c x w) = errno w"
  "srv_actions (servers (put_container c x w) i) = srv_actions (servers w i)"
  "cl_actions (clients (put_container c x w) i) = cl_actions (clients w i)"
  "srv_handler (servers (put_container c x w) i) = srv_handler (servers w i)"
  "cl_handler (clients (put_container c x w) i) = cl_handler (clients w i)"
  by (cases c; auto)+

lemma get_put_container [simp]:
  "get_container c (put_container c' x w) = (if c = c' then x else get_container c w)"
  by (cases c; cases c') auto

lemma get_container_cong:
  "servers w' = servers w \<Longrightarrow> clients w' = clients w \<Longrightarrow> get_container c w' = get_container c w"
  by (cases c) auto

lemma get_container_simps [simp]:
  "get_container c (w\<lparr>heap := x\<rparr>) = get_container c w"
  "get_container c (w\<lparr>next_ptr := y\<rparr>) = get_container c w"
  "get_container c (w\<lparr>handlers := z\<rparr>) = get_container c w"
  "get_container c (after K call w) = get_container c w"
  "get_container c (set_handler h v w) = get_container c w"
  by (rule get_container_cong; simp)+

lemma get_sock_apply [prog_simps]:
  "get_sock p w = (case heap w p of None \<Rightarrow> Inl UseAfterFree | Some s \<Rightarrow> Inr (s, w))"
  by (simp add: get_sock_def)

lemma put_sock_apply [prog_simps]:
  "put_sock p f w = (case heap w p of None \<Rightarrow> Inl UseAfterFree
     | Some s \<Rightarrow> Inr ((), w\<lparr>heap := (heap w)(p \<mapsto> f s)\<rparr>))"
  by (simp add: put_sock_def)

lemma alloc_sock_apply [prog_simps]:
  "alloc_sock s w = Inr (next_ptr w, w\<lparr>heap := (heap w)(next_ptr w \<mapsto> s), next_ptr := Suc (next_ptr w)\<rparr>)"
  by (simp add: alloc_sock_def)

lemma free_sock_apply [prog_simps]: "free_sock p w = Inr ((), w\<lparr>heap := (heap w)(p := None)\<rparr>)"
  by (simp add: free_sock_def prog_simps)

lemma on_socket_apply:
  "heap w p = Some s \<Longrightarrow> get_action t (class_actions (sclass s)) \<noteq> None \<Longrightarrow>
   on (Socket_obj p) t cb fl w = Inr ((), w\<lparr>heap := (heap w)(p \<mapsto>
     s\<lparr>sactions := (sactions s)(t := add_callback cb fl (sactions s t))\<rparr>)\<rparr>)"
  by (auto simp: on_def)

lemma execute_action_apply:
  "actions_of ob w = Some acts \<Longrightarrow> types_of ob w = Some types \<Longrightarrow>
   get_action t types = Some (t, args_prototype a) \<Longrightarrow>
   execute_action run ob t a w = execute_list (touch_list ob t (acts t)) (\<lambda>cb. run cb a) (acts t) w"
  by (simp add: execute_action_def)

lemma execute_action_empty:
  "actions_of ob w = Some acts \<Longrightarrow> types_of ob w = Some types \<Longrightarrow>
   get_action t types = Some (t, args_prototype a) \<Longrightarrow> acts t = [] \<Longrightarrow>
   execute_action run ob t a w = Inr ((), w)"
  by (simp add: execute_action_apply prog_simps)

section \<open>Open descriptors\<close>

text \<open>
  The descriptors that a history of calls has opened and not closed, and what the kernel
  guarantees about new ones: a descriptor returned by \<^verbatim>\<open>socket\<close> or \<^verbatim>\<open>accept\<close> is not open.
\<close>

fun track_descriptor :: "syscall \<times> sysret \<Rightarrow> int set \<Rightarrow> int set" where
  "track_descriptor (Sys_socket d ty pr, r) S = (if ret_value r < 0 then S else insert (ret_value r) S)"
| "track_descriptor (Sys_accept fd n, r) S = (if ret_value r < 0 then S else insert (ret_value r) S)"
| "track_descriptor (Sys_close fd, r) S = S - {fd}"
| "track_descriptor _ S = S"

definition open_fds :: "history \<Rightarrow> int set" where
  "open_fds h = fold track_descriptor h {}"

fun opens_descriptor :: "syscall \<Rightarrow> bool" where
  "opens_descriptor (Sys_socket d ty pr) = True"
| "opens_descriptor (Sys_accept fd n) = True"
| "opens_descriptor _ = False"

definition fresh_descriptors :: "kernel \<Rightarrow> bool" where
  "fresh_descriptors K \<longleftrightarrow>
     (\<forall>h c. opens_descriptor c \<longrightarrow> ret_value (respond K h c) \<notin> open_fds h)"

definition resolves_family :: "kernel \<Rightarrow> bool" where
  "resolves_family K \<longleftrightarrow> (\<forall>h host fam b.
     ret_value (respond K h (Lib_getaddrinfo host fam)) = 0 \<longrightarrow>
     ret_addr (respond K h (Lib_getaddrinfo host fam)) = Some b \<longrightarrow> 2 \<le> length b \<and> b ! 1 = fam)"

lemma open_fds_snoc [simp]: "open_fds (h @ [e]) = track_descriptor e (open_fds h)"
  by (simp add: open_fds_def)

lemma open_fds_Nil [simp]: "open_fds [] = {}"
  by (simp add: open_fds_def)

lemma world_resolver_honours: "resolves_family K \<Longrightarrow> honours_family (world_resolver K)"
  by (simp add: resolves_family_def honours_family_def world_resolver_def answer_def reply_def)

end
