(* ===== verification/Socket.thy ===== *)
theory Socket
  imports World
begin

text \<open>
  \<^verbatim>\<open>socket_base\<close> (\<^verbatim>\<open>src/socket/socket.cpp\<close>) and \<^verbatim>\<open>unisock::socket\<close> (\<^verbatim>\<open>includes/socket/socket.hpp\<close>)
  with the constructors of \<^verbatim>\<open>pollable_entity\<close>.  The operations of \<^verbatim>\<open>socket_base\<close> work on a socket
  value (the container uses them on a local object), those of \<^verbatim>\<open>socket\<close> on a pointer.
  \<open>X\<close> executes an action of an object, \<open>K\<close> is the kernel.
\<close>

section \<open>socket_base\<close>

definition base_open :: "kernel \<Rightarrow> int \<Rightarrow> int \<Rightarrow> int \<Rightarrow> sock \<Rightarrow> (bool \<times> sock) act" where
  "base_open K domain type protocol s =
     andThen (sys K (Sys_socket domain type protocol)) (\<lambda>r.
       if ret_value r < 0 then ret (False, s\<lparr>sock_fd := -1\<rparr>)
       else ret (True, s\<lparr>sock_fd := ret_value r\<rparr>))"

definition base_close :: "kernel \<Rightarrow> sock \<Rightarrow> sock act" where
  "base_close K s =
     (if sock_fd s < 0 then ret s
      else andThen (sys K (Sys_close (sock_fd s))) (\<lambda>_. ret (s\<lparr>sock_fd := -1\<rparr>)))"

definition base_setsockopt :: "kernel \<Rightarrow> int \<Rightarrow> int \<Rightarrow> bytes \<Rightarrow> sock \<Rightarrow> bool act" where
  "base_setsockopt K level option_name option_value s =
     andThen (sys K (Sys_setsockopt (sock_fd s) level option_name option_value))
       (\<lambda>r. ret (0 = ret_value r))"

definition base_getsockopt :: "kernel \<Rightarrow> int \<Rightarrow> int \<Rightarrow> nat \<Rightarrow> sock \<Rightarrow> (bool \<times> bytes) act" where
  "base_getsockopt K level option_name option_len s =
     andThen (sys K (Sys_getsockopt (sock_fd s) level option_name option_len))
       (\<lambda>r. ret (0 = ret_value r, ret_data r))"

definition get_socket :: "ptr \<Rightarrow> int act" where
  "get_socket p = andThen (get_sock p) (\<lambda>s. ret (sock_fd s))"

section \<open>Construction\<close>

text \<open>A socket object as its constructors leave it; descriptor \<open>-1\<close> is the default.\<close>

definition new_sock :: "sock_class \<Rightarrow> hid \<Rightarrow> int \<Rightarrow> sock" where
  "new_sock cls h fd =
     \<lparr>sclass = cls, sock_fd = fd, address = new_address, sactions = (\<lambda>_. []), shandler = h,
      send_buffer = [], data = (\<lambda>_. 0)\<rparr>"

text \<open>\<^verbatim>\<open>pollable_entity\<close>: on its own handler or on a given one.\<close>

definition pollable_entity :: "hid option \<Rightarrow> hid act" where
  "pollable_entity external_handler =
     (case external_handler of None \<Rightarrow> make_handler | Some h \<Rightarrow> ret h)"

section \<open>unisock::socket\<close>

definition sock_open :: "kernel \<Rightarrow> executor \<Rightarrow> ptr \<Rightarrow> int \<Rightarrow> int \<Rightarrow> int \<Rightarrow> bool act" where
  "sock_open K X p domain type protocol =
     andThen (get_sock p) (\<lambda>s.
     andThen (base_open K domain type protocol s) (\<lambda>(ok, s').
     andThen (put_sock p (\<lambda>_. s')) (\<lambda>_.
     if \<not> ok then
       andThen (reads errno) (\<lambda>e.
       andThen (X (Socket_obj p) ERROR (A_error ''socket'' e)) (\<lambda>_. ret False))
     else
       andThen (handler_add_socket (shandler s') (sock_fd s') p) (\<lambda>_. ret True))))"

definition sock_close :: "kernel \<Rightarrow> executor \<Rightarrow> ptr \<Rightarrow> unit act" where
  "sock_close K X p =
     andThen (get_sock p) (\<lambda>s.
     if sock_fd s < 0 then ret ()
     else
       andThen (handler_delete_socket (shandler s) (sock_fd s)) (\<lambda>_.
       andThen (base_close K s) (\<lambda>s'.
       andThen (put_sock p (\<lambda>_. s')) (\<lambda>_.
       X (Socket_obj p) CLOSED A_none))))"

definition sock_bind :: "kernel \<Rightarrow> executor \<Rightarrow> ptr \<Rightarrow> bool act" where
  "sock_bind K X p =
     andThen (get_sock p) (\<lambda>s.
     andThen (sys K (Sys_bind (sock_fd s) (address s) (sa_size (address s)))) (\<lambda>r.
     if ret_value r < 0 then
       andThen (reads errno) (\<lambda>e.
       andThen (X (Socket_obj p) ERROR (A_error ''bind'' e)) (\<lambda>_. ret False))
     else ret True))"

definition set_want_write :: "ptr \<Rightarrow> bool \<Rightarrow> unit act" where
  "set_want_write p want_write =
     andThen (get_sock p) (\<lambda>s. handler_want_write (shandler s) (sock_fd s) want_write)"

definition set_want_read :: "ptr \<Rightarrow> bool \<Rightarrow> unit act" where
  "set_want_read p want_read =
     andThen (get_sock p) (\<lambda>s. handler_want_read (shandler s) (sock_fd s) want_read)"

definition on_readable :: "executor \<Rightarrow> ptr \<Rightarrow> unit act" where
  "on_readable X p = X (Socket_obj p) READABLE A_none"

definition on_writeable :: "executor \<Rightarrow> ptr \<Rightarrow> unit act" where
  "on_writeable X p = X (Socket_obj p) WRITEABLE A_none"

section \<open>Monotonicity\<close>

lemma approx_sock_open [approx_rules]:
  "(\<And>ob t a. approx ft (X ob t a) (X' ob t a)) \<Longrightarrow> approx ft (sock_open K X p d ty pr) (sock_open K X' p d ty pr)"
  unfolding sock_open_def by (auto intro!: approx_rules simp: case_prod_beta)

lemma approx_sock_close [approx_rules]:
  "(\<And>ob t a. approx ft (X ob t a) (X' ob t a)) \<Longrightarrow> approx ft (sock_close K X p) (sock_close K X' p)"
  unfolding sock_close_def by (auto intro!: approx_rules)

lemma approx_sock_bind [approx_rules]:
  "(\<And>ob t a. approx ft (X ob t a) (X' ob t a)) \<Longrightarrow> approx ft (sock_bind K X p) (sock_bind K X' p)"
  unfolding sock_bind_def by (auto intro!: approx_rules)

lemma approx_on_readable [approx_rules]:
  "(\<And>ob t a. approx ft (X ob t a) (X' ob t a)) \<Longrightarrow> approx ft (on_readable X p) (on_readable X' p)"
  "(\<And>ob t a. approx ft (X ob t a) (X' ob t a)) \<Longrightarrow> approx ft (on_writeable X p) (on_writeable X' p)"
  by (simp_all add: on_readable_def on_writeable_def)

section \<open>Properties\<close>

lemma delete_socket_law:
  assumes "handler_wf h"
  obtains h' where "delete_socket fd h = Some h'" "handler_wf h'" "registry h' = (registry h)(fd := None)"
  using poll.del_law [OF assms, of fd] by blast

lemma sock_close_law:
  assumes "heap w p = Some s" and "handler_wf (handlers w (shandler s))" and "0 \<le> sock_fd s"
  obtains h' w' where "sock_close K X p w = X (Socket_obj p) CLOSED A_none w'"
    "w' = (after K (Sys_close (sock_fd s)) (set_handler (shandler s) h' w))
      \<lparr>heap := (heap w)(p \<mapsto> s\<lparr>sock_fd := -1\<rparr>)\<rparr>"
    "handler_wf h'" "registry h' = (registry (handlers w (shandler s)))(sock_fd s := None)"
    "delete_socket (sock_fd s) (handlers w (shandler s)) = Some h'"
proof -
  obtain h' where h': "delete_socket (sock_fd s) (handlers w (shandler s)) = Some h'" "handler_wf h'"
      "registry h' = (registry (handlers w (shandler s)))(sock_fd s := None)"
    by (rule delete_socket_law [OF assms(2), of "sock_fd s"])
  let ?w = "(after K (Sys_close (sock_fd s)) (set_handler (shandler s) h' w))
      \<lparr>heap := (heap w)(p \<mapsto> s\<lparr>sock_fd := -1\<rparr>)\<rparr>"
  have "sock_close K X p w = X (Socket_obj p) CLOSED A_none ?w"
    using assms(1,3) h'(1)
    by (simp add: sock_close_def base_close_def handler_delete_socket_def prog_simps)
  then show ?thesis
    using h' that by blast
qed

lemma sock_close_closed: "heap w p = Some s \<Longrightarrow> sock_fd s < 0 \<Longrightarrow> sock_close K X p w = Inr ((), w)"
  by (simp add: sock_close_def prog_simps)

text \<open>
  C27. Closing an open socket that a well-formed handler manages: the descriptor leaves the handler
  and the set of open descriptors, the object keeps everything but its descriptor, which becomes
  \<open>-1\<close>, and only then its \<open>CLOSED\<close> action runs; a further close, even from that action, does nothing.
\<close>

theorem sock_close_effect:
  assumes "heap w p = Some s" and "handler_wf (handlers w (shandler s))" and "0 \<le> sock_fd s"
  shows "\<exists>w'. sock_close K X p w = X (Socket_obj p) CLOSED A_none w' \<and>
    heap w' = (heap w)(p \<mapsto> s\<lparr>sock_fd := -1\<rparr>) \<and>
    registry (handlers w' (shandler s)) = (registry (handlers w (shandler s)))(sock_fd s := None) \<and>
    open_fds (trace w') = open_fds (trace w) - {sock_fd s} \<and>
    sock_close K Y p w' = Inr ((), w')"
proof -
  obtain h' w' where w': "sock_close K X p w = X (Socket_obj p) CLOSED A_none w'"
    "w' = (after K (Sys_close (sock_fd s)) (set_handler (shandler s) h' w))
      \<lparr>heap := (heap w)(p \<mapsto> s\<lparr>sock_fd := -1\<rparr>)\<rparr>"
    "registry h' = (registry (handlers w (shandler s)))(sock_fd s := None)"
    by (rule sock_close_law [OF assms])
  moreover have "sock_close K Y p w' = Inr ((), w')"
    using w'(2) by (simp add: sock_close_closed)
  ultimately show ?thesis
    by (intro exI [of _ w']) simp
qed

text \<open>
  C28. Opening a socket: when the kernel refuses, the descriptor is \<open>-1\<close>, no handler changes and the
  \<open>ERROR\<close> action runs before false is returned; otherwise the new descriptor is stored and
  registered for reading under the socket's own pointer.
\<close>

theorem sock_open_effect:
  assumes "heap w p = Some s" and "handler_wf (handlers w (shandler s))"
    and "registry (handlers w (shandler s)) (ret_value (reply K (Sys_socket d ty pr) w)) = None"
  shows "\<exists>w'. (if ret_value (reply K (Sys_socket d ty pr) w) < 0
      then sock_open K X p d ty pr w =
          andThen (X (Socket_obj p) ERROR (A_error ''socket'' (ret_errno (reply K (Sys_socket d ty pr) w))))
            (\<lambda>_. ret False) w'
        \<and> heap w' = (heap w)(p \<mapsto> s\<lparr>sock_fd := -1\<rparr>) \<and> handlers w' = handlers w
      else sock_open K X p d ty pr w = Inr (True, w')
        \<and> heap w' = (heap w)(p \<mapsto> s\<lparr>sock_fd := ret_value (reply K (Sys_socket d ty pr) w)\<rparr>)
        \<and> registry (handlers w' (shandler s)) = (registry (handlers w (shandler s)))
            (ret_value (reply K (Sys_socket d ty pr) w) \<mapsto> (p, True, False)))"
proof -
  let ?c = "Sys_socket d ty pr"
  let ?fd = "ret_value (reply K ?c w)"
  have add: "registry (add_socket ?fd p (handlers w (shandler s)))
      = (registry (handlers w (shandler s)))(?fd \<mapsto> (p, True, False))"
    using poll.add_law [OF assms(2,3)] by blast
  show ?thesis
  proof (cases "?fd < 0")
    case True
    then show ?thesis
      using assms(1)
      by (intro exI [of _ "(after K ?c w)\<lparr>heap := (heap w)(p \<mapsto> s\<lparr>sock_fd := -1\<rparr>)\<rparr>"])
        (simp add: sock_open_def base_open_def prog_simps after_def)
  next
    case False
    then show ?thesis
      using assms(1) add
      by (intro exI [of _ "set_handler (shandler s) (add_socket ?fd p (handlers w (shandler s)))
          ((after K ?c w)\<lparr>heap := (heap w)(p \<mapsto> s\<lparr>sock_fd := ?fd\<rparr>)\<rparr>)"])
        (simp add: sock_open_def base_open_def handler_add_socket_def prog_simps)
  qed
qed

section \<open>A concrete kernel\<close>

text \<open>
  A kernel for concrete runs: it hands out descriptors 3, 4, \<dots>, resolves every name to a
  loopback address, takes every message whole and otherwise answers what the given function says.
\<close>

definition plain_ret :: "int \<Rightarrow> sysret" where
  "plain_ret v = \<lparr>ret_value = v, ret_errno = 9, ret_data = [], ret_addr = None, ret_revents = [],
     ret_text = None\<rparr>"

definition demo_kernel :: "(history \<Rightarrow> syscall \<Rightarrow> sysret option) \<Rightarrow> kernel" where
  "demo_kernel f = \<lparr>respond = (\<lambda>h c. case f h c of Some r \<Rightarrow> r | None \<Rightarrow>
      (case c of
         Sys_socket d ty pr \<Rightarrow> plain_ret (3 + int (length h))
       | Sys_accept fd n \<Rightarrow> (plain_ret (3 + int (length h)))\<lparr>ret_addr := Some [16, 2, 0, 80, 127, 0, 0, 1]\<rparr>
       | Sys_send fd b fl \<Rightarrow> plain_ret (int (length b))
       | Sys_sendto fd b fl a n \<Rightarrow> plain_ret (int (length b))
       | Lib_getaddrinfo host fam \<Rightarrow> (plain_ret 0)\<lparr>ret_addr := Some [16, fam, 0, 0, 127, 0, 0, 1]\<rparr>
       | _ \<Rightarrow> plain_ret 0)),
     error_text = (\<lambda>e. [])\<rparr>"

definition empty_world :: world where
  "empty_world =
     \<lparr>handlers = (\<lambda>_. new_handler 0), next_handler = 1, heap = Map.empty, next_ptr = 0,
      servers = (\<lambda>_. \<lparr>srv_handler = 0, srv_actions = (\<lambda>_. []),
        listeners_container = \<lparr>c_handler = 0, c_sockets = []\<rparr>,
        clients_container = \<lparr>c_handler = 0, c_sockets = []\<rparr>\<rparr>),
      clients = (\<lambda>_. \<lparr>cl_handler = 0, cl_actions = (\<lambda>_. []),
        cl_container = \<lparr>c_handler = 0, c_sockets = []\<rparr>\<rparr>),
      errno = 0, trace = [], variables = (\<lambda>_. 0)\<rparr>"

definition one_socket :: "sock_class \<Rightarrow> world" where
  "one_socket cls = empty_world\<lparr>heap := [0 \<mapsto> new_sock cls 0 3], next_ptr := 1,
     handlers := (handlers empty_world)(0 := add_socket 3 0 (new_handler 0)),
     trace := [(Sys_socket 2 1 0, plain_ret 3)]\<rparr>"

lemma one_socket_registry:
  "handler_wf (handlers (one_socket cls) 0)" "registry (handlers (one_socket cls) 0) = [3 \<mapsto> (0, True, False)]"
  using poll.add_law [of "new_handler 0 :: nat handler" 3 0]
  by (simp_all add: one_socket_def handler_wf_new)

lemma demo_socket [simp]:
  "reply (demo_kernel (\<lambda>_ _. None)) (Sys_socket d ty pr) w = plain_ret (3 + int (length (trace w)))"
  by (simp add: demo_kernel_def reply_def)

theorem sock_close_effect_witness:
  "\<exists>w'. sock_close (demo_kernel (\<lambda>_ _. None)) (\<lambda>_ _ _. ret ()) 0 (one_socket Raw_socket) = Inr ((), w') \<and>
    registry (handlers w' 0) = Map.empty \<and> open_fds (trace w') = {}"
proof -
  have "heap (one_socket Raw_socket) 0 = Some (new_sock Raw_socket 0 3)"
    by (simp add: one_socket_def)
  moreover have "open_fds (trace (one_socket Raw_socket)) = {3}"
    by (simp add: one_socket_def open_fds_def plain_ret_def)
  ultimately show ?thesis
    using sock_close_effect [of "one_socket Raw_socket" 0 "new_sock Raw_socket 0 3"
        "demo_kernel (\<lambda>_ _. None)" "\<lambda>_ _ _. ret ()" "\<lambda>_ _ _. ret ()"]
    by (auto simp: one_socket_registry new_sock_def ret_apply)
qed

theorem sock_open_effect_witness:
  "\<exists>w'. sock_open (demo_kernel (\<lambda>_ _. None)) (\<lambda>_ _ _. ret ()) 0 2 2 0
      (empty_world\<lparr>heap := [0 \<mapsto> new_sock Raw_socket 0 (-1)]\<rparr>) = Inr (True, w') \<and>
    registry (handlers w' 0) = [3 \<mapsto> (0, True, False)]"
proof -
  let ?w = "empty_world\<lparr>heap := [0 \<mapsto> new_sock Raw_socket 0 (-1)]\<rparr>"
  have "handlers ?w 0 = new_handler 0" "trace ?w = []"
    by (simp_all add: empty_world_def)
  then show ?thesis
    using sock_open_effect [of ?w 0 "new_sock Raw_socket 0 (-1)" "demo_kernel (\<lambda>_ _. None)" 2 2 0
        "\<lambda>_ _ _. ret ()"]
    by (auto simp: new_sock_def handler_wf_new plain_ret_def)
qed

end
