(* ===== verification/Socket_Container.thy ===== *)
theory Socket_Container
  imports Socket
begin

text \<open>
  \<^verbatim>\<open>socket_container\<close> (\<^verbatim>\<open>includes/socket/socket_container.hpp\<close>): the sockets of a server or a
  client, stored by descriptor.  Every stored socket carries, at the end of its \<open>CLOSED\<close> callbacks,
  the lambda that erases it from the container and thereby destroys it.
\<close>

section \<open>Operations\<close>

definition new_container :: "hid \<Rightarrow> socket_container" where
  "new_container h = \<lparr>c_handler = h, c_sockets = []\<rparr>"

unbundle bit_operations_syntax

definition erase_flags :: ushort where
  "erase_flags = flag_value QUEUE_END OR flag_value STOP_AFTER"

text \<open>
  \<^verbatim>\<open>_insert_socket\<close>: a node for the copied socket is allocated only if the key is free; a null
  pointer is returned otherwise.
\<close>

definition insert_socket :: "container_ref \<Rightarrow> sock \<Rightarrow> ptr option act" where
  "insert_socket c sockobj =
     andThen (reads (\<lambda>w. (get_container c w, next_ptr w))) (\<lambda>(cont, p).
     case map_insert (sock_fd sockobj) p (c_sockets cont) of (m, inserted) \<Rightarrow>
       if \<not> inserted then ret None
       else
         andThen (alloc_sock sockobj) (\<lambda>sockptr.
         andThen (update (put_container c (cont\<lparr>c_sockets := m\<rparr>))) (\<lambda>_.
         andThen (on (Socket_obj sockptr) CLOSED (Container_erase c (sock_fd sockobj)) erase_flags) (\<lambda>_.
         andThen (get_socket sockptr) (\<lambda>fd.
         andThen (handler_add_socket (c_handler cont) fd sockptr) (\<lambda>_.
         ret (Some sockptr)))))))"

definition make_socket_fd :: "container_ref \<Rightarrow> int \<Rightarrow> ptr option act" where
  "make_socket_fd c socket =
     andThen (require AssertFailed (\<lambda>_. socket > 0)) (\<lambda>_.
     andThen (reads (get_container c)) (\<lambda>cont.
     insert_socket c (new_sock Tcp_connection (c_handler cont) socket)))"

definition make_socket :: "kernel \<Rightarrow> container_ref \<Rightarrow> int \<Rightarrow> int \<Rightarrow> int \<Rightarrow> ptr option act" where
  "make_socket K c domain type protocol =
     andThen (reads (get_container c)) (\<lambda>cont.
     andThen (base_open K domain type protocol (new_sock Tcp_connection (c_handler cont) (-1)))
       (\<lambda>(ok, sockobj).
     if \<not> ok then ret None else insert_socket c sockobj))"

text \<open>The lambda registered above: erasing the key destroys the socket stored under it.\<close>

definition container_erase :: "container_ref \<Rightarrow> int \<Rightarrow> unit act" where
  "container_erase c socket_key =
     andThen (reads (get_container c)) (\<lambda>cont.
     andThen (case map_find (c_sockets cont) socket_key of None \<Rightarrow> ret () | Some p \<Rightarrow> free_sock p) (\<lambda>_.
     update (put_container c (cont\<lparr>c_sockets := map_erase socket_key (c_sockets cont)\<rparr>))))"

text \<open>
  \<^verbatim>\<open>close\<close> closes the first socket until the map is empty; \<open>fuel\<close> bounds the number of rounds.
\<close>

fun container_close :: "kernel \<Rightarrow> executor \<Rightarrow> nat \<Rightarrow> container_ref \<Rightarrow> unit act" where
  "container_close K X 0 c =
     andThen (reads (\<lambda>w. map_begin (c_sockets (get_container c w)))) (\<lambda>b.
       case b of None \<Rightarrow> ret () | Some e \<Rightarrow> raise OutOfFuel)"
| "container_close K X (Suc fuel) c =
     andThen (reads (\<lambda>w. map_begin (c_sockets (get_container c w)))) (\<lambda>b.
       case b of None \<Rightarrow> ret ()
       | Some e \<Rightarrow> andThen (sock_close K X (snd e)) (\<lambda>_. container_close K X fuel c))"

lemma approx_container_close [approx_rules]:
  "(\<And>ob t a. approx ft (X ob t a) (X' ob t a)) \<Longrightarrow> n = n' \<or> n \<le> n' \<and> ft = OutOfFuel \<Longrightarrow>
   approx ft (container_close K X n c) (container_close K X' n' c)"
proof (induction n arbitrary: n')
  case 0
  show ?case
    using 0 by (cases n') (auto intro!: approx_rules approx_out_of_fuel)
next
  case (Suc n)
  then obtain m where "n' = Suc m" "n = m \<or> n \<le> m \<and> ft = OutOfFuel"
    by (cases n') auto
  then show ?case
    using Suc by (auto intro!: approx_rules)
qed

section \<open>Properties\<close>

definition erase_callback :: "container_ref \<Rightarrow> int \<Rightarrow> callback action_callback" where
  "erase_callback c k = \<lparr>exec = Container_erase c k, flags = erase_flags\<rparr>"

definition stored_sock :: "container_ref \<Rightarrow> hid \<Rightarrow> int \<Rightarrow> sock" where
  "stored_sock c h k = (new_sock Tcp_connection h k)
     \<lparr>sactions := (\<lambda>_. [])(CLOSED := [erase_callback c k])\<rparr>"

lemma add_callback_Nil [simp]: "add_callback f fl [] = [\<lparr>exec = f, flags = fl\<rparr>]"
  by (simp add: add_callback_def)

lemma insert_socket_apply:
  assumes "map_wf (c_sockets (get_container c w))"
    and "map_find (c_sockets (get_container c w)) k = None"
  shows "insert_socket c (new_sock Tcp_connection h k) w = Inr (Some (next_ptr w),
     set_handler (c_handler (get_container c w))
       (add_socket k (next_ptr w) (handlers w (c_handler (get_container c w))))
       (put_container c ((get_container c w)\<lparr>c_sockets := fst (map_insert k (next_ptr w) (c_sockets (get_container c w)))\<rparr>)
         (w\<lparr>heap := (heap w)(next_ptr w \<mapsto> stored_sock c h k), next_ptr := Suc (next_ptr w)\<rparr>)))"
proof -
  obtain m where m: "map_insert k (next_ptr w) (c_sockets (get_container c w)) = (m, True)"
    using assms std_map.insert_law [OF assms(1), of k "next_ptr w"] by (cases "map_insert k (next_ptr w) (c_sockets (get_container c w))") auto
  show ?thesis
    using m
    by (cases c) (simp_all add: insert_socket_def prog_simps on_def new_sock_def stored_sock_def
        erase_callback_def get_socket_def handler_add_socket_def action_list_defs)
qed

lemma insert_socket_taken:
  assumes "map_wf (c_sockets (get_container c w))"
    and "map_find (c_sockets (get_container c w)) (sock_fd s) \<noteq> None"
  shows "insert_socket c s w = Inr (None, w)"
  using assms std_map.insert_law [OF assms(1), of "sock_fd s" "next_ptr w"]
  by (cases "map_insert (sock_fd s) (next_ptr w) (c_sockets (get_container c w))")
    (auto simp: insert_socket_def prog_simps)

text \<open>The world after a socket with descriptor \<open>k\<close> has been inserted in a container.\<close>

definition with_socket :: "container_ref \<Rightarrow> int \<Rightarrow> world \<Rightarrow> world" where
  "with_socket c k w =
     (let cont = get_container c w; h = c_handler cont in
      set_handler h (add_socket k (next_ptr w) (handlers w h))
        (put_container c (cont\<lparr>c_sockets := fst (map_insert k (next_ptr w) (c_sockets cont))\<rparr>)
          (w\<lparr>heap := (heap w)(next_ptr w \<mapsto> stored_sock c h k), next_ptr := Suc (next_ptr w)\<rparr>)))"

lemma insert_socket_free:
  assumes "map_wf (c_sockets (get_container c w))"
    and "map_find (c_sockets (get_container c w)) k = None"
  shows "insert_socket c (new_sock Tcp_connection (c_handler (get_container c w)) k) w =
    Inr (Some (next_ptr w), with_socket c k w)"
  using insert_socket_apply [OF assms, of "c_handler (get_container c w)"]
  by (simp add: with_socket_def Let_def)

lemma with_socket_simps [simp]:
  "heap (with_socket c k w) = (heap w)(next_ptr w \<mapsto> stored_sock c (c_handler (get_container c w)) k)"
  "next_ptr (with_socket c k w) = Suc (next_ptr w)"
  "trace (with_socket c k w) = trace w"
  "handlers (with_socket c k w) = (handlers w)(c_handler (get_container c w) :=
     add_socket k (next_ptr w) (handlers w (c_handler (get_container c w))))"
  "get_container c (with_socket c k w) =
     (get_container c w)\<lparr>c_sockets := fst (map_insert k (next_ptr w) (c_sockets (get_container c w)))\<rparr>"
  "srv_actions (servers (with_socket c k w) i) = srv_actions (servers w i)"
  "cl_actions (clients (with_socket c k w) i) = cl_actions (clients w i)"
  by (simp_all add: with_socket_def Let_def)

lemma erase_callback_simps [simp]:
  "has_flag (flags (erase_callback c k)) QUEUE_END" "has_flag (flags (erase_callback c k)) STOP_AFTER"
  "\<not> has_flag (flags (erase_callback c k)) SKIP" "exec (erase_callback c k) = Container_erase c k"
  by (simp_all add: erase_callback_def erase_flags_def has_flag_def flag_value.simps)

lemma add_before_erase [simp]:
  "add_callback f fl [erase_callback c k] = [\<lparr>exec = f, flags = fl\<rparr>, erase_callback c k]"
  using add_callback_split [of "[]" "[erase_callback c k]" f fl] by simp

lemma make_socket_free:
  assumes "ret_value (reply K (Sys_socket d ty pr) w) = fd" and "0 \<le> fd"
    and "map_wf (c_sockets (get_container c w))" and "map_find (c_sockets (get_container c w)) fd = None"
  shows "make_socket K c d ty pr w =
    Inr (Some (next_ptr w), with_socket c fd (after K (Sys_socket d ty pr) w))"
proof -
  let ?w = "after K (Sys_socket d ty pr) w"
  have "insert_socket c (new_sock Tcp_connection (c_handler (get_container c w)) fd) ?w =
      Inr (Some (next_ptr w), with_socket c fd ?w)"
    using insert_socket_free [of c ?w fd] assms(3,4) by simp
  then show ?thesis
    using assms(1,2) by (simp add: make_socket_def base_open_def prog_simps new_sock_def)
qed

lemma on_tcp_apply:
  "heap w p = Some s \<Longrightarrow> sclass s = Tcp_connection \<Longrightarrow> t \<in> {READABLE, WRITEABLE, CLOSED, ERROR, RECV} \<Longrightarrow>
   on (Socket_obj p) t cb fl w = Inr ((), w\<lparr>heap := (heap w)(p \<mapsto>
     s\<lparr>sactions := (sactions s)(t := add_callback cb fl (sactions s t))\<rparr>)\<rparr>)"
  by (rule on_socket_apply) (auto simp: action_list_defs)

text \<open>
  Creating a socket in a container.  A null pointer is returned exactly when the kernel refuses
  or the descriptor is still a key of the map; in the second case the new descriptor stays open
  although no object, container or handler knows it.  Otherwise a fresh object carries only the
  erasing callback, is stored under its descriptor and registered for reading.
\<close>

theorem make_socket_outcome:
  fixes K c d ty pr w
  defines "cont \<equiv> get_container c w" and "fd \<equiv> ret_value (reply K (Sys_socket d ty pr) w)"
  assumes "map_wf (c_sockets cont)" and "handler_wf (handlers w (c_handler cont))"
    and "registry (handlers w (c_handler cont)) fd = None"
  shows "\<exists>w'. (if fd < 0 \<or> map_find (c_sockets cont) fd \<noteq> None
      then make_socket K c d ty pr w = Inr (None, w') \<and> heap w' = heap w \<and> handlers w' = handlers w \<and>
        get_container c w' = cont
      else make_socket K c d ty pr w = Inr (Some (next_ptr w), w') \<and>
        heap w' = (heap w)(next_ptr w \<mapsto> stored_sock c (c_handler cont) fd) \<and>
        registry (handlers w' (c_handler cont)) =
          (registry (handlers w (c_handler cont)))(fd \<mapsto> (next_ptr w, True, False)) \<and>
        map_find (c_sockets (get_container c w')) = (map_find (c_sockets cont))(fd \<mapsto> next_ptr w)) \<and>
    open_fds (trace w') = (if fd < 0 then open_fds (trace w) else insert fd (open_fds (trace w)))"
proof -
  let ?c = "Sys_socket d ty pr"
  have wf: "map_wf (c_sockets (get_container c (after K ?c w)))"
    using assms by simp
  have opened: "base_open K d ty pr (new_sock Tcp_connection (c_handler cont) (- 1)) w =
      Inr (if fd < 0 then (False, new_sock Tcp_connection (c_handler cont) (- 1))
           else (True, new_sock Tcp_connection (c_handler cont) fd), after K ?c w)"
    by (simp add: base_open_def prog_simps fd_def new_sock_def)
  consider (refused) "fd < 0" | (taken) "0 \<le> fd" "map_find (c_sockets cont) fd \<noteq> None"
    | (free) "0 \<le> fd" "map_find (c_sockets cont) fd = None"
    by linarith
  then show ?thesis
  proof cases
    case refused
    then show ?thesis
      by (intro exI [of _ "after K ?c w"])
        (simp add: make_socket_def prog_simps opened fd_def [symmetric] cont_def [symmetric])
  next
    case taken
    then have "insert_socket c (new_sock Tcp_connection (c_handler cont) fd) (after K ?c w)
        = Inr (None, after K ?c w)"
      using insert_socket_taken [OF wf, of "new_sock Tcp_connection (c_handler cont) fd"]
      by (simp add: cont_def new_sock_def)
    then show ?thesis
      using taken
      by (intro exI [of _ "after K ?c w"])
        (simp add: make_socket_def prog_simps opened fd_def [symmetric] cont_def [symmetric])
  next
    case free
    have "map_find (c_sockets (get_container c (after K ?c w))) fd = None"
      using free by (simp add: cont_def)
    note ins = insert_socket_apply [OF wf this, of "c_handler cont"]
    have add: "registry (add_socket fd (next_ptr w) (handlers w (c_handler cont))) =
        (registry (handlers w (c_handler cont)))(fd \<mapsto> (next_ptr w, True, False))"
      using poll.add_law [OF assms(4,5)] by blast
    have map: "map_find (fst (map_insert fd (next_ptr w) (c_sockets cont))) =
        (map_find (c_sockets cont))(fd \<mapsto> next_ptr w)"
      using std_map.insert_law [OF assms(3)] free by simp
    let ?w' = "set_handler (c_handler cont) (add_socket fd (next_ptr w) (handlers w (c_handler cont)))
        (put_container c (cont\<lparr>c_sockets := fst (map_insert fd (next_ptr w) (c_sockets cont))\<rparr>)
          (after K ?c w\<lparr>heap := (heap w)(next_ptr w \<mapsto> stored_sock c (c_handler cont) fd),
             next_ptr := Suc (next_ptr w)\<rparr>))"
    show ?thesis
      using free add map
      by (intro exI [of _ ?w'])
        (simp add: make_socket_def prog_simps opened ins fd_def [symmetric] cont_def [symmetric])
  qed
qed

theorem make_socket_outcome_witness:
  "\<exists>w'. make_socket (demo_kernel (\<lambda>_ _. None)) (Clients 0) 2 1 0 empty_world = Inr (Some 0, w') \<and>
    map_find (c_sockets (get_container (Clients 0) w')) = [3 \<mapsto> 0] \<and> open_fds (trace w') = {3}"
proof -
  have "get_container (Clients 0) empty_world = \<lparr>c_handler = 0, c_sockets = []\<rparr>"
    "handlers empty_world 0 = new_handler 0" "trace empty_world = []" "next_ptr empty_world = 0"
    by (simp_all add: empty_world_def)
  then show ?thesis
    using make_socket_outcome [where K = "demo_kernel (\<lambda>_ _. None)" and c = "Clients 0" and d = 2
        and ty = 1 and pr = 0 and w = empty_world]
    by (auto simp: handler_wf_new plain_ret_def std_map.finite_law map_find_map_of)
qed

text \<open>
  Closing a container whose first socket is already closed never ends: the loop of \<^verbatim>\<open>close\<close> finds
  the same socket again, its \<^verbatim>\<open>close\<close> returns at once and nothing is erased, so no number of rounds
  is enough.
\<close>

theorem container_close_stuck:
  assumes "map_begin (c_sockets (get_container c w)) = Some (k, p)" and "heap w p = Some s"
    and "sock_fd s < 0"
  shows "container_close K X fuel c w = Inl OutOfFuel"
  using assms by (induction fuel) (simp_all add: prog_simps sock_close_def)

theorem container_close_stuck_witness:
  "\<forall>fuel. container_close (demo_kernel (\<lambda>_ _. None)) (\<lambda>_ _ _. ret ()) fuel (Clients 0)
     (put_container (Clients 0) \<lparr>c_handler = 0, c_sockets = [(3, 0)]\<rparr>
       (empty_world\<lparr>heap := [0 \<mapsto> new_sock Tcp_connection 0 (-1)]\<rparr>)) = Inl OutOfFuel"
  by (intro allI container_close_stuck [where k = 3 and p = 0 and s = "new_sock Tcp_connection 0 (-1)"])
    (simp_all add: new_sock_def)

end
