(* ===== verification/Tcp_Connection.thy ===== *)
theory Tcp_Connection
  imports Socket_Container
begin

text \<open>
  \<^verbatim>\<open>tcp::connection_base\<close> (\<^verbatim>\<open>includes/tcp/connection.hpp\<close>): sending with a buffer for what the
  kernel did not take, flushing the buffer, receiving, listening and connecting.  The members
  that \<^verbatim>\<open>tcp::connection\<close> leaves public are listed in \<open>connection_member\<close>.
\<close>

section \<open>Operations\<close>

definition RECV_BUFFER_SIZE :: nat where "RECV_BUFFER_SIZE = 4096"

text \<open>\<open>message\<close> is the array the pointer and the length delimit.\<close>

definition connection_send :: "kernel \<Rightarrow> executor \<Rightarrow> ptr \<Rightarrow> bytes \<Rightarrow> bool act" where
  "connection_send K X p message =
     andThen (get_sock p) (\<lambda>s.
     andThen (sys K (Sys_send (sock_fd s) message 0)) (\<lambda>r.
     let n_bytes = to_int32 (ret_value r) in
     if n_bytes < 0 then
       andThen (reads errno) (\<lambda>e.
       andThen (X (Socket_obj p) ERROR (A_error ''send'' e)) (\<lambda>_. ret False))
     else if nat n_bytes < length message then
       andThen (put_sock p (\<lambda>s. s\<lparr>send_buffer := send_buffer s @ [drop (nat n_bytes) message]\<rparr>)) (\<lambda>_.
       andThen (handler_want_write (shandler s) (sock_fd s) True) (\<lambda>_. ret True))
     else ret True))"

definition connection_listen :: "kernel \<Rightarrow> ptr \<Rightarrow> bool act" where
  "connection_listen K p =
     andThen (get_sock p) (\<lambda>s.
     andThen (sys K (Sys_listen (sock_fd s) 10)) (\<lambda>r. ret (\<not> 0 > ret_value r)))"

definition connection_connect :: "kernel \<Rightarrow> ptr \<Rightarrow> bool act" where
  "connection_connect K p =
     andThen (get_sock p) (\<lambda>s.
     andThen (sys K (Sys_connect (sock_fd s) (address s) (sa_size (address s)))) (\<lambda>r.
       ret (\<not> 0 > ret_value r)))"

text \<open>The receive buffer starts zeroed; the kernel writes at most its size.\<close>

definition filled_buffer :: "bytes \<Rightarrow> bytes" where
  "filled_buffer received = write_at 0 (take RECV_BUFFER_SIZE received) (replicate RECV_BUFFER_SIZE 0)"

definition connection_recv :: "kernel \<Rightarrow> executor \<Rightarrow> ptr \<Rightarrow> int act" where
  "connection_recv K X p =
     andThen (get_sock p) (\<lambda>s.
     andThen (sys K (Sys_recv (sock_fd s) RECV_BUFFER_SIZE 0)) (\<lambda>r.
     let n_bytes = to_int32 (ret_value r) in
     if n_bytes < 0 then
       andThen (reads errno) (\<lambda>e.
       andThen (X (Socket_obj p) ERROR (A_error ''recv'' e)) (\<lambda>_. ret n_bytes))
     else if n_bytes = 0 then
       andThen (sock_close K X p) (\<lambda>_. ret n_bytes)
     else
       andThen (X (Socket_obj p) RECV (A_bytes (take (nat n_bytes) (filled_buffer (ret_data r)))))
         (\<lambda>_. ret n_bytes)))"

text \<open>
  \<^verbatim>\<open>send_flush\<close>: after a partial send the code computes \<^verbatim>\<open>front().substr(n_bytes)\<close> and discards the
  result, so the front of the queue stays whole; after a complete one the front is popped and the
  interest in writing is withdrawn.
\<close>

definition connection_send_flush :: "kernel \<Rightarrow> executor \<Rightarrow> ptr \<Rightarrow> unit act" where
  "connection_send_flush K X p =
     andThen (get_sock p) (\<lambda>s.
     case send_buffer s of
       [] \<Rightarrow> ret ()
     | front # rest \<Rightarrow>
         andThen (sys K (Sys_send (sock_fd s) front 0)) (\<lambda>r.
         let n_bytes = to_int32 (ret_value r) in
         if n_bytes < 0 then
           andThen (reads errno) (\<lambda>e. X (Socket_obj p) ERROR (A_error ''send'' e))
         else if nat n_bytes < length front then ret ()
         else
           andThen (put_sock p (\<lambda>s. s\<lparr>send_buffer := rest\<rparr>)) (\<lambda>_.
           handler_want_write (shandler s) (sock_fd s) False)))"

text \<open>\<^verbatim>\<open>tcp::connection\<close> inherits privately and republishes these members.\<close>

datatype member_name =
    M_on | M_get_socket | M_close | M_address | M_send | M_data
  | M_open | M_bind | M_listen | M_connect | M_recv | M_send_flush
  | M_set_want_read | M_set_want_write | M_execute | M_get_handler

definition connection_member :: "member_name \<Rightarrow> bool" where
  "connection_member m \<longleftrightarrow> m \<in> {M_on, M_get_socket, M_close, M_address, M_send, M_data}"

section \<open>Monotonicity\<close>

lemma approx_connection [approx_rules]:
  "(\<And>ob t a. approx ft (X ob t a) (X' ob t a)) \<Longrightarrow>
   approx ft (connection_send K X p msg) (connection_send K X' p msg)"
  "(\<And>ob t a. approx ft (X ob t a) (X' ob t a)) \<Longrightarrow> approx ft (connection_recv K X p) (connection_recv K X' p)"
  "(\<And>ob t a. approx ft (X ob t a) (X' ob t a)) \<Longrightarrow>
   approx ft (connection_send_flush K X p) (connection_send_flush K X' p)"
  unfolding connection_send_def connection_recv_def connection_send_flush_def Let_def
  by (auto intro!: approx_rules)

section \<open>Calls that succeed\<close>

lemma connection_connect_apply:
  "heap v p = Some s \<Longrightarrow> (\<And>h a n. 0 \<le> ret_value (respond K h (Sys_connect (sock_fd s) a n))) \<Longrightarrow>
   connection_connect K p v = Inr (True, after K (Sys_connect (sock_fd s) (address s) (sa_size (address s))) v)"
  by (simp add: connection_connect_def prog_simps reply_def not_less)

lemma connection_listen_apply:
  "heap v p = Some s \<Longrightarrow> (\<And>h n. 0 \<le> ret_value (respond K h (Sys_listen (sock_fd s) n))) \<Longrightarrow>
   connection_listen K p v = Inr (True, after K (Sys_listen (sock_fd s) 10) v)"
  by (simp add: connection_listen_def prog_simps reply_def not_less)

lemma sock_bind_apply:
  "heap v p = Some s \<Longrightarrow> (\<And>h a n. 0 \<le> ret_value (respond K h (Sys_bind (sock_fd s) a n))) \<Longrightarrow>
   sock_bind K X p v = Inr (True, after K (Sys_bind (sock_fd s) (address s) (sa_size (address s))) v)"
  by (simp add: sock_bind_def prog_simps reply_def leD)

section \<open>The byte stream of a connection\<close>

text \<open>
  The bytes the kernel has accepted on a descriptor, in order, and the bytes a connection still
  keeps; the peer sees the first followed by whatever is sent later.
\<close>

fun accepted :: "int \<Rightarrow> syscall \<times> sysret \<Rightarrow> bytes" where
  "accepted fd (Sys_send fd' b fl, r) =
     (if fd' = fd \<and> 0 \<le> to_int32 (ret_value r) then take (nat (to_int32 (ret_value r))) b else [])"
| "accepted fd _ = []"

definition sent_bytes :: "int \<Rightarrow> history \<Rightarrow> bytes" where
  "sent_bytes fd h = concat (map (accepted fd) h)"

definition pending_bytes :: "sock \<Rightarrow> bytes" where
  "pending_bytes s = concat (send_buffer s)"

lemma sent_bytes_snoc [simp]: "sent_bytes fd (h @ [e]) = sent_bytes fd h @ accepted fd e"
  by (simp add: sent_bytes_def)

text \<open>The kernel's answer to the \<^verbatim>\<open>send\<close> of a message on the descriptor of a connection.\<close>

definition send_result :: "kernel \<Rightarrow> sock \<Rightarrow> bytes \<Rightarrow> world \<Rightarrow> int" where
  "send_result K s message w = to_int32 (ret_value (reply K (Sys_send (sock_fd s) message 0) w))"

lemma connection_send_apply:
  assumes "heap w p = Some s"
  shows "connection_send K X p message w =
    (let n = send_result K s message w; w1 = after K (Sys_send (sock_fd s) message 0) w in
     if n < 0 then andThen (X (Socket_obj p) ERROR (A_error ''send'' (errno w1))) (\<lambda>_. ret False) w1
     else if nat n < length message then
       Inr (True, set_handler (shandler s) (impl_socket_want_write (sock_fd s) True (handlers w (shandler s)))
         (w1\<lparr>heap := (heap w)(p \<mapsto> s\<lparr>send_buffer := send_buffer s @ [drop (nat n) message]\<rparr>)\<rparr>))
     else Inr (True, w1))"
  using assms
  by (simp add: connection_send_def send_result_def prog_simps Let_def handler_want_write_def)

lemma connection_send_flush_apply:
  assumes "heap w p = Some s" and "send_buffer s = front # rest"
  shows "connection_send_flush K X p w =
    (let n = send_result K s front w; w1 = after K (Sys_send (sock_fd s) front 0) w in
     if n < 0 then X (Socket_obj p) ERROR (A_error ''send'' (errno w1)) w1
     else if nat n < length front then Inr ((), w1)
     else Inr ((), set_handler (shandler s) (impl_socket_want_write (sock_fd s) False (handlers w (shandler s)))
         (w1\<lparr>heap := (heap w)(p \<mapsto> s\<lparr>send_buffer := rest\<rparr>)\<rparr>)))"
  using assms
  by (simp add: connection_send_flush_def send_result_def prog_simps Let_def handler_want_write_def)

lemma send_stream:
  assumes "heap w p = Some s" and "handler_wf (handlers w (shandler s))"
    and "0 \<le> send_result K s message w"
  shows "\<exists>w' s'. connection_send K X p message w = Inr (True, w') \<and> heap w' = (heap w)(p \<mapsto> s') \<and>
    sent_bytes (sock_fd s) (trace w') =
      sent_bytes (sock_fd s) (trace w) @ take (nat (send_result K s message w)) message \<and>
    pending_bytes s' = pending_bytes s @ drop (nat (send_result K s message w)) message \<and>
    registry (handlers w' (shandler s)) =
      (if nat (send_result K s message w) < length message
       then (registry (handlers w (shandler s)))(sock_fd s :=
         map_option (\<lambda>(q, r, wr). (q, r, True)) (registry (handlers w (shandler s)) (sock_fd s)))
       else registry (handlers w (shandler s)))"
proof (cases "nat (send_result K s message w) < length message")
  case True
  then show ?thesis
    using assms poll.write_law [OF assms(2), of "sock_fd s" True]
    by (simp add: connection_send_apply Let_def)
      (simp add: send_result_def pending_bytes_def exI [of _ "s\<lparr>send_buffer :=
        send_buffer s @ [drop (nat (send_result K s message w)) message]\<rparr>"])
next
  case False
  then show ?thesis
    using assms
    by (intro exI [of _ "after K (Sys_send (sock_fd s) message 0) w"] exI [of _ s])
      (simp add: connection_send_apply Let_def send_result_def fun_upd_idem)
qed

text \<open>
  C23. Sending accounts for every byte: when the kernel accepts \<open>n\<close> bytes of the message, these extend
  what was accepted on the descriptor, the rest (if any) is kept at the end of the buffer and the
  interest in writing is registered; true is returned.
\<close>

theorem send_accounts_for_message:
  assumes "heap w p = Some s" and "handler_wf (handlers w (shandler s))"
    and "0 \<le> send_result K s message w"
  shows "\<exists>w' s'. connection_send K X p message w = Inr (True, w') \<and> heap w' = (heap w)(p \<mapsto> s') \<and>
    sent_bytes (sock_fd s) (trace w') =
      sent_bytes (sock_fd s) (trace w) @ take (nat (send_result K s message w)) message \<and>
    pending_bytes s' = pending_bytes s @ drop (nat (send_result K s message w)) message \<and>
    registry (handlers w' (shandler s)) =
      (if nat (send_result K s message w) < length message
       then (registry (handlers w (shandler s)))(sock_fd s :=
         map_option (\<lambda>(q, r, wr). (q, r, True)) (registry (handlers w (shandler s)) (sock_fd s)))
       else registry (handlers w (shandler s)))"
  using assms by (rule send_stream)

text \<open>
  A message sent while earlier bytes wait in the buffer overtakes them: the bytes the kernel
  accepts from it precede the waiting ones in the stream, so the stream is the messages in order
  only if nothing was accepted or nothing was waiting.
\<close>

theorem send_overtakes_pending:
  assumes "heap w p = Some s" and "handler_wf (handlers w (shandler s))"
    and "send_result K s message w = int (length message)"
  shows "\<exists>w' s'. connection_send K X p message w = Inr (True, w') \<and> heap w' p = Some s' \<and>
    sent_bytes (sock_fd s) (trace w') @ pending_bytes s' =
      sent_bytes (sock_fd s) (trace w) @ message @ pending_bytes s"
  using send_stream [OF assms(1,2), of K message X] assms(3) by fastforce

lemma flush_stream:
  assumes "heap w p = Some s" and "handler_wf (handlers w (shandler s))"
    and "send_buffer s = front # rest" and "0 \<le> send_result K s front w"
  shows "\<exists>w' s'. connection_send_flush K X p w = Inr ((), w') \<and> heap w' = (heap w)(p \<mapsto> s') \<and>
    sent_bytes (sock_fd s) (trace w') =
      sent_bytes (sock_fd s) (trace w) @ take (nat (send_result K s front w)) front \<and>
    (if nat (send_result K s front w) < length front
     then s' = s \<and> handlers w' = handlers w
     else send_buffer s' = rest \<and> registry (handlers w' (shandler s)) =
       (registry (handlers w (shandler s)))(sock_fd s :=
         map_option (\<lambda>(q, r, wr). (q, r, False)) (registry (handlers w (shandler s)) (sock_fd s))))"
proof (cases "nat (send_result K s front w) < length front")
  case True
  then show ?thesis
    using assms
    by (intro exI [of _ "after K (Sys_send (sock_fd s) front 0) w"] exI [of _ s])
      (simp add: connection_send_flush_apply Let_def send_result_def fun_upd_idem)
next
  case False
  then show ?thesis
    using assms poll.write_law [OF assms(2), of "sock_fd s" False]
    by (simp add: connection_send_flush_apply Let_def)
      (simp add: send_result_def exI [of _ "s\<lparr>send_buffer := rest\<rparr>"])
qed

text \<open>
  C32. One flush of a non-empty buffer: if the kernel takes the whole front message, the front moves
  from the buffer to the stream and the interest in writing is withdrawn even when further
  messages wait; if it takes only a part, that part is on the stream but the buffer still holds the
  whole front, so the next flush sends the part again.
\<close>

theorem flush_outcome:
  assumes "heap w p = Some s" and "handler_wf (handlers w (shandler s))"
    and "send_buffer s = front # rest" and "0 \<le> send_result K s front w"
  shows "\<exists>w' s'. connection_send_flush K X p w = Inr ((), w') \<and> heap w' = (heap w)(p \<mapsto> s') \<and>
    sent_bytes (sock_fd s) (trace w') =
      sent_bytes (sock_fd s) (trace w) @ take (nat (send_result K s front w)) front \<and>
    (if nat (send_result K s front w) < length front
     then s' = s \<and> handlers w' = handlers w
     else send_buffer s' = rest \<and> registry (handlers w' (shandler s)) =
       (registry (handlers w (shandler s)))(sock_fd s :=
         map_option (\<lambda>(q, r, wr). (q, r, False)) (registry (handlers w (shandler s)) (sock_fd s))))"
  using assms by (rule flush_stream)

text \<open>Messages sent one after the other, as long as the calls succeed.\<close>

fun send_all :: "kernel \<Rightarrow> executor \<Rightarrow> ptr \<Rightarrow> bytes list \<Rightarrow> bool act" where
  "send_all K X p [] = ret True"
| "send_all K X p (m # ms) =
     andThen (connection_send K X p m) (\<lambda>ok. if ok then send_all K X p ms else ret False)"

text \<open>
  C24. Order and completeness: a series of messages sent to a kernel that takes every message whole is
  accepted as the concatenation of the messages, in order and without loss; nothing is added to the
  buffer, no interest changes and every call returns true.
\<close>

theorem sends_are_fifo:
  assumes "heap w p = Some s"
    and "\<forall>m \<in> set messages. length m < 2 ^ 31 \<and>
      (\<forall>h. ret_value (respond K h (Sys_send (sock_fd s) m 0)) = int (length m))"
  shows "\<exists>w'. send_all K X p messages w = Inr (True, w') \<and>
    heap w' = heap w \<and> handlers w' = handlers w \<and>
    sent_bytes (sock_fd s) (trace w') = sent_bytes (sock_fd s) (trace w) @ concat messages"
  using assms
proof (induction messages arbitrary: w)
  case Nil
  then show ?case by (simp add: prog_simps)
next
  case (Cons m messages)
  let ?w1 = "after K (Sys_send (sock_fd s) m 0) w"
  have "to_int32 (ret_value (respond K h (Sys_send (sock_fd s) m 0))) = int (length m)" for h
    using Cons.prems(2) by (simp add: to_int32_id)
  then have n: "send_result K s m w' = int (length m)" for w'
    by (simp add: send_result_def reply_def)
  have "connection_send K X p m w = Inr (True, ?w1)"
    using n [of w] Cons.prems(1) by (simp add: connection_send_apply Let_def)
  moreover obtain w' where "send_all K X p messages ?w1 = Inr (True, w')" "heap w' = heap ?w1"
      "handlers w' = handlers ?w1"
      "sent_bytes (sock_fd s) (trace w') = sent_bytes (sock_fd s) (trace ?w1) @ concat messages"
    using Cons.IH [of ?w1] Cons.prems by auto
  moreover have "sent_bytes (sock_fd s) (trace ?w1) = sent_bytes (sock_fd s) (trace w) @ m"
    using n [of w] by (simp add: send_result_def)
  ultimately show ?case
    by (simp add: prog_simps)
qed


text \<open>
  C22. A partial flush loses the order of the stream: after the kernel took \<open>n\<close> bytes of the front
  message and then, at the next flush, all it is offered, the first \<open>n\<close> bytes are on the stream
  twice.
\<close>

theorem partial_flush_duplicates:
  assumes "heap w p = Some s" and "handler_wf (handlers w (shandler s))"
    and "send_buffer s = front # rest"
    and "send_result K s front w = int n" and "n < length front"
    and "send_result K s front (after K (Sys_send (sock_fd s) front 0) w) = int (length front)"
  shows "\<exists>w' s'. andThen (connection_send_flush K X p) (\<lambda>_. connection_send_flush K X p) w = Inr ((), w') \<and>
    heap w' p = Some s' \<and> send_buffer s' = rest \<and>
    sent_bytes (sock_fd s) (trace w') = sent_bytes (sock_fd s) (trace w) @ take n front @ front"
proof -
  let ?w1 = "after K (Sys_send (sock_fd s) front 0) w"
  have "connection_send_flush K X p w = Inr ((), ?w1)"
    using assms by (simp add: connection_send_flush_apply Let_def)
  moreover have "sent_bytes (sock_fd s) (trace ?w1) = sent_bytes (sock_fd s) (trace w) @ take n front"
    using assms(4) by (simp add: send_result_def)
  ultimately show ?thesis
    using flush_stream [of ?w1 p s front rest K X] assms by (auto simp: prog_simps)
qed

text \<open>
  C31. Receiving, with a kernel that returns the number of bytes it wrote: an error runs the \<open>ERROR\<close>
  action and keeps the connection open; an end of stream closes it, which takes the descriptor out
  of the handler before the \<open>CLOSED\<close> action runs; otherwise the \<open>RECV\<close> action gets exactly the bytes
  the kernel wrote.
\<close>

theorem recv_outcome:
  fixes K s w
  defines "r \<equiv> reply K (Sys_recv (sock_fd s) RECV_BUFFER_SIZE 0) w"
    and "w1 \<equiv> after K (Sys_recv (sock_fd s) RECV_BUFFER_SIZE 0) w"
  assumes "heap w p = Some s" and "handler_wf (handlers w (shandler s))" and "0 \<le> sock_fd s"
    and "ret_value r = -1 \<or> ret_value r = int (length (ret_data r)) \<and> length (ret_data r) \<le> RECV_BUFFER_SIZE"
  shows "\<exists>w2. connection_recv K X p w =
      (if ret_value r = -1 then andThen (X (Socket_obj p) ERROR (A_error ''recv'' (ret_errno r))) (\<lambda>_. ret (-1)) w1
       else if ret_data r = [] then andThen (X (Socket_obj p) CLOSED A_none) (\<lambda>_. ret 0) w2
       else andThen (X (Socket_obj p) RECV (A_bytes (ret_data r))) (\<lambda>_. ret (int (length (ret_data r)))) w1) \<and>
    heap w2 = (heap w)(p \<mapsto> s\<lparr>sock_fd := -1\<rparr>) \<and>
    registry (handlers w2 (shandler s)) = (registry (handlers w (shandler s)))(sock_fd s := None)"
proof -
  have small: "to_int32 (int (length (ret_data r))) = int (length (ret_data r))"
    if "length (ret_data r) \<le> RECV_BUFFER_SIZE"
    using that by (simp add: to_int32_id RECV_BUFFER_SIZE_def)
  have data: "take (length (ret_data r)) (filled_buffer (ret_data r)) = ret_data r"
    if "length (ret_data r) \<le> RECV_BUFFER_SIZE"
    using that by (simp add: filled_buffer_def write_at_def)
  have w1: "heap w1 p = Some s" "handler_wf (handlers w1 (shandler s))"
    using assms(3,4) by (simp_all add: w1_def)
  obtain h' w2 where w2: "sock_close K X p w1 = X (Socket_obj p) CLOSED A_none w2"
      "w2 = (after K (Sys_close (sock_fd s)) (set_handler (shandler s) h' w1))
        \<lparr>heap := (heap w1)(p \<mapsto> s\<lparr>sock_fd := -1\<rparr>)\<rparr>"
      "registry h' = (registry (handlers w1 (shandler s)))(sock_fd s := None)"
    by (rule sock_close_law [OF w1 assms(5)])
  have errno: "ret_value r = -1 \<Longrightarrow> errno w1 = ret_errno r"
    by (simp add: w1_def r_def after_def)
  have "connection_recv K X p w =
      (if ret_value r = -1 then andThen (X (Socket_obj p) ERROR (A_error ''recv'' (ret_errno r))) (\<lambda>_. ret (-1)) w1
       else if ret_data r = [] then andThen (X (Socket_obj p) CLOSED A_none) (\<lambda>_. ret 0) w2
       else andThen (X (Socket_obj p) RECV (A_bytes (ret_data r))) (\<lambda>_. ret (int (length (ret_data r)))) w1)"
    using assms(3,6) small data errno w2(1)
    by (auto simp: connection_recv_def prog_simps r_def [symmetric] w1_def [symmetric] Let_def
        split: sum.splits)
  then show ?thesis
    using w2(2,3) by (intro exI [of _ w2]) (simp add: w1_def)
qed

section \<open>Witnesses\<close>

text \<open>A connection with descriptor 3 and the given buffer; a kernel that takes at most five bytes once.\<close>

definition connected :: "bytes list \<Rightarrow> world" where
  "connected b = (one_socket Tcp_connection)\<lparr>heap := [0 \<mapsto> (new_sock Tcp_connection 0 3)\<lparr>send_buffer := b\<rparr>]\<rparr>"

definition choking_kernel :: kernel where
  "choking_kernel = demo_kernel (\<lambda>h c. case c of
     Sys_send fd b fl \<Rightarrow> if length h = 1 then Some (plain_ret (min 2 (int (length b)))) else None
   | _ \<Rightarrow> None)"

lemma connected_simps:
  "heap (connected b) 0 = Some ((new_sock Tcp_connection 0 3)\<lparr>send_buffer := b\<rparr>)"
  "handler_wf (handlers (connected b) 0)" "registry (handlers (connected b) 0) = [3 \<mapsto> (0, True, False)]"
  "trace (connected b) = [(Sys_socket 2 1 0, plain_ret 3)]"
  using one_socket_registry [of Tcp_connection]
  by (simp_all add: connected_def) (simp add: one_socket_def)

lemma choking_send:
  "reply choking_kernel (Sys_send fd b fl) w =
    plain_ret (if length (trace w) = 1 then min 2 (int (length b)) else int (length b))"
  by (simp add: reply_def choking_kernel_def demo_kernel_def)

theorem send_accounts_for_message_witness:
  "\<exists>w'. connection_send choking_kernel (\<lambda>_ _ _. ret ()) 0 [1, 2, 3] (connected []) = Inr (True, w') \<and>
    sent_bytes 3 (trace w') = [1, 2] \<and> registry (handlers w' 0) = [3 \<mapsto> (0, True, True)]"
  using send_accounts_for_message [OF connected_simps(1), of "[]" choking_kernel "[1, 2, 3]" "\<lambda>_ _ _. ret ()"]
  by (auto simp: connected_simps new_sock_def send_result_def choking_send plain_ret_def sent_bytes_def
      numeral_2_eq_2)

theorem send_overtakes_pending_witness:
  "\<exists>w' s'. connection_send (demo_kernel (\<lambda>_ _. None)) (\<lambda>_ _ _. ret ()) 0 [3] (connected [[1, 2]]) = Inr (True, w')
    \<and> heap w' 0 = Some s' \<and> sent_bytes 3 (trace w') @ pending_bytes s' = [3, 1, 2]"
  using send_overtakes_pending [OF connected_simps(1), of "[[1, 2]]" "demo_kernel (\<lambda>_ _. None)" "[3]" "\<lambda>_ _ _. ret ()"]
  by (auto simp: connected_simps new_sock_def send_result_def demo_kernel_def reply_def plain_ret_def
      sent_bytes_def pending_bytes_def)

theorem flush_outcome_witness:
  "\<exists>w'. connection_send_flush choking_kernel (\<lambda>_ _ _. ret ()) 0 (connected [[1, 2, 3]]) = Inr ((), w') \<and>
    sent_bytes 3 (trace w') = [1, 2]"
  using flush_outcome [OF connected_simps(1), of "[[1, 2, 3]]" "[1, 2, 3]" "[]" choking_kernel "\<lambda>_ _ _. ret ()"]
  by (auto simp: connected_simps new_sock_def send_result_def choking_send plain_ret_def sent_bytes_def
      numeral_2_eq_2)

theorem partial_flush_duplicates_witness:
  "\<exists>w'. andThen (connection_send_flush choking_kernel (\<lambda>_ _ _. ret ()) 0)
      (\<lambda>_. connection_send_flush choking_kernel (\<lambda>_ _ _. ret ()) 0) (connected [[1, 2, 3]]) = Inr ((), w') \<and>
    sent_bytes 3 (trace w') = [1, 2, 1, 2, 3]"
  using partial_flush_duplicates [OF connected_simps(1), of "[[1, 2, 3]]" "[1, 2, 3]" "[]" choking_kernel 2
      "\<lambda>_ _ _. ret ()"]
  by (auto simp: connected_simps new_sock_def send_result_def choking_send plain_ret_def sent_bytes_def
      numeral_2_eq_2)

theorem sends_are_fifo_witness:
  "\<exists>w'. send_all (demo_kernel (\<lambda>_ _. None)) (\<lambda>_ _ _. ret ()) 0 [[1, 2], [3]] (connected []) = Inr (True, w') \<and>
    sent_bytes 3 (trace w') = [1, 2, 3]"
proof -
  have "ret_value (respond (demo_kernel (\<lambda>_ _. None)) h (Sys_send fd m 0)) = int (length m)" for h fd m
    by (simp add: demo_kernel_def plain_ret_def)
  then show ?thesis
    using sends_are_fifo [OF connected_simps(1), of "[[1, 2], [3]]" "demo_kernel (\<lambda>_ _. None)" "[]"
        "\<lambda>_ _ _. ret ()"]
    by (auto simp: connected_simps new_sock_def sent_bytes_def simp del: send_all.simps)
qed

definition talking_kernel :: kernel where
  "talking_kernel = demo_kernel (\<lambda>h c. case c of
     Sys_recv fd n fl \<Rightarrow> Some ((plain_ret 3)\<lparr>ret_data := [7, 8, 9]\<rparr>) | _ \<Rightarrow> None)"

theorem recv_outcome_witness:
  "\<exists>w'. connection_recv talking_kernel (\<lambda>ob t a. if (ob, t, a) = (Socket_obj 0, RECV, A_bytes [7, 8, 9])
      then ret () else raise Misuse) 0 (connected []) = Inr (3, w')"
  using recv_outcome [where K = talking_kernel and w = "connected []" and p = 0
      and s = "(new_sock Tcp_connection 0 3)\<lparr>send_buffer := []\<rparr>"
      and X = "\<lambda>ob t a. if (ob, t, a) = (Socket_obj 0, RECV, A_bytes [7, 8, 9]) then ret () else raise Misuse"]
  by (auto simp: connected_simps new_sock_def talking_kernel_def demo_kernel_def reply_def plain_ret_def
      RECV_BUFFER_SIZE_def prog_simps)

end
