(* ===== verification/Tcp_Server.thy ===== *)
theory Tcp_Server
  imports Tcp_Connection
begin

text \<open>
  \<^verbatim>\<open>tcp::server_impl\<close> (\<^verbatim>\<open>includes/tcp/server.hpp\<close>): listening sockets and accepted clients in two
  containers on one handler, and the lambdas that map events of the sockets to actions of the
  server.
\<close>

section \<open>Operations\<close>

definition SOCK_STREAM :: int where "SOCK_STREAM = 1"

definition server_ctor :: "sid \<Rightarrow> hid option \<Rightarrow> unit act" where
  "server_ctor i external_handler =
     andThen (pollable_entity external_handler) (\<lambda>h.
     update (\<lambda>w. w\<lparr>servers := (servers w)(i :=
       \<lparr>srv_handler = h, srv_actions = (\<lambda>_. []), listeners_container = new_container h,
         clients_container = new_container h\<rparr>)\<rparr>))"

definition server_close :: "kernel \<Rightarrow> executor \<Rightarrow> nat \<Rightarrow> sid \<Rightarrow> unit act" where
  "server_close K X fuel i =
     andThen (container_close K X fuel (Clients i)) (\<lambda>_. container_close K X fuel (Listeners i))"

text \<open>
  The error paths of \<^verbatim>\<open>listen\<close> all run the server's \<open>ERROR\<close> action, close the socket and return
  false.
\<close>

definition inet_family :: "bool \<Rightarrow> family" where
  "inet_family use_IPv6 = (if use_IPv6 then AF_INET6 else AF_INET)"

definition inet_sockaddr :: "bool \<Rightarrow> sockaddr_type" where
  "inet_sockaddr use_IPv6 = (if use_IPv6 then Sockaddr_in6 else Sockaddr_in)"

definition listen_failure :: "kernel \<Rightarrow> executor \<Rightarrow> sid \<Rightarrow> ptr \<Rightarrow> string \<Rightarrow> bool act" where
  "listen_failure K X i socket func =
     andThen (reads errno) (\<lambda>e.
     andThen (X (Server_obj i) ERROR (A_error func e)) (\<lambda>_.
     andThen (sock_close K X socket) (\<lambda>_. ret False)))"

definition server_listen :: "kernel \<Rightarrow> executor \<Rightarrow> sid \<Rightarrow> string \<Rightarrow> ushort \<Rightarrow> bool \<Rightarrow> bool act" where
  "server_listen K X i hostname port use_IPv6 =
     andThen (make_socket K (Listeners i) (uint (inet_family use_IPv6)) SOCK_STREAM 0) (\<lambda>made.
     case made of
       None \<Rightarrow>
         andThen (reads errno) (\<lambda>e.
         andThen (X (Server_obj i) ERROR (A_error ''socket'' e)) (\<lambda>_. ret False))
     | Some socket \<Rightarrow>
         andThen (on (Socket_obj socket) CLOSED (Server_closed i socket) (flag_value DEFAULT)) (\<lambda>_.
         andThen (get_sock socket) (\<lambda>s.
         andThen (addrinfo (world_resolver K) (address s) hostname (inet_family use_IPv6)) (\<lambda>(result, a).
         andThen (put_sock socket (\<lambda>s. s\<lparr>address := a\<rparr>)) (\<lambda>_.
         if result \<noteq> AI_SUCCESS then listen_failure K X i socket ''getaddrinfo''
         else
           andThen (lift_fault (set_port (inet_sockaddr use_IPv6) port a)) (\<lambda>a'.
           andThen (put_sock socket (\<lambda>s. s\<lparr>address := a'\<rparr>)) (\<lambda>_.
           andThen (sock_bind K X socket) (\<lambda>bound.
           if \<not> bound then listen_failure K X i socket ''bind''
           else
             andThen (connection_listen K socket) (\<lambda>listening.
             if \<not> listening then listen_failure K X i socket ''listen''
             else
               andThen (on (Socket_obj socket) READABLE (Server_accept i socket) (flag_value DEFAULT)) (\<lambda>_.
               andThen (X (Server_obj i) LISTEN (A_connection socket)) (\<lambda>_.
               ret True)))))))))))"

definition server_accept :: "kernel \<Rightarrow> executor \<Rightarrow> sid \<Rightarrow> ptr \<Rightarrow> unit act" where
  "server_accept K X i connection =
     andThen (get_socket connection) (\<lambda>listener.
     andThen (require AssertFailed (\<lambda>_. listener \<ge> 0)) (\<lambda>_.
     andThen (sys K (Sys_accept listener ADDRESS_STORAGE_SIZE)) (\<lambda>r.
     let socket = ret_value r;
         addr = (case ret_addr r of None \<Rightarrow> new_address
                 | Some b \<Rightarrow> write_at 0 (take ADDRESS_STORAGE_SIZE b) new_address) in
     if socket < 0 then
       andThen (reads errno) (\<lambda>e. X (Server_obj i) ERROR (A_error ''accept'' e))
     else
       andThen (make_socket_fd (Clients i) socket) (\<lambda>made.
       case made of
         None \<Rightarrow> X (Server_obj i) ERROR (A_error ''insert'' 0)
       | Some client \<Rightarrow>
           andThen (put_sock client (\<lambda>s. s\<lparr>address := addr\<rparr>)) (\<lambda>_.
           andThen (on (Socket_obj client) READABLE (Connection_recv client) (flag_value DEFAULT)) (\<lambda>_.
           andThen (on (Socket_obj client) WRITEABLE (Connection_send_flush client) (flag_value DEFAULT)) (\<lambda>_.
           andThen (on (Socket_obj client) CLOSED (Server_disconnect i client) (flag_value DEFAULT)) (\<lambda>_.
           andThen (on (Socket_obj client) RECV (Server_receive i client) (flag_value DEFAULT)) (\<lambda>_.
           X (Server_obj i) ACCEPT (A_connection client))))))))))"

section \<open>Monotonicity\<close>

lemma approx_server_close [approx_rules]:
  "(\<And>ob t a. approx ft (X ob t a) (X' ob t a)) \<Longrightarrow> n = n' \<or> n \<le> n' \<and> ft = OutOfFuel \<Longrightarrow>
   approx ft (server_close K X n i) (server_close K X' n' i)"
  unfolding server_close_def by (auto intro!: approx_rules)

lemma approx_listen_failure [approx_rules]:
  "(\<And>ob t a. approx ft (X ob t a) (X' ob t a)) \<Longrightarrow>
   approx ft (listen_failure K X i p f) (listen_failure K X' i p f)"
  unfolding listen_failure_def by (auto intro!: approx_rules)

lemma approx_server_listen [approx_rules]:
  "(\<And>ob t a. approx ft (X ob t a) (X' ob t a)) \<Longrightarrow>
   approx ft (server_listen K X i host port v6) (server_listen K X' i host port v6)"
  unfolding server_listen_def by (auto intro!: approx_rules simp: case_prod_beta)

lemma approx_server_accept [approx_rules]:
  "(\<And>ob t a. approx ft (X ob t a) (X' ob t a)) \<Longrightarrow>
   approx ft (server_accept K X i p) (server_accept K X' i p)"
  unfolding server_accept_def Let_def by (auto intro!: approx_rules)

section \<open>Wiring of accepted clients and listeners\<close>

definition accepted_sock :: "sid \<Rightarrow> ptr \<Rightarrow> hid \<Rightarrow> int \<Rightarrow> saddr \<Rightarrow> sock" where
  "accepted_sock i p h fd addr = (new_sock Tcp_connection h fd)\<lparr>address := addr, sactions := (\<lambda>_. [])(
     READABLE := [\<lparr>exec = Connection_recv p, flags = 0\<rparr>],
     WRITEABLE := [\<lparr>exec = Connection_send_flush p, flags = 0\<rparr>],
     CLOSED := [\<lparr>exec = Server_disconnect i p, flags = 0\<rparr>, erase_callback (Clients i) fd],
     RECV := [\<lparr>exec = Server_receive i p, flags = 0\<rparr>])\<rparr>"

lemma accept_wiring:
  fixes K l w
  defines "r \<equiv> reply K (Sys_accept l ADDRESS_STORAGE_SIZE) w"
    and "w1 \<equiv> after K (Sys_accept l ADDRESS_STORAGE_SIZE) w"
  assumes "heap w q = Some ls" and "sock_fd ls = l" and "0 \<le> l" and "0 < ret_value r"
    and "map_wf (c_sockets (get_container (Clients i) w))"
    and "map_find (c_sockets (get_container (Clients i) w)) (ret_value r) = None"
  shows "\<exists>addr w2. server_accept K X i q w = X (Server_obj i) ACCEPT (A_connection (next_ptr w)) w2 \<and>
     w2 = (with_socket (Clients i) (ret_value r) w1)\<lparr>heap := (heap w)(next_ptr w \<mapsto>
       accepted_sock i (next_ptr w) (c_handler (get_container (Clients i) w)) (ret_value r) addr)\<rparr>"
proof -
  let ?addr = "case ret_addr r of None \<Rightarrow> new_address
      | Some b \<Rightarrow> write_at 0 (take ADDRESS_STORAGE_SIZE b) new_address"
  let ?h = "c_handler (get_container (Clients i) w)"
  have wf: "map_wf (c_sockets (get_container (Clients i) w1))"
      "map_find (c_sockets (get_container (Clients i) w1)) (ret_value r) = None"
    using assms by (simp_all add: w1_def)
  have "make_socket_fd (Clients i) (ret_value r) w1 =
      Inr (Some (next_ptr w), with_socket (Clients i) (ret_value r) w1)"
    using assms(6) insert_socket_free [OF wf] by (simp add: make_socket_fd_def prog_simps w1_def)
  moreover have "sys K (Sys_accept l ADDRESS_STORAGE_SIZE) w = Inr (r, w1)"
    by (simp add: sys_apply r_def w1_def)
  ultimately have "server_accept K X i q w = X (Server_obj i) ACCEPT (A_connection (next_ptr w))
     ((with_socket (Clients i) (ret_value r) w1)\<lparr>heap := (heap w)(next_ptr w \<mapsto>
       accepted_sock i (next_ptr w) ?h (ret_value r) ?addr)\<rparr>)"
    using assms(3-6)
    by (simp add: server_accept_def get_socket_def Let_def andThen_apply get_sock_apply ret_apply
        require_apply put_sock_apply on_tcp_apply w1_def accepted_sock_def stored_sock_def new_sock_def
        flag_value.simps)
  then show ?thesis by blast
qed


text \<open>
  C15. Accepting a client: a valid new descriptor whose key is free yields a connection object with
  exactly the four library callbacks (receive, flush, report the disconnection and then erase,
  report received bytes), stored under its descriptor and registered for reading, before the
  server's \<open>ACCEPT\<close> action runs on it.
\<close>

theorem accept_wires_client:
  fixes K w i q
  defines "c \<equiv> Clients i"
  assumes "heap w q = Some ls" and "0 \<le> sock_fd ls"
    and "ret_value (reply K (Sys_accept (sock_fd ls) ADDRESS_STORAGE_SIZE) w) = fd" and "0 < fd"
    and "map_wf (c_sockets (get_container c w))"
    and "map_find (c_sockets (get_container c w)) fd = None"
    and "handler_wf (handlers w (c_handler (get_container c w)))"
    and "registry (handlers w (c_handler (get_container c w))) fd = None"
  shows "\<exists>addr w2. server_accept K X i q w = X (Server_obj i) ACCEPT (A_connection (next_ptr w)) w2 \<and>
     heap w2 = (heap w)(next_ptr w \<mapsto>
       accepted_sock i (next_ptr w) (c_handler (get_container c w)) fd addr) \<and>
     map_find (c_sockets (get_container c w2)) =
       (map_find (c_sockets (get_container c w)))(fd \<mapsto> next_ptr w) \<and>
     registry (handlers w2 (c_handler (get_container c w))) =
       (registry (handlers w (c_handler (get_container c w))))(fd \<mapsto> (next_ptr w, True, False))"
proof -
  let ?w1 = "after K (Sys_accept (sock_fd ls) ADDRESS_STORAGE_SIZE) w"
  obtain addr w2 where "server_accept K X i q w = X (Server_obj i) ACCEPT (A_connection (next_ptr w)) w2"
      "w2 = (with_socket c fd ?w1)\<lparr>heap := (heap w)(next_ptr w \<mapsto>
         accepted_sock i (next_ptr w) (c_handler (get_container c w)) fd addr)\<rparr>"
    using accept_wiring [of w q ls "sock_fd ls" K i X] assms by auto
  moreover have "map_find (fst (map_insert fd (next_ptr w) (c_sockets (get_container c w)))) =
      (map_find (c_sockets (get_container c w)))(fd \<mapsto> next_ptr w)"
    using std_map.insert_law [OF assms(6)] assms(7) by simp
  moreover have "registry (add_socket fd (next_ptr w) (handlers w (c_handler (get_container c w)))) =
      (registry (handlers w (c_handler (get_container c w))))(fd \<mapsto> (next_ptr w, True, False))"
    using poll.add_law [OF assms(8,9)] by blast
  ultimately show ?thesis
    by (intro exI [of _ addr] exI [of _ w2]) simp
qed

text \<open>A kernel that resolves the name at once, as documented for a hint with a family.\<close>

definition resolves_at_once :: "kernel \<Rightarrow> string \<Rightarrow> family \<Rightarrow> bool" where
  "resolves_at_once K host fam \<longleftrightarrow> (\<forall>h. ret_value (respond K h (Lib_getaddrinfo host fam)) = 0 \<and>
     (case ret_addr (respond K h (Lib_getaddrinfo host fam)) of None \<Rightarrow> False
      | Some b \<Rightarrow> 2 \<le> length b \<and> length b \<le> 128 \<and> b ! 1 = fam))"

lemma resolved_address:
  assumes "resolves_at_once K host (inet_family six)"
  shows "\<exists>a. addrinfo (world_resolver K) new_address host (inet_family six) w =
      Inr ((AI_SUCCESS, a), after K (Lib_getaddrinfo host (inet_family six)) w) \<and>
    (\<exists>a'. set_port (inet_sockaddr six) port a = Inr a')"
proof -
  let ?c = "Lib_getaddrinfo host (inet_family six)"
  obtain b where b: "ret_addr (reply K ?c w) = Some b" "2 \<le> length b" "length b \<le> 128"
      "b ! 1 = inet_family six" "ret_value (reply K ?c w) = 0"
    using assms by (auto simp: resolves_at_once_def reply_def split: option.splits dest: spec [of _ "trace w"])
  have "addrinfo (world_resolver K) new_address host (inet_family six) w =
      Inr ((AI_SUCCESS, write_at 0 b new_address), after K ?c w)"
    using b by (subst addrinfo_immediate) (simp_all add: world_resolver_def answer_def)
  moreover have "sa_family (write_at 0 b new_address) = inet_family six"
    using sa_family_write [OF b(2,3), of new_address] b(4) by (simp add: address_wf_def new_address_def)
  then have "\<exists>a'. set_port (inet_sockaddr six) port (write_at 0 b new_address) = Inr a'"
    by (simp add: set_port_def to_type_def inet_sockaddr_def inet_family_def split: if_splits)
  ultimately show ?thesis by blast
qed

definition listening_sock :: "sid \<Rightarrow> ptr \<Rightarrow> hid \<Rightarrow> int \<Rightarrow> saddr \<Rightarrow> sock" where
  "listening_sock i p h fd addr = (new_sock Tcp_connection h fd)\<lparr>address := addr, sactions := (\<lambda>_. [])(
     CLOSED := [\<lparr>exec = Server_closed i p, flags = 0\<rparr>, erase_callback (Listeners i) fd],
     READABLE := [\<lparr>exec = Server_accept i p, flags = 0\<rparr>])\<rparr>"

lemma listen_wiring:
  fixes K w i six
  defines "sc \<equiv> Sys_socket (uint (inet_family six)) SOCK_STREAM 0"
    and "c \<equiv> Listeners i"
  assumes fd: "ret_value (reply K sc w) = fd" "0 \<le> fd"
    and "map_wf (c_sockets (get_container c w))" and "map_find (c_sockets (get_container c w)) fd = None"
    and res: "resolves_at_once K host (inet_family six)"
    and ok: "\<And>h a n. 0 \<le> ret_value (respond K h (Sys_bind fd a n))"
      "\<And>h n. 0 \<le> ret_value (respond K h (Sys_listen fd n))"
  shows "\<exists>addr w2. server_listen K X i host port six w =
      andThen (X (Server_obj i) LISTEN (A_connection (next_ptr w))) (\<lambda>_. ret True) w2 \<and>
    heap w2 = (heap w)(next_ptr w \<mapsto> listening_sock i (next_ptr w) (c_handler (get_container c w)) fd addr) \<and>
    handlers w2 = handlers (with_socket c fd (after K sc w)) \<and>
    get_container c w2 = get_container c (with_socket c fd (after K sc w)) \<and>
    (\<forall>j. srv_actions (servers w2 j) = srv_actions (servers w j))"
proof -
  let ?p = "next_ptr w"
  let ?w1 = "with_socket c fd (after K sc w)"
  let ?s = "\<lambda>a'. (stored_sock c (c_handler (get_container c w)) fd)\<lparr>address := a',
     sactions := (\<lambda>_. [])(CLOSED := [\<lparr>exec = Server_closed i ?p, flags = 0\<rparr>, erase_callback c fd])\<rparr>"
  let ?w2 = "?w1\<lparr>heap := (heap ?w1)(?p \<mapsto> ?s new_address)\<rparr>"
  let ?w3 = "after K (Lib_getaddrinfo host (inet_family six)) ?w2"
  obtain a a' where a: "addrinfo (world_resolver K) new_address host (inet_family six) ?w2 =
      Inr ((AI_SUCCESS, a), ?w3)" "set_port (inet_sockaddr six) port a = Inr a'"
    using resolved_address [OF res, of ?w2 port] by blast
  let ?w4 = "after K (Sys_listen fd 10) (after K (Sys_bind fd a' (sa_size a'))
      (?w3\<lparr>heap := (heap ?w3)(?p \<mapsto> ?s a')\<rparr>))"
  have made: "make_socket K c (uint (inet_family six)) SOCK_STREAM 0 w = Inr (Some ?p, ?w1)"
    using make_socket_free [OF fd [unfolded sc_def] assms(5,6)] by (simp add: sc_def)
  have "on (Socket_obj ?p) CLOSED (Server_closed i ?p) (flag_value DEFAULT) ?w1 = Inr ((), ?w2)"
    by (simp add: on_tcp_apply stored_sock_def new_sock_def flag_value.simps)
  then have "server_listen K X i host port six w =
      andThen (X (Server_obj i) LISTEN (A_connection ?p)) (\<lambda>_. ret True)
        (?w4\<lparr>heap := (heap w)(?p \<mapsto> listening_sock i ?p (c_handler (get_container c w)) fd a')\<rparr>)"
    using made a ok
    by (simp add: server_listen_def andThen_apply get_sock_apply put_sock_apply on_tcp_apply ret_apply
      lift_fault_def connection_listen_apply sock_bind_apply
      stored_sock_def new_sock_def flag_value.simps listening_sock_def c_def)
  then show ?thesis
    by (intro exI conjI) (assumption, simp_all)
qed


text \<open>
  C30. Listening, with a kernel that resolves the name, binds and listens: the new listener has the
  callbacks that accept clients, report its closing and erase it; it is stored and registered, and
  the server's \<open>LISTEN\<close> action runs on it before true is returned.
\<close>

theorem listen_wires_listener:
  fixes K w i
  defines "c \<equiv> Listeners i"
  assumes "ret_value (reply K (Sys_socket (uint (inet_family six)) SOCK_STREAM 0) w) = fd" and "0 \<le> fd"
    and "map_wf (c_sockets (get_container c w))" and "map_find (c_sockets (get_container c w)) fd = None"
    and "handler_wf (handlers w (c_handler (get_container c w)))"
    and "registry (handlers w (c_handler (get_container c w))) fd = None"
    and "resolves_at_once K host (inet_family six)"
    and "\<And>h a n. 0 \<le> ret_value (respond K h (Sys_bind fd a n))"
    and "\<And>h n. 0 \<le> ret_value (respond K h (Sys_listen fd n))"
  shows "\<exists>addr w2. server_listen K X i host port six w =
      andThen (X (Server_obj i) LISTEN (A_connection (next_ptr w))) (\<lambda>_. ret True) w2 \<and>
    heap w2 = (heap w)(next_ptr w \<mapsto> listening_sock i (next_ptr w) (c_handler (get_container c w)) fd addr) \<and>
    map_find (c_sockets (get_container c w2)) = (map_find (c_sockets (get_container c w)))(fd \<mapsto> next_ptr w) \<and>
    registry (handlers w2 (c_handler (get_container c w))) =
      (registry (handlers w (c_handler (get_container c w))))(fd \<mapsto> (next_ptr w, True, False))"
proof -
  obtain addr w2 where "server_listen K X i host port six w =
      andThen (X (Server_obj i) LISTEN (A_connection (next_ptr w))) (\<lambda>_. ret True) w2"
    "heap w2 = (heap w)(next_ptr w \<mapsto> listening_sock i (next_ptr w) (c_handler (get_container c w)) fd addr)"
    "handlers w2 = handlers (with_socket c fd (after K (Sys_socket (uint (inet_family six)) SOCK_STREAM 0) w))"
    "get_container c w2 =
       get_container c (with_socket c fd (after K (Sys_socket (uint (inet_family six)) SOCK_STREAM 0) w))"
    using listen_wiring [of K six w fd i host X port] assms by auto
  moreover have "map_find (fst (map_insert fd (next_ptr w) (c_sockets (get_container c w)))) =
      (map_find (c_sockets (get_container c w)))(fd \<mapsto> next_ptr w)"
    using std_map.insert_law [OF assms(4)] assms(5) by simp
  moreover have "registry (add_socket fd (next_ptr w) (handlers w (c_handler (get_container c w)))) =
      (registry (handlers w (c_handler (get_container c w))))(fd \<mapsto> (next_ptr w, True, False))"
    using poll.add_law [OF assms(6,7)] by blast
  ultimately show ?thesis
    by (intro exI [of _ addr] exI [of _ w2]) simp
qed

section \<open>Witnesses\<close>

text \<open>A server and a client on handler 0, without sockets, next to a listener object.\<close>

definition listener_world :: world where
  "listener_world = empty_world\<lparr>heap := [0 \<mapsto> new_sock Tcp_connection 0 2], next_ptr := 1\<rparr>"

lemma listener_world_simps [simp]:
  "heap listener_world = [0 \<mapsto> new_sock Tcp_connection 0 2]" "next_ptr listener_world = 1"
  "handlers listener_world h = new_handler 0" "trace listener_world = []"
  "get_container c listener_world = \<lparr>c_handler = 0, c_sockets = []\<rparr>"
  by (simp_all add: listener_world_def empty_world_def) (cases c; simp)

lemma demo_accept:
  "ret_value (reply (demo_kernel (\<lambda>_ _. None)) (Sys_accept fd n) w) = 3 + int (length (trace w))"
  by (simp add: reply_def demo_kernel_def plain_ret_def)

lemma demo_nonneg: "0 \<le> ret_value (respond (demo_kernel (\<lambda>_ _. None)) h c)"
  by (cases c) (simp_all add: demo_kernel_def plain_ret_def)

lemma demo_resolves: "resolves_at_once (demo_kernel (\<lambda>_ _. None)) host fam"
  by (simp add: resolves_at_once_def demo_kernel_def plain_ret_def)

theorem accept_wires_client_witness:
  "\<exists>addr w2. server_accept (demo_kernel (\<lambda>_ _. None)) (\<lambda>_ _ _. ret ()) 0 0 listener_world = Inr ((), w2) \<and>
    heap w2 1 = Some (accepted_sock 0 1 0 3 addr) \<and>
    map_find (c_sockets (get_container (Clients 0) w2)) = [3 \<mapsto> 1]"
  using accept_wires_client [where K = "demo_kernel (\<lambda>_ _. None)" and w = listener_world and i = 0 and q = 0
      and ls = "new_sock Tcp_connection 0 2" and fd = 3 and X = "\<lambda>_ _ _. ret ()"]
  by (auto simp: demo_accept handler_wf_new new_sock_def map_find_map_of ret_apply)

theorem listen_wires_listener_witness:
  "\<exists>addr w2. server_listen (demo_kernel (\<lambda>_ _. None)) (\<lambda>_ _ _. ret ()) 0 ''localhost'' 80 True listener_world =
      Inr (True, w2) \<and> heap w2 1 = Some (listening_sock 0 1 0 3 addr)"
  using listen_wires_listener [where K = "demo_kernel (\<lambda>_ _. None)" and w = listener_world and i = 0
      and six = True and fd = 3 and host = "''localhost''" and port = 80 and X = "\<lambda>_ _ _. ret ()"]
  by (auto simp: plain_ret_def handler_wf_new map_find_map_of prog_simps demo_resolves demo_nonneg)

end
