(* ===== verification/Tcp_Client.thy ===== *)
theory Tcp_Client
  imports Tcp_Server
begin

text \<open>
  \<^verbatim>\<open>tcp::client_impl\<close> (\<^verbatim>\<open>includes/tcp/client.hpp\<close>): outgoing connections in one container.
  The member \<^verbatim>\<open>send\<close> of the client iterates over \<^verbatim>\<open>this->sockets\<close>, a name the class does not have
  (the container is a member), so it does not compile when used and is not modelled.
\<close>

section \<open>Operations\<close>

text \<open>
  The constructor with a handler; the default constructor copies the entity's own handler pointer
  before it is initialised.
\<close>

definition client_ctor :: "sid \<Rightarrow> hid \<Rightarrow> unit act" where
  "client_ctor i h =
     update (\<lambda>w. w\<lparr>clients := (clients w)(i :=
       \<lparr>cl_handler = h, cl_actions = (\<lambda>_. []), cl_container = new_container h\<rparr>)\<rparr>)"

definition client_default_ctor :: "sid \<Rightarrow> unit act" where
  "client_default_ctor i = raise Uninitialised"

definition client_close :: "kernel \<Rightarrow> executor \<Rightarrow> nat \<Rightarrow> sid \<Rightarrow> unit act" where
  "client_close K X fuel i = container_close K X fuel (Connections i)"

definition client_connect :: "kernel \<Rightarrow> executor \<Rightarrow> sid \<Rightarrow> string \<Rightarrow> ushort \<Rightarrow> bool \<Rightarrow> bool act" where
  "client_connect K X i hostname port use_IPv6 =
     andThen (make_socket K (Connections i) (uint (inet_family use_IPv6)) SOCK_STREAM 0) (\<lambda>made.
     case made of
       None \<Rightarrow>
         andThen (reads errno) (\<lambda>e.
         andThen (X (Client_obj i) ERROR (A_error ''socket'' e)) (\<lambda>_. ret False))
     | Some conn \<Rightarrow>
         andThen (on (Socket_obj conn) CLOSED (Client_closed i conn) (flag_value DEFAULT)) (\<lambda>_.
         andThen (get_sock conn) (\<lambda>s.
         andThen (addrinfo (world_resolver K) (address s) hostname (inet_family use_IPv6)) (\<lambda>(result, a).
         andThen (put_sock conn (\<lambda>s. s\<lparr>address := a\<rparr>)) (\<lambda>_.
         if result \<noteq> AI_SUCCESS then
           andThen (reads errno) (\<lambda>e.
           andThen (X (Client_obj i) ERROR (A_error ''getaddrinfo'' e)) (\<lambda>_.
           andThen (sock_close K X conn) (\<lambda>_. ret False)))
         else
           andThen (lift_fault (set_port (inet_sockaddr use_IPv6) port a)) (\<lambda>a'.
           andThen (put_sock conn (\<lambda>s. s\<lparr>address := a'\<rparr>)) (\<lambda>_.
           andThen (connection_connect K conn) (\<lambda>connected.
           if \<not> connected then
             andThen (sock_close K X conn) (\<lambda>_.
             andThen (reads errno) (\<lambda>e.
             andThen (X (Client_obj i) ERROR (A_error ''listen'' e)) (\<lambda>_. ret False)))
           else
             andThen (on (Socket_obj conn) READABLE (Connection_recv conn) (flag_value DEFAULT)) (\<lambda>_.
             andThen (on (Socket_obj conn) RECV (Client_receive i conn) (flag_value DEFAULT)) (\<lambda>_.
             andThen (X (Client_obj i) CONNECT (A_connection conn)) (\<lambda>_.
             ret True)))))))))))"

section \<open>Monotonicity\<close>

lemma approx_client_close [approx_rules]:
  "(\<And>ob t a. approx ft (X ob t a) (X' ob t a)) \<Longrightarrow> n = n' \<or> n \<le> n' \<and> ft = OutOfFuel \<Longrightarrow>
   approx ft (client_close K X n i) (client_close K X' n' i)"
  unfolding client_close_def by (auto intro!: approx_rules)

lemma approx_client_connect [approx_rules]:
  "(\<And>ob t a. approx ft (X ob t a) (X' ob t a)) \<Longrightarrow>
   approx ft (client_connect K X i host port v6) (client_connect K X' i host port v6)"
  unfolding client_connect_def by (auto intro!: approx_rules simp: case_prod_beta)

section \<open>Wiring of connections\<close>

definition connected_sock :: "sid \<Rightarrow> ptr \<Rightarrow> hid \<Rightarrow> int \<Rightarrow> saddr \<Rightarrow> sock" where
  "connected_sock i p h fd addr = (new_sock Tcp_connection h fd)\<lparr>address := addr, sactions := (\<lambda>_. [])(
     CLOSED := [\<lparr>exec = Client_closed i p, flags = 0\<rparr>, erase_callback (Connections i) fd],
     READABLE := [\<lparr>exec = Connection_recv p, flags = 0\<rparr>],
     RECV := [\<lparr>exec = Client_receive i p, flags = 0\<rparr>])\<rparr>"

lemma connect_wiring:
  fixes K w i six
  defines "sc \<equiv> Sys_socket (uint (inet_family six)) SOCK_STREAM 0"
    and "c \<equiv> Connections i"
  assumes fd: "ret_value (reply K sc w) = fd" "0 \<le> fd"
    and "map_wf (c_sockets (get_container c w))" and "map_find (c_sockets (get_container c w)) fd = None"
    and res: "resolves_at_once K host (inet_family six)"
    and con: "\<And>h a n. 0 \<le> ret_value (respond K h (Sys_connect fd a n))"
  shows "\<exists>addr w2. client_connect K X i host port six w =
      andThen (X (Client_obj i) CONNECT (A_connection (next_ptr w))) (\<lambda>_. ret True) w2 \<and>
    heap w2 = (heap w)(next_ptr w \<mapsto> connected_sock i (next_ptr w) (c_handler (get_container c w)) fd addr) \<and>
    handlers w2 = handlers (with_socket c fd (after K sc w)) \<and>
    get_container c w2 = get_container c (with_socket c fd (after K sc w)) \<and>
    (\<forall>j. cl_actions (clients w2 j) = cl_actions (clients w j))"
proof -
  let ?p = "next_ptr w"
  let ?w1 = "with_socket c fd (after K sc w)"
  let ?w2 = "?w1\<lparr>heap := (heap ?w1)(?p \<mapsto> (stored_sock c (c_handler (get_container c w)) fd)
     \<lparr>sactions := (\<lambda>_. [])(CLOSED := [\<lparr>exec = Client_closed i ?p, flags = 0\<rparr>, erase_callback c fd])\<rparr>)\<rparr>"
  let ?s = "\<lambda>a'. (stored_sock c (c_handler (get_container c w)) fd)\<lparr>address := a',
     sactions := (\<lambda>_. [])(CLOSED := [\<lparr>exec = Client_closed i ?p, flags = 0\<rparr>, erase_callback c fd])\<rparr>"
  let ?w3 = "after K (Lib_getaddrinfo host (inet_family six)) ?w2"
  obtain a a' where a: "addrinfo (world_resolver K) new_address host (inet_family six) ?w2 =
      Inr ((AI_SUCCESS, a), ?w3)" "set_port (inet_sockaddr six) port a = Inr a'"
    using resolved_address [OF res, of ?w2 port] by blast
  have made: "make_socket K c (uint (inet_family six)) SOCK_STREAM 0 w = Inr (Some ?p, ?w1)"
    using make_socket_free [OF fd [unfolded sc_def] assms(5,6)] by (simp add: sc_def)
  have "on (Socket_obj ?p) CLOSED (Client_closed i ?p) (flag_value DEFAULT) ?w1 = Inr ((), ?w2)"
    by (simp add: on_tcp_apply stored_sock_def new_sock_def flag_value.simps)
  then have "client_connect K X i host port six w =
      andThen (X (Client_obj i) CONNECT (A_connection ?p)) (\<lambda>_. ret True)
        ((after K (Sys_connect fd a' (sa_size a')) (?w3\<lparr>heap := (heap ?w3)(?p \<mapsto> ?s a')\<rparr>))
          \<lparr>heap := (heap w)(?p \<mapsto> connected_sock i ?p (c_handler (get_container c w)) fd a')\<rparr>)"
    using made a con
    by (simp add: client_connect_def andThen_apply get_sock_apply put_sock_apply on_tcp_apply ret_apply
      lift_fault_def connection_connect_apply
      stored_sock_def new_sock_def flag_value.simps connected_sock_def c_def)
  then show ?thesis
    by (intro exI conjI) (assumption, simp_all)
qed


text \<open>
  C29. Connecting, with a kernel that resolves the name and accepts the connection: the new
  connection object has the callbacks that receive, report received bytes, report the closing and
  erase, but none on \<open>WRITEABLE\<close>; it is stored and registered, and the client's \<open>CONNECT\<close> action runs
  on it before true is returned.
\<close>

theorem connect_wires_connection:
  fixes K w i
  defines "c \<equiv> Connections i"
  assumes "ret_value (reply K (Sys_socket (uint (inet_family six)) SOCK_STREAM 0) w) = fd" and "0 \<le> fd"
    and "map_wf (c_sockets (get_container c w))" and "map_find (c_sockets (get_container c w)) fd = None"
    and "handler_wf (handlers w (c_handler (get_container c w)))"
    and "registry (handlers w (c_handler (get_container c w))) fd = None"
    and "resolves_at_once K host (inet_family six)"
    and "\<And>h a n. 0 \<le> ret_value (respond K h (Sys_connect fd a n))"
  shows "\<exists>addr w2. client_connect K X i host port six w =
      andThen (X (Client_obj i) CONNECT (A_connection (next_ptr w))) (\<lambda>_. ret True) w2 \<and>
    heap w2 = (heap w)(next_ptr w \<mapsto> connected_sock i (next_ptr w) (c_handler (get_container c w)) fd addr) \<and>
    map_find (c_sockets (get_container c w2)) = (map_find (c_sockets (get_container c w)))(fd \<mapsto> next_ptr w) \<and>
    registry (handlers w2 (c_handler (get_container c w))) =
      (registry (handlers w (c_handler (get_container c w))))(fd \<mapsto> (next_ptr w, True, False))"
proof -
  obtain addr w2 where "client_connect K X i host port six w =
      andThen (X (Client_obj i) CONNECT (A_connection (next_ptr w))) (\<lambda>_. ret True) w2"
    "heap w2 = (heap w)(next_ptr w \<mapsto> connected_sock i (next_ptr w) (c_handler (get_container c w)) fd addr)"
    "handlers w2 = handlers (with_socket c fd (after K (Sys_socket (uint (inet_family six)) SOCK_STREAM 0) w))"
    "get_container c w2 =
       get_container c (with_socket c fd (after K (Sys_socket (uint (inet_family six)) SOCK_STREAM 0) w))"
    using connect_wiring [of K six w fd i host X port] assms by auto
  moreover have "map_find (fst (map_insert fd (next_ptr w) (c_sockets (get_container c w)))) =
      (map_find (c_sockets (get_container c w)))(fd \<mapsto> next_ptr w)"
    using std_map.insert_law [OF assms(4)] assms(5) by simp
  moreover have "registry (add_socket fd (next_ptr w) (handlers w (c_handler (get_container c w)))) =
      (registry (handlers w (c_handler (get_container c w))))(fd \<mapsto> (next_ptr w, True, False))"
    using poll.add_law [OF assms(6,7)] by blast
  ultimately show ?thesis
    by (intro exI [of _ addr] exI [of _ w2]) simp
qed

theorem connect_wires_connection_witness:
  "\<exists>addr w2. client_connect (demo_kernel (\<lambda>_ _. None)) (\<lambda>_ _ _. ret ()) 0 ''localhost'' 80 False listener_world =
      Inr (True, w2) \<and> heap w2 1 = Some (connected_sock 0 1 0 3 addr)"
  using connect_wires_connection [where K = "demo_kernel (\<lambda>_ _. None)" and w = listener_world and i = 0
      and six = False and fd = 3 and host = "''localhost''" and port = 80 and X = "\<lambda>_ _ _. ret ()"]
  by (auto simp: plain_ret_def handler_wf_new map_find_map_of prog_simps demo_resolves demo_nonneg)

end
