(* ===== verification/Raw_Socket.thy ===== *)
theory Raw_Socket
  imports Socket
begin

text \<open>
  \<^verbatim>\<open>raw::socket_impl\<close> (\<^verbatim>\<open>includes/raw/socket.hpp\<close>): datagrams with \<^verbatim>\<open>sendmsg\<close>, \<^verbatim>\<open>sendto\<close>,
  \<^verbatim>\<open>recvmsg\<close> and \<^verbatim>\<open>recvfrom\<close>.  A \<^verbatim>\<open>msghdr\<close> is the bytes its vectors hold.
\<close>

section \<open>Operations\<close>

definition DATAGRAM_BUFFER_SIZE :: nat where "DATAGRAM_BUFFER_SIZE = 4096"

definition MSG_DONTWAIT :: int where "MSG_DONTWAIT = 0x80"

definition raw_socket_ctor :: "hid option \<Rightarrow> ptr act" where
  "raw_socket_ctor external_handler =
     andThen (pollable_entity external_handler) (\<lambda>h. alloc_sock (new_sock Raw_socket h (-1)))"

definition raw_sendmsg :: "kernel \<Rightarrow> executor \<Rightarrow> ptr \<Rightarrow> bytes \<Rightarrow> int \<Rightarrow> bool act" where
  "raw_sendmsg K X p message flgs =
     andThen (get_socket p) (\<lambda>fd.
     andThen (require AssertFailed (\<lambda>_. fd > 0)) (\<lambda>_.
     andThen (sys K (Sys_sendmsg fd message flgs)) (\<lambda>r.
     if ret_value r < 0 then
       andThen (reads errno) (\<lambda>e.
       andThen (X (Socket_obj p) ERROR (A_error ''sendmsg'' e)) (\<lambda>_. ret False))
     else ret True)))"

definition raw_send_to :: "kernel \<Rightarrow> executor \<Rightarrow> ptr \<Rightarrow> saddr \<Rightarrow> bytes \<Rightarrow> int \<Rightarrow> bool act" where
  "raw_send_to K X p addr message flgs =
     andThen (get_socket p) (\<lambda>fd.
     andThen (require AssertFailed (\<lambda>_. fd > 0)) (\<lambda>_.
     andThen (sys K (Sys_sendto fd message flgs addr (sa_size addr))) (\<lambda>r.
     if ret_value r < 0 then
       andThen (reads errno) (\<lambda>e.
       andThen (X (Socket_obj p) ERROR (A_error ''sendto'' e)) (\<lambda>_. ret False))
     else ret True)))"

definition datagram_buffer :: "bytes \<Rightarrow> bytes" where
  "datagram_buffer received =
     write_at 0 (take DATAGRAM_BUFFER_SIZE received) (replicate DATAGRAM_BUFFER_SIZE 0)"

text \<open>
  \<^verbatim>\<open>recvmsg\<close> hands the header itself to the callback: the whole buffer is visible through it, not
  the number of received bytes.
\<close>

definition raw_recvmsg :: "kernel \<Rightarrow> executor \<Rightarrow> ptr \<Rightarrow> bool act" where
  "raw_recvmsg K X p =
     andThen (get_socket p) (\<lambda>fd.
     andThen (require AssertFailed (\<lambda>_. fd > 0)) (\<lambda>_.
     andThen (sys K (Sys_recvmsg fd DATAGRAM_BUFFER_SIZE MSG_DONTWAIT)) (\<lambda>r.
     if to_int32 (ret_value r) < 0 then
       andThen (reads errno) (\<lambda>e.
       andThen (X (Socket_obj p) ERROR (A_error ''recvmsg'' e)) (\<lambda>_. ret False))
     else
       andThen (X (Socket_obj p) RECVMSG (A_msghdr (datagram_buffer (ret_data r)))) (\<lambda>_. ret True))))"

definition raw_recvfrom :: "kernel \<Rightarrow> executor \<Rightarrow> ptr \<Rightarrow> bool act" where
  "raw_recvfrom K X p =
     andThen (get_socket p) (\<lambda>fd.
     andThen (require AssertFailed (\<lambda>_. fd > 0)) (\<lambda>_.
     andThen (sys K (Sys_recvfrom fd DATAGRAM_BUFFER_SIZE MSG_DONTWAIT ADDRESS_STORAGE_SIZE)) (\<lambda>r.
     let n_bytes = to_int32 (ret_value r);
         addr = (case ret_addr r of None \<Rightarrow> new_address
                 | Some b \<Rightarrow> write_at 0 (take ADDRESS_STORAGE_SIZE b) new_address) in
     if n_bytes < 0 then
       andThen (reads errno) (\<lambda>e.
       andThen (X (Socket_obj p) ERROR (A_error ''recv'' e)) (\<lambda>_. ret False))
     else
       andThen (X (Socket_obj p) RECVFROM
           (A_address_bytes addr (take (nat n_bytes) (datagram_buffer (ret_data r))))) (\<lambda>_.
       ret True))))"

section \<open>Monotonicity\<close>

lemma approx_raw_socket [approx_rules]:
  "(\<And>ob t a. approx ft (X ob t a) (X' ob t a)) \<Longrightarrow>
   approx ft (raw_sendmsg K X p msg fl) (raw_sendmsg K X' p msg fl)"
  "(\<And>ob t a. approx ft (X ob t a) (X' ob t a)) \<Longrightarrow>
   approx ft (raw_send_to K X p addr msg fl) (raw_send_to K X' p addr msg fl)"
  "(\<And>ob t a. approx ft (X ob t a) (X' ob t a)) \<Longrightarrow> approx ft (raw_recvmsg K X p) (raw_recvmsg K X' p)"
  "(\<And>ob t a. approx ft (X ob t a) (X' ob t a)) \<Longrightarrow> approx ft (raw_recvfrom K X p) (raw_recvfrom K X' p)"
  unfolding raw_sendmsg_def raw_send_to_def raw_recvmsg_def raw_recvfrom_def Let_def
  by (auto intro!: approx_rules)

end
