(* ===== verification/Udp_Socket.thy ===== *)
theory Udp_Socket
  imports Raw_Socket
begin

text \<open>
  \<^verbatim>\<open>udp::socket_impl\<close> and the free function \<^verbatim>\<open>udp::send_to\<close> (\<^verbatim>\<open>includes/udp/socket.hpp\<close>).
\<close>

section \<open>Operations\<close>

definition SOCK_DGRAM :: int where "SOCK_DGRAM = 2"

definition init_socket :: "ptr \<Rightarrow> unit act" where
  "init_socket p =
     andThen (on (Socket_obj p) READABLE (Udp_recvfrom p) (flag_value DEFAULT)) (\<lambda>_.
     andThen (on (Socket_obj p) RECVFROM (Udp_receive p) (flag_value DEFAULT)) (\<lambda>_.
     on (Socket_obj p) CLOSED (Udp_closed p) (flag_value DEFAULT)))"

definition udp_socket_ctor :: "hid option \<Rightarrow> ptr act" where
  "udp_socket_ctor external_handler =
     andThen (pollable_entity external_handler) (\<lambda>h.
     andThen (alloc_sock (new_sock Udp_socket h (-1))) (\<lambda>p.
     andThen (init_socket p) (\<lambda>_. ret p)))"

definition udp_open :: "kernel \<Rightarrow> executor \<Rightarrow> ptr \<Rightarrow> family \<Rightarrow> bool act" where
  "udp_open K X p af =
     andThen (get_socket p) (\<lambda>fd.
     if fd < 0 then sock_open K X p (uint af) SOCK_DGRAM 0 else ret True)"

text \<open>\<^verbatim>\<open>bind\<close> goes on when opening the socket has failed.\<close>

definition udp_bind :: "kernel \<Rightarrow> executor \<Rightarrow> ptr \<Rightarrow> string \<Rightarrow> int \<Rightarrow> bool \<Rightarrow> bool act" where
  "udp_bind K X p hostname port use_IPv6 =
     andThen (get_socket p) (\<lambda>fd.
     andThen (require AssertFailed (\<lambda>_. fd = -1)) (\<lambda>_.
     andThen (udp_open K X p (if use_IPv6 then AF_INET6 else AF_INET)) (\<lambda>_.
     andThen (get_sock p) (\<lambda>s.
     andThen (addrinfo (world_resolver K) (address s) hostname (if use_IPv6 then AF_INET6 else AF_INET))
       (\<lambda>(result, a).
     andThen (put_sock p (\<lambda>s. s\<lparr>address := a\<rparr>)) (\<lambda>_.
     if result \<noteq> AI_SUCCESS then
       andThen (reads errno) (\<lambda>e.
       andThen (X (Socket_obj p) ERROR (A_error ''addrinfo'' e)) (\<lambda>_. ret False))
     else
       andThen (lift_fault (set_port (if use_IPv6 then Sockaddr_in6 else Sockaddr_in) (word_of_int port) a)) (\<lambda>a'.
       andThen (put_sock p (\<lambda>s. s\<lparr>address := a'\<rparr>)) (\<lambda>_.
       andThen (sock_bind K X p) (\<lambda>bound.
       if \<not> bound then ret False
       else
         andThen (get_sock p) (\<lambda>s.
         andThen (X (Socket_obj p) UDP_BIND (A_address (address s))) (\<lambda>_. ret True)))))))))))"

text \<open>
  The free function: a raw socket on its own handler, used once, closed and destroyed at the end
  of the scope.
\<close>

definition udp_send_to :: "kernel \<Rightarrow> executor \<Rightarrow> saddr \<Rightarrow> bytes \<Rightarrow> int \<Rightarrow> bool act" where
  "udp_send_to K X addr message flgs =
     andThen (raw_socket_ctor None) (\<lambda>p.
     andThen (sock_open K X p (uint (sa_family addr)) SOCK_DGRAM 0) (\<lambda>opened.
     if \<not> opened then andThen (free_sock p) (\<lambda>_. ret False)
     else
       andThen (raw_send_to K X p addr message flgs) (\<lambda>result.
       andThen (sock_close K X p) (\<lambda>_.
       andThen (free_sock p) (\<lambda>_. ret result)))))"

section \<open>Monotonicity\<close>

lemma approx_udp_socket [approx_rules]:
  "(\<And>ob t a. approx ft (X ob t a) (X' ob t a)) \<Longrightarrow> approx ft (udp_open K X p af) (udp_open K X' p af)"
  unfolding udp_open_def by (auto intro!: approx_rules)

lemma approx_udp_bind [approx_rules]:
  "(\<And>ob t a. approx ft (X ob t a) (X' ob t a)) \<Longrightarrow>
   approx ft (udp_bind K X p host port v6) (udp_bind K X' p host port v6)"
  unfolding udp_bind_def by (auto intro!: approx_rules simp: case_prod_beta)

lemma approx_udp_send_to [approx_rules]:
  "(\<And>ob t a. approx ft (X ob t a) (X' ob t a)) \<Longrightarrow>
   approx ft (udp_send_to K X addr msg fl) (udp_send_to K X' addr msg fl)"
  unfolding udp_send_to_def by (auto intro!: approx_rules)

end
