(* ===== verification/Events_Poll.thy ===== *)
theory Events_Poll
  imports Socket
begin

text \<open>
  \<^verbatim>\<open>poll_impl\<close> (\<^verbatim>\<open>includes/events/handlers/poll/poll_impl.hpp\<close>) and \<^verbatim>\<open>events::poll\<close>
  (\<^verbatim>\<open>includes/events/events.hpp\<close>): one poll of a handler and the dispatch of what it reports.
\<close>

section \<open>Operations\<close>

text \<open>
  The kernel's answer to \<^verbatim>\<open>poll\<close> carries the \<^verbatim>\<open>revents\<close> it writes, position by position; an answer
  without them (as on an error) leaves the fields as they were.
\<close>

definition poll_request :: "('p, 'z) handler_impl_scheme \<Rightarrow> (int \<times> ushort) list" where
  "poll_request h = map (\<lambda>s. (pfd s, events s)) (sockets h)"

fun store_revents :: "ushort list \<Rightarrow> pollfd list \<Rightarrow> pollfd list" where
  "store_revents (r # rs) (s # ss) = s\<lparr>revents := r\<rparr> # store_revents rs ss"
| "store_revents _ ss = ss"

definition socket_ptr_at :: "hid \<Rightarrow> nat \<Rightarrow> ptr act" where
  "socket_ptr_at h i =
     andThen (require OutOfRange (\<lambda>w. i < length (socket_ptrs (handlers w h)))) (\<lambda>_.
     reads (\<lambda>w. socket_ptrs (handlers w h) ! i))"

text \<open>
  The loop over the positions \<open>i, i + 1, \<dots>\<close> of the vector.  \<open>incarnation\<close> identifies the vectors
  the iterator \<^verbatim>\<open>it\<close> points into; every use of \<^verbatim>\<open>it\<close>, of \<^verbatim>\<open>end()\<close> and of the reference \<^verbatim>\<open>socket\<close>
  is a fault once they have changed.
\<close>

definition fresh_iterator :: "hid \<Rightarrow> nat \<Rightarrow> unit act" where
  "fresh_iterator h incarnation =
     require InvalidatedPollIterator (\<lambda>w. storage (handlers w h) = incarnation)"

unbundle bit_operations_syntax

fun poll_loop :: "executor \<Rightarrow> hid \<Rightarrow> nat \<Rightarrow> int \<Rightarrow> nat list \<Rightarrow> unit act" where
  "poll_loop X h incarnation n_changes [] = ret ()"
| "poll_loop X h incarnation n_changes (i # is) =
     andThen (fresh_iterator h incarnation) (\<lambda>_.
     andThen (reads (\<lambda>w. sockets (handlers w h) ! i)) (\<lambda>socket.
     andThen (reads (\<lambda>w. get_ref (handlers w h))) (\<lambda>handler_ref.
     if revents socket = 0 then poll_loop X h incarnation n_changes is
     else
       andThen (if revents socket AND POLLIN \<noteq> 0
                then andThen (socket_ptr_at h i) (on_readable X) else ret ()) (\<lambda>_.
       andThen (reads (\<lambda>w. ref_has_changed handler_ref (handlers w h))) (\<lambda>changed.
       if changed then ret ()
       else
         andThen (fresh_iterator h incarnation) (\<lambda>_.
         andThen (reads (\<lambda>w. sockets (handlers w h) ! i)) (\<lambda>socket.
         andThen (if revents socket AND POLLOUT \<noteq> 0
                  then andThen (socket_ptr_at h i) (on_writeable X) else ret ()) (\<lambda>_.
         andThen (reads (\<lambda>w. ref_has_changed handler_ref (handlers w h))) (\<lambda>changed.
         if n_changes - 1 = 0 \<or> changed then ret ()
         else poll_loop X h incarnation (n_changes - 1) is)))))))))"

definition poll_impl :: "kernel \<Rightarrow> executor \<Rightarrow> hid \<Rightarrow> int \<Rightarrow> unit act" where
  "poll_impl K X h timeout =
     andThen (reads (\<lambda>w. poll_request (handlers w h))) (\<lambda>request.
     andThen (sys K (Sys_poll request timeout)) (\<lambda>r.
     andThen (update (\<lambda>w. set_handler h ((handlers w h)\<lparr>sockets :=
         store_revents (ret_revents r) (sockets (handlers w h))\<rparr>) w)) (\<lambda>_.
     andThen (reads (\<lambda>w. storage (handlers w h))) (\<lambda>incarnation.
     poll_loop X h incarnation (ret_value r) [0..<length request]))))"

definition events_poll :: "kernel \<Rightarrow> executor \<Rightarrow> hid \<Rightarrow> int \<Rightarrow> bool act" where
  "events_poll K X h timeout =
     andThen (reads (\<lambda>w. impl_empty (handlers w h))) (\<lambda>empty.
     if empty then ret False
     else andThen (poll_impl K X h timeout) (\<lambda>_. ret True))"

section \<open>Monotonicity\<close>

lemma approx_poll_loop [approx_rules]:
  "(\<And>ob t a. approx ft (X ob t a) (X' ob t a)) \<Longrightarrow>
   approx ft (poll_loop X h st n is) (poll_loop X' h st n is)"
  by (induction "is" arbitrary: n) (auto intro!: approx_rules)

lemma approx_events_poll [approx_rules]:
  "(\<And>ob t a. approx ft (X ob t a) (X' ob t a)) \<Longrightarrow> approx ft (poll_impl K X h to) (poll_impl K X' h to)"
  "(\<And>ob t a. approx ft (X ob t a) (X' ob t a)) \<Longrightarrow> approx ft (events_poll K X h to) (events_poll K X' h to)"
  unfolding events_poll_def poll_impl_def by (auto intro!: approx_rules)

section \<open>Specification of the dispatch\<close>

text \<open>
  The actions a poll is for: every registered socket with an input event gets \<open>READABLE\<close>, every one
  with an output event \<open>WRITEABLE\<close>, in the order of the vectors.
\<close>

definition slot_actions :: "pollfd \<times> 'p \<Rightarrow> ('p \<times> tag) list" where
  "slot_actions e =
     (if revents (fst e) AND POLLIN \<noteq> 0 then [(snd e, READABLE)] else []) @
     (if revents (fst e) AND POLLOUT \<noteq> 0 then [(snd e, WRITEABLE)] else [])"

definition ready_actions :: "(pollfd \<times> 'p) list \<Rightarrow> ('p \<times> tag) list" where
  "ready_actions es = concat (map slot_actions es)"

definition execute_ready :: "executor \<Rightarrow> (ptr \<times> tag) list \<Rightarrow> unit act" where
  "execute_ready X = run_all (\<lambda>(p, t). X (Socket_obj p) t A_none)"

text \<open>What a callback must leave alone for the loop to go on: everything but the interests.\<close>

definition slots :: "ptr handler \<Rightarrow> (int \<times> ushort) list \<times> ptr list \<times> nat \<times> ushort" where
  "slots h = (map (\<lambda>s. (pfd s, revents s)) (sockets h), socket_ptrs h, storage h, invalid h)"

definition keeps_slots :: "executor \<Rightarrow> hid \<Rightarrow> bool" where
  "keeps_slots X h \<longleftrightarrow> (\<forall>p t w w'. X (Socket_obj p) t A_none w = Inr ((), w') \<longrightarrow>
     slots (handlers w' h) = slots (handlers w h))"

lemma slots_nth:
  "slots h' = slots h \<Longrightarrow> i < length (sockets h) \<Longrightarrow>
   length (sockets h') = length (sockets h) \<and> revents (sockets h' ! i) = revents (sockets h ! i)"
proof -
  assume h: "slots h' = slots h" and i: "i < length (sockets h)"
  have m: "map (\<lambda>s. (pfd s, revents s)) (sockets h') = map (\<lambda>s. (pfd s, revents s)) (sockets h)"
    using h by (simp add: slots_def)
  then have "length (sockets h') = length (sockets h)"
    by (rule map_eq_imp_length_eq)
  then show ?thesis
    using i arg_cong [OF m, of "\<lambda>l. snd (l ! i)"] by simp
qed

lemma execute_ready_append:
  "execute_ready X (xs @ ys) = andThen (execute_ready X xs) (\<lambda>_. execute_ready X ys)"
  by (simp add: execute_ready_def run_all_append)

text \<open>The actions the loop executes when it may stop after \<open>n\<close> sockets with events.\<close>

fun counted_ready :: "int \<Rightarrow> (pollfd \<times> ptr) list \<Rightarrow> (ptr \<times> tag) list" where
  "counted_ready n [] = []"
| "counted_ready n (e # es) =
     (if revents (fst e) = 0 then counted_ready n es
      else slot_actions e @ (if n - 1 = 0 then [] else counted_ready (n - 1) es))"

lemma counted_ready_all:
  "n = int (length (filter (\<lambda>e. revents (fst e) \<noteq> 0) es)) \<Longrightarrow> counted_ready n es = ready_actions es"
proof (induction es arbitrary: n)
  case Nil
  then show ?case by (simp add: ready_actions_def)
next
  case (Cons e es)
  have none: "ready_actions es = []" if "filter (\<lambda>e. revents (fst e) \<noteq> 0) es = []"
    using that by (auto simp: ready_actions_def slot_actions_def filter_empty_conv)
  show ?case
    using Cons none by (auto simp: ready_actions_def slot_actions_def)
qed

lemma run_quiet:
  assumes "keeps_slots X h" and "execute_ready X as w = Inr ((), w')"
  shows "slots (handlers w' h) = slots (handlers w h)"
  using assms(2)
proof (induction as arbitrary: w)
  case Nil
  then show ?case by (simp add: execute_ready_def prog_simps)
next
  case (Cons a as)
  then show ?case
    using assms(1)
    by (auto simp: execute_ready_def prog_simps keeps_slots_def split: sum.splits prod.splits)
qed

lemma slot_part:
  assumes "i < length (socket_ptrs (handlers v h))"
  shows "(if b then andThen (socket_ptr_at h i) (on_readable X) else ret ()) v =
      execute_ready X (if b then [(socket_ptrs (handlers v h) ! i, READABLE)] else []) v"
    and "(if b then andThen (socket_ptr_at h i) (on_writeable X) else ret ()) v =
      execute_ready X (if b then [(socket_ptrs (handlers v h) ! i, WRITEABLE)] else []) v"
  using assms
  by (simp_all add: execute_ready_def socket_ptr_at_def on_readable_def on_writeable_def prog_simps)

lemma slots_facts:
  assumes "slots h' = slots h" and "handler_wf h" and "i < length (sockets h)"
  shows "storage h' = storage h" and "socket_ptrs h' = socket_ptrs h" and "get_ref h' = get_ref h"
    and "revents (sockets h' ! i) = revents (sockets h ! i)" and "i < length (socket_ptrs h')"
    and "\<not> ref_has_changed (get_ref h) h'"
  using assms slots_nth [OF assms(1,3)]
  by (auto simp: slots_def handler_wf_def get_ref_def ref_has_changed_def)

text \<open>The two halves of a round on unchanged slots: the dispatch of input and of output.\<close>

lemma round_input:
  assumes same: "slots (handlers v h) = slots h0" "handler_wf h0" "i < length (sockets h0)" and "revents (sockets h0 ! i) \<noteq> 0"
  shows "poll_loop X h (storage h0) n (i # is) v =
    andThen (execute_ready X (if revents (sockets h0 ! i) AND POLLIN \<noteq> 0 then [(socket_ptrs h0 ! i, READABLE)] else [])) (\<lambda>_.
      andThen (reads (\<lambda>w. ref_has_changed (get_ref h0) (handlers w h))) (\<lambda>changed.
      if changed then ret ()
      else
        andThen (fresh_iterator h (storage h0)) (\<lambda>_.
        andThen (reads (\<lambda>w. sockets (handlers w h) ! i)) (\<lambda>socket.
        andThen (if revents socket AND POLLOUT \<noteq> 0
                 then andThen (socket_ptr_at h i) (on_writeable X) else ret ()) (\<lambda>_.
        andThen (reads (\<lambda>w. ref_has_changed (get_ref h0) (handlers w h))) (\<lambda>changed.
        if n - 1 = 0 \<or> changed then ret ()
        else poll_loop X h (storage h0) (n - 1) is)))))) v"
  using assms(4) slots_facts [OF same] slot_part(1) [of i v h "revents (sockets h0 ! i) AND POLLIN \<noteq> 0" X]
  by (simp add: fresh_iterator_def andThen_apply reads_apply require_apply)

lemma round_output:
  assumes same: "slots (handlers v h) = slots h0" "handler_wf h0" "i < length (sockets h0)"
  shows "andThen (reads (\<lambda>w. ref_has_changed (get_ref h0) (handlers w h))) (\<lambda>changed.
      if changed then ret ()
      else
        andThen (fresh_iterator h (storage h0)) (\<lambda>_.
        andThen (reads (\<lambda>w. sockets (handlers w h) ! i)) (\<lambda>socket.
        andThen (if revents socket AND POLLOUT \<noteq> 0
                 then andThen (socket_ptr_at h i) (on_writeable X) else ret ()) k))) v =
    andThen (execute_ready X (if revents (sockets h0 ! i) AND POLLOUT \<noteq> 0 then [(socket_ptrs h0 ! i, WRITEABLE)] else [])) k v"
  using slots_facts [OF same] slot_part(2) [of i v h "revents (sockets h0 ! i) AND POLLOUT \<noteq> 0" X]
  by (simp add: fresh_iterator_def andThen_apply reads_apply require_apply)

lemma poll_loop_counted:
  assumes keep: "keeps_slots X h" and wf: "handler_wf h0"
    and "\<forall>i \<in> set is. i < length (sockets h0)" and "slots (handlers v h) = slots h0"
  shows "poll_loop X h (storage h0) n is v =
    execute_ready X (counted_ready n (map (\<lambda>i. (sockets h0 ! i, socket_ptrs h0 ! i)) is)) v"
  using assms(3,4)
proof (induction "is" arbitrary: v n)
  case Nil
  then show ?case by (simp add: execute_ready_def)
next
  case (Cons i "is")
  have i: "i < length (sockets h0)" using Cons.prems(1) by simp
  let ?rd = "if revents (sockets h0 ! i) AND POLLIN \<noteq> 0 then [(socket_ptrs h0 ! i, READABLE)] else []"
  let ?wr = "if revents (sockets h0 ! i) AND POLLOUT \<noteq> 0 then [(socket_ptrs h0 ! i, WRITEABLE)] else []"
  let ?more = "\<lambda>n. counted_ready n (map (\<lambda>i. (sockets h0 ! i, socket_ptrs h0 ! i)) is)"
  show ?case
  proof (cases "revents (sockets h0 ! i) = 0")
    case True
    then show ?thesis
      using Cons.prems slots_facts [OF Cons.prems(2) wf i] Cons.IH [of v n]
      by (simp add: fresh_iterator_def prog_simps)
  next
    case False
    have last: "andThen (reads (\<lambda>w. ref_has_changed (get_ref h0) (handlers w h))) (\<lambda>changed.
        if n - 1 = 0 \<or> changed then ret () else poll_loop X h (storage h0) (n - 1) is) v2 =
        execute_ready X (if n - 1 = 0 then [] else ?more (n - 1)) v2" if "slots (handlers v2 h) = slots h0" for v2
      using slots_facts [OF that wf i] Cons.IH [of v2 "n - 1"] Cons.prems(1) that
      by (simp add: andThen_apply reads_apply) (simp add: execute_ready_def ret_apply)
    have quiet: "slots (handlers v' h) = slots h0" if "slots (handlers u h) = slots h0" "execute_ready X as u = Inr (x, v')" for u as x v'
      using run_quiet [OF keep, of as u v'] that by simp
    have "poll_loop X h (storage h0) n (i # is) v =
        andThen (execute_ready X ?rd) (\<lambda>_. andThen (execute_ready X ?wr) (\<lambda>_. execute_ready X (if n - 1 = 0 then [] else ?more (n - 1)))) v"
      unfolding round_input [OF Cons.prems(2) wf i False]
      by (rule andThen_same, subst round_output [OF quiet [OF Cons.prems(2)] wf i], assumption,
          rule andThen_same, rule last, rule quiet, rule quiet [OF Cons.prems(2)])
    also have "\<dots> = execute_ready X (counted_ready n (map (\<lambda>i. (sockets h0 ! i, socket_ptrs h0 ! i)) (i # is))) v"
      using False by (simp add: slot_actions_def execute_ready_append del: if_split)
    finally show ?thesis .
  qed
qed

text \<open>The handler after the kernel has stored its answer, and the world in which the loop starts.\<close>

definition polled :: "kernel \<Rightarrow> hid \<Rightarrow> int \<Rightarrow> world \<Rightarrow> world" where
  "polled K h timeout w =
     (let c = Sys_poll (poll_request (handlers w h)) timeout in
      set_handler h ((handlers w h)\<lparr>sockets :=
        store_revents (ret_revents (reply K c w)) (sockets (handlers w h))\<rparr>) (after K c w))"

lemma store_revents_pfd: "map pfd (store_revents rs ss) = map pfd ss"
  by (induction rs ss rule: store_revents.induct) auto

lemma length_store_revents [simp]: "length (store_revents rs ss) = length ss"
  using store_revents_pfd [THEN map_eq_imp_length_eq] by blast

lemma poll_impl_apply:
  "poll_impl K X h timeout w =
     poll_loop X h (storage (handlers (polled K h timeout w) h))
       (ret_value (reply K (Sys_poll (poll_request (handlers w h)) timeout) w))
       [0..<length (sockets (handlers (polled K h timeout w) h))] (polled K h timeout w)"
  by (simp add: poll_impl_def prog_simps polled_def Let_def poll_request_def)

section \<open>Properties\<close>

text \<open>
  C12. The dispatch of a poll: with a kernel that counts the sockets it reports, and callbacks that
  neither add nor remove sockets of the polled handler, polling executes \<open>READABLE\<close> and \<open>WRITEABLE\<close>
  of exactly the sockets whose reported events contain input and output, each once, in the order
  of the vectors, and nothing else.
\<close>

theorem poll_executes_ready_actions:
  fixes K h timeout w
  defines "h1 \<equiv> handlers (polled K h timeout w) h"
  assumes "handler_wf (handlers w h)" and "sockets (handlers w h) \<noteq> []" and "keeps_slots X h"
    and "ret_value (reply K (Sys_poll (poll_request (handlers w h)) timeout) w) =
      int (length (filter (\<lambda>s. revents s \<noteq> 0) (sockets h1)))"
  shows "events_poll K X h timeout w =
    andThen (execute_ready X (ready_actions (zip (sockets h1) (socket_ptrs h1)))) (\<lambda>_. ret True)
      (polled K h timeout w)"
proof -
  have wf: "handler_wf h1"
    using assms(2) by (simp add: h1_def polled_def Let_def handler_wf_def store_revents_pfd)
  then have len: "length (sockets h1) = length (socket_ptrs h1)"
    by (simp add: handler_wf_def)
  have es: "map (\<lambda>i. (sockets h1 ! i, socket_ptrs h1 ! i)) [0..<length (sockets h1)] =
      zip (sockets h1) (socket_ptrs h1)"
    using len by (intro nth_equalityI) auto
  have "length (filter (\<lambda>s. revents s \<noteq> 0) (sockets h1)) =
      length (filter (\<lambda>e. revents (fst e) \<noteq> 0) (zip (sockets h1) (socket_ptrs h1)))"
  proof -
    have "sockets h1 = map fst (zip (sockets h1) (socket_ptrs h1))"
      using len by simp
    then show ?thesis
      by (metis (no_types, lifting) comp_apply filter_cong filter_map length_map)
  qed
  then have "poll_impl K X h timeout w =
      execute_ready X (ready_actions (zip (sockets h1) (socket_ptrs h1))) (polled K h timeout w)"
    using assms(5) poll_loop_counted [OF assms(4) wf, of "[0..<length (sockets h1)]" "polled K h timeout w"
        "ret_value (reply K (Sys_poll (poll_request (handlers w h)) timeout) w)"]
    by (simp add: poll_impl_apply h1_def [symmetric] es counted_ready_all)
  then show ?thesis
    using assms(3) by (simp add: events_poll_def prog_simps impl_empty_def)
qed

lemma poll_loop_silent:
  "\<forall>i \<in> set is. i < length (sockets (handlers v h)) \<and>
     revents (sockets (handlers v h) ! i) AND POLLIN = 0 \<and>
     revents (sockets (handlers v h) ! i) AND POLLOUT = 0 \<Longrightarrow>
   poll_loop X h (storage (handlers v h)) n is v = Inr ((), v)"
proof (induction "is" arbitrary: n)
  case Nil
  then show ?case by (simp add: prog_simps)
next
  case (Cons i "is")
  then show ?case
    by (simp add: fresh_iterator_def prog_simps ref_has_changed_def)
qed

text \<open>
  Events other than input and output are never dispatched: when every reported event set lacks
  both (a hang-up or an error alone, or no event at all), polling executes no action and changes
  nothing but the reported events and the history, so the same sockets are reported again.
\<close>

theorem error_events_not_dispatched:
  assumes "sockets (handlers w h) \<noteq> []"
    and "\<forall>s \<in> set (sockets (handlers (polled K h timeout w) h)).
      revents s AND POLLIN = 0 \<and> revents s AND POLLOUT = 0"
  shows "events_poll K X h timeout w = Inr (True, polled K h timeout w) \<and>
    poll_request (handlers (polled K h timeout w) h) = poll_request (handlers w h)"
proof -
  have "events_poll K X h timeout w = Inr (True, polled K h timeout w)"
    using assms poll_loop_silent [of "[0..<length (sockets (handlers (polled K h timeout w) h))]"
        "polled K h timeout w" h X]
    by (simp add: events_poll_def prog_simps impl_empty_def poll_impl_apply)
  moreover have "map (\<lambda>s. (pfd s, events s)) (store_revents rs ss) = map (\<lambda>s. (pfd s, events s)) ss" for rs ss
    by (induction rs ss rule: store_revents.induct) auto
  ultimately show ?thesis
    by (simp add: poll_request_def polled_def Let_def)
qed

section \<open>Witnesses\<close>

definition polling_kernel :: "ushort \<Rightarrow> kernel" where
  "polling_kernel rv = demo_kernel (\<lambda>h c. case c of
     Sys_poll fds timeout \<Rightarrow> Some ((plain_ret 1)\<lparr>ret_revents := [rv]\<rparr>) | _ \<Rightarrow> None)"

lemma one_socket_vectors:
  "sockets (handlers (one_socket cls) 0) = [\<lparr>pfd = 3, events = POLLIN, revents = 0\<rparr>]"
  "socket_ptrs (handlers (one_socket cls) 0) = [0]"
  by (simp_all add: one_socket_def add_socket_def impl_add_socket_def new_handler_def Let_def)

lemma polled_one_socket:
  "sockets (handlers (polled (polling_kernel rv) 0 (-1) (one_socket cls)) 0) =
     [\<lparr>pfd = 3, events = POLLIN, revents = rv\<rparr>]"
  "socket_ptrs (handlers (polled (polling_kernel rv) 0 (-1) (one_socket cls)) 0) = [0]"
  by (simp_all add: polled_def Let_def one_socket_vectors polling_kernel_def reply_def demo_kernel_def)

theorem poll_executes_ready_actions_witness:
  "\<exists>w'. events_poll (polling_kernel 5) (\<lambda>ob t a. if ob = Socket_obj 0 \<and> (t = READABLE \<or> t = WRITEABLE)
      then ret () else raise Misuse) 0 (-1) (one_socket Raw_socket) = Inr (True, w')"
proof -
  let ?X = "\<lambda>ob t a. if ob = Socket_obj 0 \<and> (t = READABLE \<or> t = WRITEABLE) then ret () else raise Misuse"
  have "keeps_slots ?X 0"
    by (auto simp: keeps_slots_def prog_simps split: if_splits)
  moreover have "(5 :: ushort) AND POLLIN \<noteq> 0" "(5 :: ushort) AND POLLOUT \<noteq> 0"
    by (simp_all add: POLLIN_def POLLOUT_def)
  ultimately show ?thesis
    using poll_executes_ready_actions [where K = "polling_kernel 5" and h = 0 and timeout = "-1"
        and w = "one_socket Raw_socket" and X = ?X]
    by (simp add: one_socket_vectors one_socket_registry polled_one_socket ready_actions_def slot_actions_def
        execute_ready_def prog_simps)
      (simp add: polling_kernel_def reply_def demo_kernel_def plain_ret_def)
qed

theorem error_events_not_dispatched_witness:
  "events_poll (polling_kernel 16) (\<lambda>_ _ _. raise Misuse) 0 (-1) (one_socket Raw_socket) =
     Inr (True, polled (polling_kernel 16) 0 (-1) (one_socket Raw_socket))"
  using error_events_not_dispatched [of "one_socket Raw_socket" 0 "polling_kernel 16" "-1"
      "\<lambda>_ _ _. raise Misuse"]
  by (simp add: one_socket_vectors polled_one_socket POLLIN_def POLLOUT_def)

end
