(* ===== verification/Dispatcher.thy ===== *)
theory Dispatcher
  imports Tcp_Client Udp_Socket Events_Poll
begin

text \<open>
  The knot of the model: what each lambda does, the calls a user program can make, and the
  execution of actions by callbacks that may call the library again.  The depth of this nesting
  and the number of rounds of a container's \<^verbatim>\<open>close\<close> loop are bounded by fuel; running out of it is
  the fault \<open>OutOfFuel\<close>.
\<close>

section \<open>Calls of the user program\<close>

text \<open>
  The public interface, on connections restricted to the members \<^verbatim>\<open>tcp::connection\<close> republishes.
  \<open>Events_poll\<close> is \<^verbatim>\<open>events::poll\<close> on a handler (an entity is polled through its handler).
  \<open>Socket_fcntl\<close> is a system call on the descriptor \<^verbatim>\<open>get_socket\<close> returns.  \<open>Print\<close> composes a text,
  in part with \<^verbatim>\<open>get_ip\<close> and \<^verbatim>\<open>to_string\<close>, and writes it to the standard output.  \<open>Set_data\<close>,
  \<open>Assign\<close> and \<open>Read_clock\<close> are the user's own code: assignments to a member of a socket's \<^verbatim>\<open>data\<close> and to
  a variable of the program, of a value computed from the state at that moment, and a reading of the
  clock (in nanoseconds) into a variable.
\<close>

datatype print_item =
    Text string
  | Ip saddr
  | Ip_of ptr
  | Fd_of ptr
  | Describe saddr

datatype cmd =
    Connection_send ptr bytes
  | Connection_close ptr
  | Connection_on ptr tag nat ushort
  | Server_listen sid string ushort bool
  | Server_close sid
  | Server_on sid tag nat ushort
  | Client_connect sid string ushort bool
  | Client_close sid
  | Client_on sid tag nat ushort
  | Socket_open ptr int int int
  | Socket_close ptr
  | Socket_bind ptr
  | Socket_on ptr tag nat ushort
  | Socket_set_address ptr saddr
  | Socket_want_read ptr bool
  | Socket_want_write ptr bool
  | Socket_sendmsg ptr bytes int
  | Socket_send_to ptr saddr bytes int
  | Socket_recvmsg ptr
  | Socket_recvfrom ptr
  | Udp_open ptr family
  | Udp_bind ptr string int bool
  | Udp_send_to saddr bytes int
  | Events_poll hid int
  | Socket_fcntl ptr int int
  | Print "print_item list"
  | Set_data ptr string "world \<Rightarrow> int"
  | Assign string "world \<Rightarrow> int"
  | Read_clock string

text \<open>
  What the user's callback number \<open>u\<close> calls when it runs with the given arguments in the given
  world.
\<close>

type_synonym user_program = "nat \<Rightarrow> args \<Rightarrow> world \<Rightarrow> cmd list"

definition discard :: "'a act \<Rightarrow> unit act" where
  "discard m = andThen m (\<lambda>_. ret ())"

text \<open>
  The user may only name objects that exist and have the class the call needs, and opens a socket
  only when it is closed.
\<close>

definition live :: "sock_class list \<Rightarrow> ptr \<Rightarrow> unit act" where
  "live classes p = require Misuse (\<lambda>w. case heap w p of None \<Rightarrow> False
     | Some s \<Rightarrow> List.member classes (sclass s))"

definition closed_socket :: "ptr \<Rightarrow> unit act" where
  "closed_socket p = require Misuse (\<lambda>w. case heap w p of None \<Rightarrow> False | Some s \<Rightarrow> sock_fd s < 0)"

fun render :: "kernel \<Rightarrow> print_item \<Rightarrow> string act" where
  "render K (Text t) = ret t"
| "render K (Ip a) = get_ip (world_resolver K) a"
| "render K (Ip_of p) =
     andThen (live [Tcp_connection, Raw_socket, Udp_socket] p) (\<lambda>_.
     andThen (get_sock p) (\<lambda>s. get_ip (world_resolver K) (address s)))"
| "render K (Fd_of p) =
     andThen (live [Tcp_connection, Raw_socket, Udp_socket] p) (\<lambda>_.
     andThen (get_socket p) (\<lambda>fd. ret (int_to_string fd)))"
| "render K (Describe a) = to_string (world_resolver K) a"

fun render_all :: "kernel \<Rightarrow> print_item list \<Rightarrow> string act" where
  "render_all K [] = ret []"
| "render_all K (i # is) = andThen (render K i) (\<lambda>t. andThen (render_all K is) (\<lambda>t'. ret (t @ t')))"

definition print :: "kernel \<Rightarrow> print_item list \<Rightarrow> unit act" where
  "print K items = andThen (render_all K items) (\<lambda>t. discard (sys K (Sys_write 1 t)))"

definition set_variable :: "string \<Rightarrow> int \<Rightarrow> unit act" where
  "set_variable x v = update (\<lambda>w. w\<lparr>variables := (variables w)(x := v)\<rparr>)"

definition set_data :: "ptr \<Rightarrow> string \<Rightarrow> int \<Rightarrow> unit act" where
  "set_data p x v = put_sock p (\<lambda>s. s\<lparr>data := (data s)(x := v)\<rparr>)"

fun run_cmd :: "kernel \<Rightarrow> executor \<Rightarrow> nat \<Rightarrow> cmd \<Rightarrow> unit act" where
  "run_cmd K X n (Connection_send p msg) =
     andThen (live [Tcp_connection] p) (\<lambda>_. discard (connection_send K X p msg))"
| "run_cmd K X n (Connection_close p) =
     andThen (live [Tcp_connection] p) (\<lambda>_. sock_close K X p)"
| "run_cmd K X n (Connection_on p t u fl) =
     andThen (live [Tcp_connection] p) (\<lambda>_. on (Socket_obj p) t (User u) fl)"
| "run_cmd K X n (Server_listen i host port v6) = discard (server_listen K X i host port v6)"
| "run_cmd K X n (Server_close i) = server_close K X n i"
| "run_cmd K X n (Server_on i t u fl) = on (Server_obj i) t (User u) fl"
| "run_cmd K X n (Client_connect i host port v6) = discard (client_connect K X i host port v6)"
| "run_cmd K X n (Client_close i) = client_close K X n i"
| "run_cmd K X n (Client_on i t u fl) = on (Client_obj i) t (User u) fl"
| "run_cmd K X n (Socket_open p d ty pr) =
     andThen (live [Raw_socket] p) (\<lambda>_.
     andThen (closed_socket p) (\<lambda>_. discard (sock_open K X p d ty pr)))"
| "run_cmd K X n (Socket_close p) =
     andThen (live [Raw_socket, Udp_socket] p) (\<lambda>_. sock_close K X p)"
| "run_cmd K X n (Socket_bind p) =
     andThen (live [Raw_socket] p) (\<lambda>_. discard (sock_bind K X p))"
| "run_cmd K X n (Socket_on p t u fl) =
     andThen (live [Raw_socket, Udp_socket] p) (\<lambda>_. on (Socket_obj p) t (User u) fl)"
| "run_cmd K X n (Socket_set_address p a) =
     andThen (live [Tcp_connection, Raw_socket, Udp_socket] p) (\<lambda>_.
       put_sock p (\<lambda>s. s\<lparr>address := copy_address a\<rparr>))"
| "run_cmd K X n (Socket_want_read p b) =
     andThen (live [Raw_socket] p) (\<lambda>_. set_want_read p b)"
| "run_cmd K X n (Socket_want_write p b) =
     andThen (live [Raw_socket] p) (\<lambda>_. set_want_write p b)"
| "run_cmd K X n (Socket_sendmsg p msg fl) =
     andThen (live [Raw_socket] p) (\<lambda>_. discard (raw_sendmsg K X p msg fl))"
| "run_cmd K X n (Socket_send_to p a msg fl) =
     andThen (live [Raw_socket, Udp_socket] p) (\<lambda>_. discard (raw_send_to K X p a msg fl))"
| "run_cmd K X n (Socket_recvmsg p) =
     andThen (live [Raw_socket] p) (\<lambda>_. discard (raw_recvmsg K X p))"
| "run_cmd K X n (Socket_recvfrom p) =
     andThen (live [Raw_socket] p) (\<lambda>_. discard (raw_recvfrom K X p))"
| "run_cmd K X n (Udp_open p af) =
     andThen (live [Udp_socket] p) (\<lambda>_. discard (udp_open K X p af))"
| "run_cmd K X n (Udp_bind p host port v6) =
     andThen (live [Udp_socket] p) (\<lambda>_. discard (udp_bind K X p host port v6))"
| "run_cmd K X n (Udp_send_to a msg fl) = discard (udp_send_to K X a msg fl)"
| "run_cmd K X n (Events_poll h timeout) = discard (events_poll K X h timeout)"
| "run_cmd K X n (Socket_fcntl p c arg) =
     andThen (live [Raw_socket, Udp_socket] p) (\<lambda>_.
     andThen (get_socket p) (\<lambda>fd. discard (sys K (Sys_fcntl fd c arg))))"
| "run_cmd K X n (Print items) = print K items"
| "run_cmd K X n (Set_data p x f) =
     andThen (live [Tcp_connection, Raw_socket, Udp_socket] p) (\<lambda>_. andThen (reads f) (set_data p x))"
| "run_cmd K X n (Assign x f) = andThen (reads f) (set_variable x)"
| "run_cmd K X n (Read_clock x) = andThen (sys K Lib_clock) (\<lambda>r. set_variable x (ret_value r))"

section \<open>The lambdas\<close>

text \<open>
  What a callback does with the arguments of its action.  A library lambda ignores arguments its
  prototype does not have; one called with arguments of another prototype would not compile.
\<close>

fun run_callback ::
    "kernel \<Rightarrow> user_program \<Rightarrow> executor \<Rightarrow> nat \<Rightarrow> callback \<Rightarrow> args \<Rightarrow> unit act" where
  "run_callback K U X n (User u) a = (\<lambda>w. run_all (run_cmd K X n) (U u a w) w)"
| "run_callback K U X n (Container_erase c key) a = container_erase c key"
| "run_callback K U X n (Connection_recv p) a = discard (connection_recv K X p)"
| "run_callback K U X n (Connection_send_flush p) a = connection_send_flush K X p"
| "run_callback K U X n (Server_accept i p) a = server_accept K X i p"
| "run_callback K U X n (Server_closed i p) a = X (Server_obj i) TCP_CLOSED (A_connection p)"
| "run_callback K U X n (Server_disconnect i p) a = X (Server_obj i) DISCONNECT (A_connection p)"
| "run_callback K U X n (Server_receive i p) (A_bytes msg) =
     X (Server_obj i) TCP_RECEIVE (A_connection_bytes p msg)"
| "run_callback K U X n (Server_receive i p) _ = raise NoSuchAction"
| "run_callback K U X n (Client_closed i p) a = X (Client_obj i) TCP_CLOSED (A_connection p)"
| "run_callback K U X n (Client_receive i p) (A_bytes msg) =
     X (Client_obj i) TCP_RECEIVE (A_connection_bytes p msg)"
| "run_callback K U X n (Client_receive i p) _ = raise NoSuchAction"
| "run_callback K U X n (Udp_recvfrom p) a = discard (raw_recvfrom K X p)"
| "run_callback K U X n (Udp_receive p) (A_address_bytes addr msg) =
     X (Socket_obj p) UDP_RECEIVE (A_address_bytes addr msg)"
| "run_callback K U X n (Udp_receive p) _ = raise NoSuchAction"
| "run_callback K U X n (Udp_closed p) a =
     andThen (get_sock p) (\<lambda>s. X (Socket_obj p) UDP_CLOSED (A_address (address s)))"

section \<open>Execution\<close>

fun execute :: "kernel \<Rightarrow> user_program \<Rightarrow> nat \<Rightarrow> executor" where
  "execute K U 0 ob t a = raise OutOfFuel"
| "execute K U (Suc n) ob t a = execute_action (run_callback K U (execute K U n) n) ob t a"

text \<open>A user's main program: a list of calls, run with the given fuel.\<close>

definition run_program :: "kernel \<Rightarrow> user_program \<Rightarrow> nat \<Rightarrow> cmd list \<Rightarrow> unit act" where
  "run_program K U n cmds = run_all (run_cmd K (execute K U n) n) cmds"

section \<open>More fuel never changes a result\<close>

lemma approx_discard [approx_rules]: "approx ft m m' \<Longrightarrow> approx ft (discard m) (discard m')"
  unfolding discard_def by (auto intro!: approx_rules)

lemma approx_run_cmd [approx_rules]:
  "(\<And>ob t a. approx ft (X ob t a) (X' ob t a)) \<Longrightarrow> n = n' \<or> n \<le> n' \<and> ft = OutOfFuel \<Longrightarrow>
   approx ft (run_cmd K X n c) (run_cmd K X' n' c)"
  by (cases c) (auto intro!: approx_rules)

lemma approx_run_callback [approx_rules]:
  assumes "\<And>ob t a. approx ft (X ob t a) (X' ob t a)" and "n = n' \<or> n \<le> n' \<and> ft = OutOfFuel"
  shows "approx ft (run_callback K U X n cb a) (run_callback K U X' n' cb a)"
proof (cases cb)
  case (User u)
  have "run_all (run_cmd K X n) (U u a w) w = Inl ft \<or>
      run_all (run_cmd K X n) (U u a w) w = run_all (run_cmd K X' n') (U u a w) w" for w
    using approx_run_all [of ft "run_cmd K X n" "run_cmd K X' n'" "U u a w"] approx_run_cmd [OF assms]
    by (auto simp: approx_def)
  then show ?thesis
    by (simp add: User approx_def)
qed (use assms in \<open>cases a; auto intro!: approx_rules\<close>)+

lemma approx_execute_action:
  assumes "\<And>cb. approx ft (run cb a) (run' cb a)"
  shows "approx ft (execute_action run ob t a) (execute_action run' ob t a)"
proof -
  have "approx ft (execute_list (touch_list ob t l) (\<lambda>cb. run cb a) l)
      (execute_list (touch_list ob t l) (\<lambda>cb. run' cb a) l)" for l
    by (rule approx_execute_list) (rule assms)
  then show ?thesis
    by (auto simp: execute_action_def approx_def split: option.splits)
qed

lemma execute_more_fuel: "n \<le> n' \<Longrightarrow> approx OutOfFuel (execute K U n ob t a) (execute K U n' ob t a)"
proof (induction n arbitrary: n' ob t a)
  case 0
  have "execute K U 0 ob t a = raise OutOfFuel" by simp
  then show ?case by (simp add: approx_out_of_fuel)
next
  case (Suc n)
  then obtain m where m: "n' = Suc m" "n \<le> m"
    by (cases n') auto
  then have "approx OutOfFuel (run_callback K U (execute K U n) n cb a) (run_callback K U (execute K U m) m cb a)" for cb
    by (intro approx_run_callback Suc.IH) simp_all
  then show ?case
    using m(1) by (simp add: approx_execute_action)
qed

lemma run_program_more_fuel: "n \<le> n' \<Longrightarrow> approx OutOfFuel (run_program K U n cmds) (run_program K U n' cmds)"
  unfolding run_program_def by (intro approx_run_all approx_run_cmd execute_more_fuel) simp_all

end
