(* ===== verification/Descriptor_Protocol.thy ===== *)
theory Descriptor_Protocol
  imports World
begin

text \<open>
  What the history of system calls may look like: an automaton over descriptors with the phases of a
  socket.  A call is permitted when the descriptors it names are in the right phase; the automaton
  follows every successful call.  The library keeps to it (theory \<open>Safety\<close>).
\<close>

section \<open>Phases of a descriptor\<close>

datatype phase = Unbound | Bound | Listening | Connected

type_synonym phases = "int \<rightharpoonup> phase"

fun advance :: "syscall \<times> sysret \<Rightarrow> phases \<Rightarrow> phases" where
  "advance (Sys_socket d ty pr, r) m = (if ret_value r < 0 then m else m(ret_value r \<mapsto> Unbound))"
| "advance (Sys_accept fd n, r) m = (if ret_value r < 0 then m else m(ret_value r \<mapsto> Connected))"
| "advance (Sys_close fd, r) m = m(fd := None)"
| "advance (Sys_bind fd a n, r) m = (if ret_value r < 0 \<or> m fd = None then m else m(fd \<mapsto> Bound))"
| "advance (Sys_listen fd n, r) m = (if ret_value r < 0 \<or> m fd = None then m else m(fd \<mapsto> Listening))"
| "advance (Sys_connect fd a n, r) m = (if ret_value r < 0 \<or> m fd = None then m else m(fd \<mapsto> Connected))"
| "advance _ m = m"

definition phases :: "history \<Rightarrow> phases" where
  "phases h = fold advance h Map.empty"

text \<open>
  \<open>permitted\<close>: nothing is done to a descriptor that is not open, except that calls on a socket object
  whose descriptor is gone may name the descriptor \<open>-1\<close>, which the kernel refuses.  A socket is bound
  and connected before it listens or is connected, listens once it is bound, and accepts and receives
  in the phases for that.
\<close>

definition opened :: "phases \<Rightarrow> int \<Rightarrow> bool" where
  "opened m fd \<longleftrightarrow> m fd \<noteq> None"

definition idle :: "phases \<Rightarrow> int \<Rightarrow> bool" where
  "idle m fd \<longleftrightarrow> m fd = Some Unbound \<or> m fd = Some Bound"

fun permitted :: "phases \<Rightarrow> syscall \<Rightarrow> bool" where
  "permitted m (Sys_close fd) = opened m fd"
| "permitted m (Sys_setsockopt fd l n v) = (fd < 0 \<or> opened m fd)"
| "permitted m (Sys_getsockopt fd l n len) = (fd < 0 \<or> opened m fd)"
| "permitted m (Sys_bind fd a n) = (fd < 0 \<or> idle m fd)"
| "permitted m (Sys_listen fd n) = (m fd = Some Bound)"
| "permitted m (Sys_accept fd n) = (m fd = Some Listening)"
| "permitted m (Sys_connect fd a n) = idle m fd"
| "permitted m (Sys_send fd b fl) = (fd < 0 \<or> opened m fd)"
| "permitted m (Sys_recv fd n fl) = (m fd = Some Connected)"
| "permitted m (Sys_sendmsg fd b fl) = idle m fd"
| "permitted m (Sys_sendto fd b fl a n) = idle m fd"
| "permitted m (Sys_recvmsg fd n fl) = idle m fd"
| "permitted m (Sys_recvfrom fd n fl k) = idle m fd"
| "permitted m (Sys_poll fds t) = list_all (\<lambda>(fd, ev). opened m fd) fds"
| "permitted m (Sys_fcntl fd c a) = (fd < 0 \<or> opened m fd)"
| "permitted m c = True"

fun follows :: "phases \<Rightarrow> history \<Rightarrow> bool" where
  "follows m [] = True"
| "follows m (e # h) = (permitted m (fst e) \<and> follows (advance e m) h)"

definition obeys :: "history \<Rightarrow> bool" where
  "obeys h = follows Map.empty h"

section \<open>Properties of the automaton\<close>

lemma phases_snoc [simp]: "phases (h @ [e]) = advance e (phases h)"
  by (simp add: phases_def)

lemma phases_Nil [simp]: "phases [] = Map.empty"
  by (simp add: phases_def)

lemma follows_snoc: "follows m (h @ [e]) = (follows m h \<and> permitted (fold advance h m) (fst e))"
  by (induction h arbitrary: m) auto

lemma obeys_snoc [simp]: "obeys (h @ [e]) = (obeys h \<and> permitted (phases h) (fst e))"
  by (simp add: obeys_def phases_def follows_snoc)

lemma obeys_Nil [simp]: "obeys []"
  by (simp add: obeys_def)

text \<open>The automaton knows exactly the open descriptors.\<close>

lemma dom_advance: "dom (advance e m) = track_descriptor e (dom m)"
  by (cases "(e, m)" rule: advance.cases) auto

lemma phases_dom: "dom (phases h) = open_fds h"
  by (induction h rule: rev_induct) (simp_all add: dom_advance)

lemma opened_iff: "opened (phases h) fd \<longleftrightarrow> fd \<in> open_fds h"
  by (auto simp: opened_def phases_dom [symmetric])

lemma phases_open: "phases h fd = Some ph \<Longrightarrow> fd \<in> open_fds h"
  by (auto simp: phases_dom [symmetric])

lemma phases_nonneg: "phases h fd = Some ph \<Longrightarrow> 0 \<le> fd"
proof (induction h arbitrary: ph rule: rev_induct)
  case (snoc e h)
  then show ?case
    by (cases "(e, phases h)" rule: advance.cases) (auto split: if_splits)
qed simp

lemma idle_opened: "idle m fd \<Longrightarrow> opened m fd"
  by (auto simp: idle_def opened_def)

text \<open>A history is the kernel's if every answer in it is what the kernel answers after what comes before.\<close>

definition from_kernel :: "kernel \<Rightarrow> history \<Rightarrow> bool" where
  "from_kernel K h \<longleftrightarrow> (\<forall>i < length h. snd (h ! i) = respond K (take i h) (fst (h ! i)))"

lemma from_kernel_Nil [simp]: "from_kernel K []"
  by (simp add: from_kernel_def)

lemma from_kernel_snoc [simp]: "from_kernel K (h @ [e]) \<longleftrightarrow> from_kernel K h \<and> snd e = respond K h (fst e)"
  by (auto simp: from_kernel_def nth_append less_Suc_eq)

text \<open>
  \<open>few_descriptors\<close>: a limit on the table of descriptors.  Every open descriptor is below it.
\<close>

definition few_descriptors :: "kernel \<Rightarrow> bool" where
  "few_descriptors K \<longleftrightarrow> (\<forall>h c. opens_descriptor c \<longrightarrow> ret_value (respond K h c) < 65533)"

lemma open_fds_few:
  assumes "few_descriptors K"
  shows "from_kernel K h \<Longrightarrow> open_fds h \<subseteq> {0..<65533}"
proof (induction h rule: rev_induct)
  case Nil
  then show ?case by simp
next
  case (snoc e h)
  have "opens_descriptor (fst e) \<Longrightarrow> ret_value (snd e) < 65533"
    using snoc.prems assms by (simp add: few_descriptors_def)
  then show ?case
    using snoc by (cases "(e, open_fds h)" rule: track_descriptor.cases) auto
qed

text \<open>Calls that change no phase.\<close>

fun steady :: "syscall \<Rightarrow> bool" where
  "steady (Sys_socket d ty pr) = False"
| "steady (Sys_accept fd n) = False"
| "steady (Sys_close fd) = False"
| "steady (Sys_bind fd a n) = False"
| "steady (Sys_listen fd n) = False"
| "steady (Sys_connect fd a n) = False"
| "steady c = True"

lemma advance_steady: "steady c \<Longrightarrow> advance (c, r) m = m"
  by (cases c) simp_all

lemma track_steady: "steady c \<Longrightarrow> track_descriptor (c, r) S = S"
  by (cases c) simp_all

lemma advance_opens:
  "opens_descriptor c \<Longrightarrow> advance (c, r) m =
     (if ret_value r < 0 then m else m(ret_value r \<mapsto> (case c of Sys_accept fd n \<Rightarrow> Connected | _ \<Rightarrow> Unbound)))"
  by (cases c) simp_all

text \<open>
  A history that obeys never uses a descriptor before it is opened, after it is closed, or across a
  close and a reopening without the opening call in between: every descriptor that is closed was
  open at that moment.
\<close>

lemma obeys_prefix: "obeys (h @ h') \<Longrightarrow> obeys h"
  by (induction h' rule: rev_induct) (simp_all add: append_assoc [symmetric] del: append_assoc)

lemma obeys_at:
  assumes "obeys (h @ (c, r) # h')"
  shows "permitted (phases h) c"
  using obeys_prefix [of "h @ [(c, r)]" h'] assms by simp

end
