(* ===== verification/Discipline.thy ===== *)
theory Discipline
  imports Dispatcher Descriptor_Protocol
begin

text \<open>
  The disciplines of user programs: what callbacks may call at all (\<open>disciplined\<close>), which objects they may
  name (\<open>careful\<close>, a check along the commands of a callback), callbacks that make no connections (\<open>timid\<close>)
  or open no socket at all (\<open>frugal\<close>), and programs that use streams only.  The
  faults a program may end in depend on them (\<open>blamed\<close>).
\<close>

section \<open>What callbacks may call\<close>

text \<open>
  What a user's callback may call: everything but registrations (which would change lists that may
  be running).  Callbacks on errors only print.  The text of an IPv6 address cannot be composed with
  \<^verbatim>\<open>to_string\<close>, so disciplined programs print addresses with \<^verbatim>\<open>get_ip\<close>.
\<close>

fun printable :: "print_item \<Rightarrow> bool" where
  "printable (Describe a) = False"
| "printable i = True"

fun printing :: "cmd \<Rightarrow> bool" where
  "printing (Print items) = list_all printable items"
| "printing c = False"

fun callback_cmd :: "cmd \<Rightarrow> bool" where
  "callback_cmd (Connection_on p t u fl) = False"
| "callback_cmd (Server_on i t u fl) = False"
| "callback_cmd (Client_on i t u fl) = False"
| "callback_cmd (Socket_on p t u fl) = False"
| "callback_cmd (Print items) = list_all printable items"
| "callback_cmd c = True"

definition disciplined :: "user_program \<Rightarrow> bool" where
  "disciplined U \<longleftrightarrow> (\<forall>u a w. list_all callback_cmd (U u a w)) \<and> (\<forall>u f e w. list_all printing (U u (A_error f e) w))"

definition env_ok :: "kernel \<Rightarrow> user_program \<Rightarrow> bool" where
  "env_ok K U \<longleftrightarrow> fresh_descriptors K \<and> resolves_family K \<and> disciplined U"

section \<open>Objects in scope\<close>

text \<open>
  Which objects a program may name, checked statically along its commands.  A scope tells the class of
  the pointers that may be used: raw and udp sockets, which no operation destroys, and the connection a
  callback is given, until a command that may destroy it.
\<close>

type_synonym scope = "ptr \<rightharpoonup> sock_class"

fun item_permitted :: "scope \<Rightarrow> print_item \<Rightarrow> bool" where
  "item_permitted E (Ip_of p) = (E p \<noteq> None)"
| "item_permitted E (Fd_of p) = (E p \<noteq> None)"
| "item_permitted E i = True"

definition datagram_in :: "scope \<Rightarrow> ptr \<Rightarrow> bool" where
  "datagram_in E p \<longleftrightarrow> E p = Some Raw_socket \<or> E p = Some Udp_socket"

fun permits :: "scope \<Rightarrow> cmd \<Rightarrow> bool" where
  "permits E (Connection_send p msg) = (E p = Some Tcp_connection)"
| "permits E (Connection_close p) = (E p = Some Tcp_connection)"
| "permits E (Connection_on p t u fl) = (E p = Some Tcp_connection)"
| "permits E (Socket_open p d ty pr) = False"
| "permits E (Socket_close p) = datagram_in E p"
| "permits E (Socket_bind p) = (E p = Some Raw_socket)"
| "permits E (Socket_on p t u fl) = datagram_in E p"
| "permits E (Socket_set_address p a) = (E p \<noteq> None)"
| "permits E (Socket_want_read p b) = (E p = Some Raw_socket)"
| "permits E (Socket_want_write p b) = (E p = Some Raw_socket)"
| "permits E (Socket_sendmsg p msg fl) = (E p = Some Raw_socket)"
| "permits E (Socket_send_to p a msg fl) = datagram_in E p"
| "permits E (Socket_recvmsg p) = (E p = Some Raw_socket)"
| "permits E (Socket_recvfrom p) = (E p = Some Raw_socket)"
| "permits E (Udp_open p af) = (E p = Some Udp_socket)"
| "permits E (Udp_bind p host port v6) = (E p = Some Udp_socket)"
| "permits E (Socket_fcntl p c a) = datagram_in E p"
| "permits E (Print items) = list_all (item_permitted E) items"
| "permits E (Set_data p x f) = (E p \<noteq> None)"
| "permits E c = True"

text \<open>Commands that destroy nothing.\<close>

fun gentle :: "cmd \<Rightarrow> bool" where
  "gentle (Connection_send p msg) = True"
| "gentle (Print items) = list_all printable items"
| "gentle (Set_data p x f) = True"
| "gentle (Assign x f) = True"
| "gentle (Read_clock x) = True"
| "gentle c = False"

definition forget :: "scope \<Rightarrow> scope" where
  "forget E p = (if E p = Some Tcp_connection then None else E p)"

fun checks :: "scope \<Rightarrow> cmd list \<Rightarrow> bool" where
  "checks E [] = True"
| "checks E (c # cs) = (permits E c \<and> checks (if gentle c then E else forget E) cs)"

fun arg_scope :: "args \<Rightarrow> scope" where
  "arg_scope (A_connection p) = [p \<mapsto> Tcp_connection]"
| "arg_scope (A_connection_bytes p b) = [p \<mapsto> Tcp_connection]"
| "arg_scope a = Map.empty"

definition scope_of :: "world \<Rightarrow> scope" where
  "scope_of w p = map_option sclass (heap w p)"

definition datagrams :: "world \<Rightarrow> scope" where
  "datagrams w = forget (scope_of w)"

text \<open>
  \<open>careful\<close>: every callback keeps to its scope.  \<open>solitary\<close>: no action of a server or client has two
  callbacks, of which the first could destroy the connection the second is given.
\<close>

definition careful :: "user_program \<Rightarrow> world \<Rightarrow> bool" where
  "careful U w \<longleftrightarrow> (\<forall>u a w'. checks (datagrams w ++ arg_scope a) (U u a w'))"

definition solitary :: "world \<Rightarrow> bool" where
  "solitary w \<longleftrightarrow> (\<forall>i t. length (srv_actions (servers w i) t) \<le> 1 \<and> length (cl_actions (clients w i) t) \<le> 1)"

definition tidy :: "user_program \<Rightarrow> world \<Rightarrow> bool" where
  "tidy U w \<longleftrightarrow> careful U w \<and> solitary w"

text \<open>Programs whose callbacks make no connections: they neither listen nor connect nor poll.\<close>

fun connecting :: "cmd \<Rightarrow> bool" where
  "connecting (Server_listen i host port six) = True"
| "connecting (Client_connect i host port six) = True"
| "connecting (Events_poll h timeout) = True"
| "connecting c = False"

definition timid :: "user_program \<Rightarrow> bool" where
  "timid U \<longleftrightarrow> (\<forall>u a w. list_all (\<lambda>c. \<not> connecting c) (U u a w))"

text \<open>
  Programs whose callbacks open no socket at all.  With a limit on the table of descriptors the change
  counter of a handler then cannot wrap around while it polls (theory \<open>Change_Counter\<close>).
\<close>

fun adding :: "cmd \<Rightarrow> bool" where
  "adding (Socket_open p d ty pr) = True"
| "adding (Udp_open p af) = True"
| "adding (Udp_bind p host port six) = True"
| "adding (Udp_send_to a msg fl) = True"
| "adding c = connecting c"

definition frugal :: "user_program \<Rightarrow> bool" where
  "frugal U \<longleftrightarrow> (\<forall>u a w. list_all (\<lambda>c. \<not> adding c) (U u a w))"

lemma frugal_timid: "frugal U \<Longrightarrow> timid U"
proof -
  have "\<not> adding c \<Longrightarrow> \<not> connecting c" for c
    by (cases c) simp_all
  then show "frugal U \<Longrightarrow> timid U"
    by (auto simp: frugal_def timid_def list_all_iff)
qed

definition counted :: "kernel \<Rightarrow> user_program \<Rightarrow> bool" where
  "counted K U \<longleftrightarrow> few_descriptors K \<and> frugal U"

text \<open>
  Worlds without raw and udp sockets, on a kernel that does not hand out descriptor 0: the assertions of
  the library are about the descriptors of these sockets and about positive descriptors.
\<close>

definition positive_descriptors :: "kernel \<Rightarrow> bool" where
  "positive_descriptors K \<longleftrightarrow> (\<forall>h c. opens_descriptor c \<longrightarrow> ret_value (respond K h c) \<noteq> 0)"

definition steadfast :: "kernel \<Rightarrow> world \<Rightarrow> bool" where
  "steadfast K w \<longleftrightarrow> positive_descriptors K \<and> datagrams w = Map.empty"

text \<open>
  The ways a disciplined program may stop: the bound of the model, and, unless it is counted, a poll
  iterator invalidated behind a change counter that wrapped around, and, unless the program is careful, a
  dead object named by the user, and, unless it uses streams only, an assertion.
\<close>

definition allowed :: "kernel \<Rightarrow> user_program \<Rightarrow> fault \<Rightarrow> bool" where
  "allowed K U e \<longleftrightarrow> e = OutOfFuel \<or> e = InvalidatedPollIterator \<and> \<not> counted K U"

definition blamed :: "kernel \<Rightarrow> user_program \<Rightarrow> world \<Rightarrow> fault \<Rightarrow> bool" where
  "blamed K U w e \<longleftrightarrow> allowed K U e \<or> e = Misuse \<and> \<not> tidy U w \<or> e = AssertFailed \<and> \<not> steadfast K w"

lemma blamed_simps [simp]:
  "blamed K U w OutOfFuel" "blamed K U w InvalidatedPollIterator = (\<not> counted K U)"
  "blamed K U w Misuse = (\<not> tidy U w)" "blamed K U w AssertFailed = (\<not> steadfast K w)"
  by (simp_all add: blamed_def allowed_def)

text \<open>A larger scope permits more.\<close>

lemma map_le_Some: "E \<subseteq>\<^sub>m E' \<Longrightarrow> E p = Some c \<Longrightarrow> E' p = Some c"
  unfolding map_le_def dom_def by force

lemma item_permitted_mono: "E \<subseteq>\<^sub>m E' \<Longrightarrow> item_permitted E i \<Longrightarrow> item_permitted E' i"
  by (cases i) (auto dest: map_le_Some)

lemma permits_mono: "E \<subseteq>\<^sub>m E' \<Longrightarrow> permits E c \<Longrightarrow> permits E' c"
  by (cases c) (auto simp: datagram_in_def list_all_iff item_permitted_mono dest: map_le_Some)

lemma forget_mono: "E \<subseteq>\<^sub>m E' \<Longrightarrow> forget E \<subseteq>\<^sub>m forget E'"
  unfolding map_le_def forget_def dom_def by (auto split: if_splits)

lemma forget_le: "forget E \<subseteq>\<^sub>m E"
  by (auto simp: map_le_def forget_def)

lemma checks_mono: "checks E cs \<Longrightarrow> E \<subseteq>\<^sub>m E' \<Longrightarrow> checks E' cs"
  by (induction cs arbitrary: E E') (auto simp: permits_mono forget_mono)

lemma map_add_mono: "E \<subseteq>\<^sub>m E' \<Longrightarrow> E ++ F \<subseteq>\<^sub>m E' ++ F"
  by (auto simp: map_le_def map_add_def split: option.splits)

lemma careful_mono: "careful U w \<Longrightarrow> datagrams w \<subseteq>\<^sub>m datagrams w' \<Longrightarrow> careful U w'"
  unfolding careful_def by (blast intro: checks_mono map_add_mono)

end
