(* ===== verification/World_Invariant.thy ===== *)
theory World_Invariant
  imports Discipline
begin

text \<open>
  The invariant \<open>sound\<close> of the state of a program and what every operation leaves of the objects that
  exist (\<open>steps\<close>).  Replacing one socket object by
  another in the same place keeps the invariant.
\<close>

section \<open>The invariant\<close>

definition handlers_ok :: "world \<Rightarrow> bool" where
  "handlers_ok w \<longleftrightarrow> (\<forall>h. handler_wf (handlers w h)) \<and>
     (\<forall>h. next_handler w \<le> h \<longrightarrow> sockets (handlers w h) = [])"

text \<open>
  A registered descriptor belongs to a live socket of this handler that has it, and every live
  socket with a descriptor is registered with its handler.
\<close>

definition registry_ok :: "world \<Rightarrow> bool" where
  "registry_ok w \<longleftrightarrow> (\<forall>h fd p r b. registry (handlers w h) fd = Some (p, r, b) \<longrightarrow>
     (\<exists>s. heap w p = Some s \<and> sock_fd s = fd \<and> shandler s = h \<and> 0 \<le> fd))"

definition polled_ok :: "world \<Rightarrow> bool" where
  "polled_ok w \<longleftrightarrow> (\<forall>p s. heap w p = Some s \<longrightarrow> 0 \<le> sock_fd s \<longrightarrow>
     (\<exists>r b. registry (handlers w (shandler s)) (sock_fd s) = Some (p, r, b)))"

text \<open>
  Descriptors of live sockets are not shared, and each is in the phase its socket is made for: raw and
  udp sockets are at most bound, a connection that accepts listens, one that receives is connected.
\<close>

fun hook_allows :: "callback \<Rightarrow> phase \<Rightarrow> bool" where
  "hook_allows (Server_accept i p) ph = (ph = Listening)"
| "hook_allows (Connection_recv p) ph = (ph = Connected)"
| "hook_allows cb ph = True"

definition allows :: "sock \<Rightarrow> phase \<Rightarrow> bool" where
  "allows s ph \<longleftrightarrow> (if sclass s = Tcp_connection then \<forall>cb \<in> set (sactions s READABLE). hook_allows (exec cb) ph
     else ph = Unbound \<or> ph = Bound)"

definition fits :: "phases \<Rightarrow> sock \<Rightarrow> bool" where
  "fits m s \<longleftrightarrow> (\<exists>ph. m (sock_fd s) = Some ph \<and> allows s ph)"

definition fds_ok :: "world \<Rightarrow> bool" where
  "fds_ok w \<longleftrightarrow>
     (\<forall>p s. heap w p = Some s \<longrightarrow> 0 \<le> sock_fd s \<longrightarrow> fits (phases (trace w)) s) \<and>
     (\<forall>p q s t. heap w p = Some s \<longrightarrow> heap w q = Some t \<longrightarrow> 0 \<le> sock_fd s \<longrightarrow> sock_fd s = sock_fd t \<longrightarrow> p = q)"

text \<open>The history is the kernel's and keeps to the protocol of descriptors.\<close>

definition protocol_ok :: "kernel \<Rightarrow> world \<Rightarrow> bool" where
  "protocol_ok K w \<longleftrightarrow> obeys (trace w) \<and> from_kernel K (trace w)"

text \<open>The callback lists of the three classes of sockets.\<close>

definition closing_hook :: "ptr \<Rightarrow> callback \<Rightarrow> bool" where
  "closing_hook p cb \<longleftrightarrow> (\<exists>i. cb = Server_closed i p \<or> cb = Server_disconnect i p \<or> cb = Client_closed i p)"

fun tcp_callback :: "ptr \<Rightarrow> tag \<Rightarrow> callback \<Rightarrow> bool" where
  "tcp_callback p READABLE cb \<longleftrightarrow> cb = Connection_recv p \<or> (\<exists>i. cb = Server_accept i p)"
| "tcp_callback p WRITEABLE cb \<longleftrightarrow> cb = Connection_send_flush p"
| "tcp_callback p RECV cb \<longleftrightarrow> (\<exists>i. cb = Server_receive i p \<or> cb = Client_receive i p)"
| "tcp_callback p t cb \<longleftrightarrow> False"

definition home :: "sock \<Rightarrow> (container_ref \<times> int) option" where
  "home s = (if sactions s CLOSED = [] then None else
     case exec (last (sactions s CLOSED)) of Container_erase c k \<Rightarrow> Some (c, k) | _ \<Rightarrow> None)"

definition tcp_shape :: "ptr \<Rightarrow> sock \<Rightarrow> bool" where
  "tcp_shape p s \<longleftrightarrow>
     (\<exists>pre c k. sactions s CLOSED = pre @ [erase_callback c k] \<and>
        (\<forall>cb \<in> set pre. flags cb = 0 \<and> closing_hook p (exec cb))) \<and>
     (\<forall>t. t \<noteq> CLOSED \<longrightarrow> length (sactions s t) \<le> 1 \<and> (\<forall>cb \<in> set (sactions s t). tcp_callback p t (exec cb)))"

fun datagram_callback :: "ptr \<Rightarrow> tag \<Rightarrow> callback \<Rightarrow> bool" where
  "datagram_callback p t (User u) = True"
| "datagram_callback p t (Udp_recvfrom q) = (q = p \<and> t = READABLE)"
| "datagram_callback p t (Udp_receive q) = (q = p \<and> t = RECVFROM)"
| "datagram_callback p t (Udp_closed q) = (q = p \<and> t = CLOSED)"
| "datagram_callback p t cb = False"

fun is_user :: "callback \<Rightarrow> bool" where
  "is_user (User u) = True"
| "is_user cb = False"

definition sock_shape :: "ptr \<Rightarrow> sock \<Rightarrow> bool" where
  "sock_shape p s \<longleftrightarrow> (case sclass s of
       Tcp_connection \<Rightarrow> tcp_shape p s
     | Raw_socket \<Rightarrow> (\<forall>t. \<forall>cb \<in> set (sactions s t). is_user (exec cb))
     | Udp_socket \<Rightarrow> (\<forall>t. \<forall>cb \<in> set (sactions s t). datagram_callback p t (exec cb)))"

definition heap_ok :: "world \<Rightarrow> bool" where
  "heap_ok w \<longleftrightarrow> (\<forall>p s. heap w p = Some s \<longrightarrow>
     p < next_ptr w \<and> shandler s < next_handler w \<and> sock_shape p s)"

text \<open>Containers store exactly the live connections, each under the key its erasing callback names.\<close>

definition stored :: "world \<Rightarrow> container_ref \<Rightarrow> int \<Rightarrow> ptr \<Rightarrow> bool" where
  "stored w c k p \<longleftrightarrow> map_find (c_sockets (get_container c w)) k = Some p"

definition containers_ok :: "world \<Rightarrow> bool" where
  "containers_ok w \<longleftrightarrow>
     (\<forall>c. map_wf (c_sockets (get_container c w)) \<and> c_handler (get_container c w) < next_handler w) \<and>
     (\<forall>c k p. stored w c k p \<longrightarrow>
        (\<exists>s. heap w p = Some s \<and> sclass s = Tcp_connection \<and> home s = Some (c, k))) \<and>
     (\<forall>p s. heap w p = Some s \<longrightarrow> sclass s = Tcp_connection \<longrightarrow>
        (\<exists>c k. home s = Some (c, k) \<and> stored w c k p))"

text \<open>
  An open connection is stored under its descriptor, and connections share the handler of their
  container.
\<close>

definition places_ok :: "world \<Rightarrow> bool" where
  "places_ok w \<longleftrightarrow> (\<forall>p s c k. heap w p = Some s \<longrightarrow> sclass s = Tcp_connection \<longrightarrow> home s = Some (c, k) \<longrightarrow>
     (0 \<le> sock_fd s \<longrightarrow> sock_fd s = k) \<and> shandler s = c_handler (get_container c w))"

definition tables_ok :: "world \<Rightarrow> bool" where
  "tables_ok w \<longleftrightarrow> (\<forall>i t. (\<forall>cb \<in> set (srv_actions (servers w i) t). is_user (exec cb)) \<and>
     (\<forall>cb \<in> set (cl_actions (clients w i) t). is_user (exec cb)))"

text \<open>
  No descriptor leaks: an open one, but for those in \<open>L\<close>, belongs to a live socket.  A callback that makes
  a connection while another is being closed may be given the descriptor under which that one is still
  stored; the library then drops it.
\<close>

definition owners_ok :: "int set \<Rightarrow> user_program \<Rightarrow> world \<Rightarrow> bool" where
  "owners_ok L U w \<longleftrightarrow> (timid U \<longrightarrow> (\<forall>fd \<in> open_fds (trace w) - L. \<exists>p s. heap w p = Some s \<and> sock_fd s = fd))"

definition sound_but :: "int set \<Rightarrow> kernel \<Rightarrow> user_program \<Rightarrow> world \<Rightarrow> bool" where
  "sound_but L K U w \<longleftrightarrow> env_ok K U \<and> handlers_ok w \<and> registry_ok w \<and> fds_ok w \<and> heap_ok w \<and>
     containers_ok w \<and> tables_ok w \<and> polled_ok w \<and> places_ok w \<and> protocol_ok K w \<and> owners_ok L U w"

abbreviation sound :: "kernel \<Rightarrow> user_program \<Rightarrow> world \<Rightarrow> bool" where
  "sound \<equiv> sound_but {}"

section \<open>What every operation keeps\<close>

text \<open>
  \<open>persistent\<close> objects survive every operation: raw and udp sockets, and connections whose \<open>CLOSED\<close>
  action is running.
\<close>

definition persistent :: "sock \<Rightarrow> bool" where
  "persistent s \<longleftrightarrow> sclass s \<noteq> Tcp_connection \<or> sock_fd s < 0"

text \<open>A connection is \<open>closing\<close> while its \<open>CLOSED\<close> action runs; no operation leaves another one behind.\<close>

definition closing :: "sock \<Rightarrow> bool" where
  "closing s \<longleftrightarrow> sclass s = Tcp_connection \<and> sock_fd s < 0"

definition at_rest :: "world \<Rightarrow> bool" where
  "at_rest w \<longleftrightarrow> (\<forall>p s. heap w p = Some s \<longrightarrow> \<not> closing s)"

definition calm :: "user_program \<Rightarrow> world \<Rightarrow> bool" where
  "calm U w \<longleftrightarrow> (timid U \<longrightarrow> at_rest w)"

definition steps :: "ptr set \<Rightarrow> world \<Rightarrow> world \<Rightarrow> bool" where
  "steps D w0 w \<longleftrightarrow>
     next_ptr w0 \<le> next_ptr w \<and> next_handler w0 \<le> next_handler w \<and>
     (\<forall>p s'. p < next_ptr w0 \<longrightarrow> heap w p = Some s' \<longrightarrow>
        (\<exists>s. heap w0 p = Some s \<and> sclass s' = sclass s \<and> sactions s' = sactions s \<and> shandler s' = shandler s)) \<and>
     (\<forall>p s. heap w0 p = Some s \<longrightarrow> persistent s \<longrightarrow> p \<notin> D \<longrightarrow>
        (\<exists>s'. heap w p = Some s' \<and> persistent s' \<and> sclass s' = sclass s)) \<and>
     (\<forall>p s'. heap w p = Some s' \<longrightarrow> sclass s' \<noteq> Tcp_connection \<longrightarrow>
        (\<exists>s. heap w0 p = Some s \<and> sclass s = sclass s') \<or> p \<in> D \<and> next_ptr w0 \<le> p) \<and>
     (\<forall>p s'. heap w p = Some s' \<longrightarrow> closing s' \<longrightarrow> p \<notin> D \<longrightarrow> (\<exists>s. heap w0 p = Some s \<and> closing s)) \<and>
     (\<forall>i. srv_handler (servers w i) = srv_handler (servers w0 i)) \<and>
     (\<forall>i. srv_actions (servers w i) = srv_actions (servers w0 i)) \<and>
     (\<forall>i. cl_actions (clients w i) = cl_actions (clients w0 i)) \<and>
     (\<forall>c. c_handler (get_container c w) = c_handler (get_container c w0)) \<and>
     (\<forall>h. h < next_handler w0 \<longrightarrow> storage (handlers w0 h) \<le> storage (handlers w h) \<and>
        (storage (handlers w h) = storage (handlers w0 h) \<longrightarrow>
           socket_ptrs (handlers w h) = socket_ptrs (handlers w0 h)))"

lemma stepsI:
  assumes "next_ptr w0 \<le> next_ptr w" and "next_handler w0 \<le> next_handler w"
    and "\<And>p s'. p < next_ptr w0 \<Longrightarrow> heap w p = Some s' \<Longrightarrow>
      \<exists>s. heap w0 p = Some s \<and> sclass s' = sclass s \<and> sactions s' = sactions s \<and> shandler s' = shandler s"
    and "\<And>p s. heap w0 p = Some s \<Longrightarrow> persistent s \<Longrightarrow> p \<notin> D \<Longrightarrow>
      \<exists>s'. heap w p = Some s' \<and> persistent s' \<and> sclass s' = sclass s"
    and "\<And>p s'. heap w p = Some s' \<Longrightarrow> sclass s' \<noteq> Tcp_connection \<Longrightarrow>
      (\<exists>s. heap w0 p = Some s \<and> sclass s = sclass s') \<or> p \<in> D \<and> next_ptr w0 \<le> p"
    and "\<And>p s'. heap w p = Some s' \<Longrightarrow> closing s' \<Longrightarrow> p \<notin> D \<Longrightarrow> \<exists>s. heap w0 p = Some s \<and> closing s"
    and "\<And>i. srv_handler (servers w i) = srv_handler (servers w0 i)"
    and "\<And>i. srv_actions (servers w i) = srv_actions (servers w0 i)"
    and "\<And>i. cl_actions (clients w i) = cl_actions (clients w0 i)"
    and "\<And>c. c_handler (get_container c w) = c_handler (get_container c w0)"
    and "\<And>h. h < next_handler w0 \<Longrightarrow> storage (handlers w0 h) \<le> storage (handlers w h)"
    and "\<And>h. h < next_handler w0 \<Longrightarrow> storage (handlers w h) = storage (handlers w0 h) \<Longrightarrow>
      socket_ptrs (handlers w h) = socket_ptrs (handlers w0 h)"
  shows "steps D w0 w"
  using assms unfolding steps_def by simp

lemma steps_refl [simp]: "steps D w w"
  by (simp add: steps_def)

lemma steps_mono: "steps D w0 w \<Longrightarrow> D \<subseteq> D' \<Longrightarrow> steps D' w0 w"
  unfolding steps_def by blast

lemma steps_trans:
  assumes "steps D w0 w1" and "steps D w1 w2"
  shows "steps D w0 w2"
proof -
  have "\<exists>s. heap w0 p = Some s \<and> sclass s' = sclass s \<and> sactions s' = sactions s \<and> shandler s' = shandler s"
    if p: "p < next_ptr w0" "heap w2 p = Some s'" for p s'
  proof -
    have "p < next_ptr w1" using assms(1) p(1) by (auto simp: steps_def)
    then obtain t where "heap w1 p = Some t" "sclass s' = sclass t" "sactions s' = sactions t" "shandler s' = shandler t"
      using assms(2) p(2) unfolding steps_def by blast
    then show ?thesis
      using assms(1) p(1) unfolding steps_def by fastforce
  qed
  moreover have "\<exists>s'. heap w2 p = Some s' \<and> persistent s' \<and> sclass s' = sclass s"
    if p: "heap w0 p = Some s" "persistent s" "p \<notin> D" for p s
  proof -
    obtain t where t: "heap w1 p = Some t" "persistent t" "sclass t = sclass s"
      using assms(1) p unfolding steps_def by blast
    then obtain t' where "heap w2 p = Some t'" "persistent t'" "sclass t' = sclass t"
      using assms(2) p(3) unfolding steps_def by blast
    then show ?thesis using t(3) by simp
  qed
  moreover have "(\<exists>s. heap w0 p = Some s \<and> sclass s = sclass s') \<or> p \<in> D \<and> next_ptr w0 \<le> p"
    if p: "heap w2 p = Some s'" "sclass s' \<noteq> Tcp_connection" for p s'
  proof -
    have "next_ptr w0 \<le> next_ptr w1" using assms(1) by (simp add: steps_def)
    moreover have "(\<exists>t. heap w1 p = Some t \<and> sclass t = sclass s') \<or> p \<in> D \<and> next_ptr w1 \<le> p"
      using assms(2) p unfolding steps_def by blast
    moreover have "(\<exists>s. heap w0 p = Some s \<and> sclass s = sclass t) \<or> p \<in> D \<and> next_ptr w0 \<le> p"
      if "heap w1 p = Some t" "sclass t \<noteq> Tcp_connection" for t
      using assms(1) that unfolding steps_def by blast
    ultimately show ?thesis using p(2) by auto
  qed
  moreover have "\<exists>s. heap w0 p = Some s \<and> closing s" if p: "heap w2 p = Some s'" "closing s'" "p \<notin> D" for p s'
  proof -
    obtain t where "heap w1 p = Some t" "closing t"
      using assms(2) p unfolding steps_def by blast
    then show ?thesis
      using assms(1) p(3) unfolding steps_def by blast
  qed
  moreover have "storage (handlers w0 h) \<le> storage (handlers w2 h) \<and>
        (storage (handlers w2 h) = storage (handlers w0 h) \<longrightarrow>
           socket_ptrs (handlers w2 h) = socket_ptrs (handlers w0 h))" if "h < next_handler w0" for h
  proof -
    have "h < next_handler w1" using assms(1) that by (auto simp: steps_def)
    then have "storage (handlers w1 h) \<le> storage (handlers w2 h)"
        "storage (handlers w2 h) = storage (handlers w1 h) \<Longrightarrow> socket_ptrs (handlers w2 h) = socket_ptrs (handlers w1 h)"
      using assms(2) by (simp_all add: steps_def)
    moreover have "storage (handlers w0 h) \<le> storage (handlers w1 h)"
        "storage (handlers w1 h) = storage (handlers w0 h) \<Longrightarrow> socket_ptrs (handlers w1 h) = socket_ptrs (handlers w0 h)"
      using assms(1) that by (simp_all add: steps_def)
    ultimately show ?thesis by auto
  qed
  ultimately show ?thesis
    using assms unfolding steps_def by (intro conjI allI impI) (auto intro: order_trans)
qed

lemma rest_steps: "steps {} w w' \<Longrightarrow> at_rest w \<Longrightarrow> at_rest w'"
  unfolding at_rest_def steps_def by blast

lemma calm_steps: "steps {} w w' \<Longrightarrow> calm U w \<Longrightarrow> calm U w'"
  using rest_steps by (auto simp: calm_def)

lemma calm_rest: "at_rest w \<Longrightarrow> calm U w"
  by (simp add: calm_def)

text \<open>
  What the faults are blamed on at the end of steps was already so at their start, when of the objects
  there only connections were destroyed, and no raw or udp socket was made.
\<close>

definition harmless :: "ptr set \<Rightarrow> world \<Rightarrow> bool" where
  "harmless D w \<longleftrightarrow> (\<forall>p \<in> D. \<forall>s. heap w p = Some s \<longrightarrow> sclass s = Tcp_connection)"

definition fresh_objects :: "ptr set \<Rightarrow> world \<Rightarrow> bool" where
  "fresh_objects D w \<longleftrightarrow> (\<exists>p \<in> D. next_ptr w \<le> p)"

lemma harmless_empty [simp]: "harmless {} w" "\<not> fresh_objects {} w"
  by (simp_all add: harmless_def fresh_objects_def)

lemma harmless_mono: "harmless D' w \<Longrightarrow> D \<subseteq> D' \<Longrightarrow> harmless D w" "fresh_objects D w \<Longrightarrow> D \<subseteq> D' \<Longrightarrow> fresh_objects D' w"
  by (auto simp: harmless_def fresh_objects_def)

lemma datagrams_Some: "datagrams w p = Some c \<longleftrightarrow> (\<exists>s. heap w p = Some s \<and> sclass s = c \<and> c \<noteq> Tcp_connection)"
  by (auto simp: datagrams_def forget_def scope_of_def)

lemma datagrams_steps:
  assumes "steps D w0 w" and "harmless D w0"
  shows "datagrams w0 \<subseteq>\<^sub>m datagrams w"
proof -
  have "datagrams w p = Some c" if a: "datagrams w0 p = Some c" for p c
  proof -
    obtain s where s: "heap w0 p = Some s" "sclass s = c" "c \<noteq> Tcp_connection"
      using a by (auto simp: datagrams_Some)
    then have "p \<notin> D" "persistent s"
      using assms(2) by (auto simp: harmless_def persistent_def)
    then obtain s' where "heap w p = Some s'" "sclass s' = sclass s"
      using assms(1) s(1) unfolding steps_def by blast
    then show ?thesis using s by (simp add: datagrams_Some)
  qed
  then show ?thesis
    by (auto simp: map_le_def dom_def)
qed

lemma solitary_steps: "steps D w0 w \<Longrightarrow> solitary w = solitary w0"
  by (simp add: steps_def solitary_def)

lemma tidy_steps: "steps D w0 w \<Longrightarrow> harmless D w0 \<Longrightarrow> tidy U w0 \<Longrightarrow> tidy U w"
  using careful_mono datagrams_steps solitary_steps by (auto simp: tidy_def)

lemma steadfast_steps:
  assumes "steps D w0 w" and "harmless D w0" and "\<not> fresh_objects D w0" and "steadfast K w0"
  shows "steadfast K w"
proof -
  have "datagrams w p = None" for p
  proof (rule ccontr)
    assume "datagrams w p \<noteq> None"
    then obtain c where "datagrams w p = Some c" by auto
    then obtain s' where s': "heap w p = Some s'" "sclass s' \<noteq> Tcp_connection"
      by (auto simp: datagrams_Some)
    then have "(\<exists>s. heap w0 p = Some s \<and> sclass s = sclass s') \<or> p \<in> D \<and> next_ptr w0 \<le> p"
      using assms(1) unfolding steps_def by blast
    moreover have "datagrams w0 p = None"
      using assms(4) by (simp add: steadfast_def)
    ultimately show False
      using s'(2) assms(2,3) datagrams_Some [of w0 p "sclass s'"] by (auto simp: harmless_def fresh_objects_def)
  qed
  then show ?thesis
    using assms(4) by (auto simp: steadfast_def)
qed

lemma blamed_steps:
  "steps D w0 w \<Longrightarrow> harmless D w0 \<Longrightarrow> blamed K U w e \<Longrightarrow> blamed K U w0 e \<or> e = AssertFailed \<and> fresh_objects D w0"
  using tidy_steps steadfast_steps unfolding blamed_def by blast

lemma datagram_not_steadfast: "heap w p = Some s \<Longrightarrow> sclass s \<noteq> Tcp_connection \<Longrightarrow> \<not> steadfast K w"
  using datagrams_Some [of w p "sclass s"] by (auto simp: steadfast_def)

lemmas inv_parts = handlers_ok_def registry_ok_def fds_ok_def heap_ok_def containers_ok_def tables_ok_def
  polled_ok_def places_ok_def protocol_ok_def owners_ok_def

text \<open>The descriptor of a live socket, as the automaton sees it.\<close>

lemma fd_fits_but: "sound_but L K U w \<Longrightarrow> heap w p = Some s \<Longrightarrow> 0 \<le> sock_fd s \<Longrightarrow> fits (phases (trace w)) s"
  unfolding sound_but_def fds_ok_def by blast

lemmas fd_fits = fd_fits_but [where L = "{}"]

lemma fits_open: "fits (phases h) s \<Longrightarrow> sock_fd s \<in> open_fds h"
  by (auto simp: fits_def intro: phases_open)

lemma fits_role: "sock_fd s' = sock_fd s \<Longrightarrow> sclass s' = sclass s \<Longrightarrow> sactions s' READABLE = sactions s READABLE \<Longrightarrow>
    fits m s' = fits m s"
  by (simp add: fits_def allows_def)

lemma fits_advance: "advance e m (sock_fd s) = m (sock_fd s) \<Longrightarrow> fits (advance e m) s = fits m s"
  by (simp add: fits_def)

lemma is_polled_but: "sound_but L K U w \<Longrightarrow> heap w p = Some s \<Longrightarrow> 0 \<le> sock_fd s \<Longrightarrow>
    \<exists>r b. registry (handlers w (shandler s)) (sock_fd s) = Some (p, r, b)"
  unfolding sound_but_def polled_ok_def by blast

lemma in_place_but: "sound_but L K U w \<Longrightarrow> heap w p = Some s \<Longrightarrow> sclass s = Tcp_connection \<Longrightarrow> home s = Some (c, k) \<Longrightarrow>
    (0 \<le> sock_fd s \<longrightarrow> sock_fd s = k) \<and> shandler s = c_handler (get_container c w)"
  unfolding sound_but_def places_ok_def by blast

lemma soundD_but:
  assumes "sound_but L K U w"
  shows "env_ok K U" "handler_wf (handlers w h)" "next_handler w \<le> h \<Longrightarrow> sockets (handlers w h) = []"
    "registry (handlers w h) fd = Some (p, r, b) \<Longrightarrow>
       \<exists>s. heap w p = Some s \<and> sock_fd s = fd \<and> shandler s = h \<and> 0 \<le> fd"
    "heap w p = Some s \<Longrightarrow> 0 \<le> sock_fd s \<Longrightarrow> sock_fd s \<in> open_fds (trace w)"
    "heap w p = Some s \<Longrightarrow> heap w q = Some t \<Longrightarrow> 0 \<le> sock_fd s \<Longrightarrow> sock_fd s = sock_fd t \<Longrightarrow> p = q"
    "heap w p = Some s \<Longrightarrow> p < next_ptr w" "heap w p = Some s \<Longrightarrow> shandler s < next_handler w"
    "heap w p = Some s \<Longrightarrow> sock_shape p s"
    "map_wf (c_sockets (get_container c w))" "c_handler (get_container c w) < next_handler w"
    "stored w c k p \<Longrightarrow> \<exists>s. heap w p = Some s \<and> sclass s = Tcp_connection \<and> home s = Some (c, k)"
    "heap w p = Some s \<Longrightarrow> sclass s = Tcp_connection \<Longrightarrow> \<exists>c k. home s = Some (c, k) \<and> stored w c k p"
  using assms fd_fits_but [OF assms, THEN fits_open] unfolding sound_but_def inv_parts by simp_all

lemmas is_polled = is_polled_but [where L = "{}"]
lemmas in_place = in_place_but [where L = "{}"]
lemmas soundD = soundD_but [where L = "{}"]

lemma owned: "sound_but L K U w \<Longrightarrow> timid U \<Longrightarrow> fd \<in> open_fds (trace w) \<Longrightarrow> fd \<in> L \<or> (\<exists>p s. heap w p = Some s \<and> sock_fd s = fd)"
  unfolding sound_but_def owners_ok_def by blast

lemma owned_other:
  assumes "sound_but L K U w" and "timid U" and "fd \<in> open_fds (trace w)" and "fd \<notin> L"
    and "\<And>s. heap w p = Some s \<Longrightarrow> sock_fd s \<noteq> fd"
  shows "\<exists>q t. q \<noteq> p \<and> heap w q = Some t \<and> sock_fd t = fd"
  using owned [OF assms(1-3)] assms(4,5) by metis

lemma bold_sound: "sound_but L K U w \<Longrightarrow> \<not> timid U \<Longrightarrow> sound K U w"
  by (simp add: sound_but_def owners_ok_def)

lemma open_nonneg: "fd \<in> open_fds h \<Longrightarrow> 0 \<le> fd"
  using phases_nonneg [of h fd] phases_dom [of h] by blast

lemma registered_but:
  assumes "sound_but L K U w" and "registry (handlers w h) fd = Some (p, r, b)"
  obtains s where "heap w p = Some s" "sock_fd s = fd" "shandler s = h" "0 \<le> fd"
  using soundD_but(4) [OF assms] by blast

lemma stored_connection_but:
  assumes "sound_but L K U w" and "stored w c k p"
  obtains s where "heap w p = Some s" "sclass s = Tcp_connection" "home s = Some (c, k)"
  using soundD_but(12) [OF assms] by blast

lemma connection_stored_but:
  assumes "sound_but L K U w" and "heap w p = Some s" and "sclass s = Tcp_connection"
  obtains c k where "home s = Some (c, k)" "stored w c k p"
  using soundD_but(13) [OF assms] by blast

lemmas registered = registered_but [where L = "{}"]
lemmas stored_connection = stored_connection_but [where L = "{}"]
lemmas connection_stored = connection_stored_but [where L = "{}"]

text \<open>A registered descriptor is open: a fresh one is not registered.\<close>

lemma unregistered:
  assumes "sound K U w" and "fd \<notin> open_fds (trace w)"
  shows "registry (handlers w h) fd = None"
proof (cases "registry (handlers w h) fd")
  case (Some e)
  then obtain p r b where "registry (handlers w h) fd = Some (p, r, b)"
    by (cases e) auto
  then show ?thesis
    using soundD(4,5) [OF assms(1)] assms(2) by blast
qed simp

lemma live_fd: "sound K U w \<Longrightarrow> fd \<notin> open_fds (trace w) \<Longrightarrow> 0 \<le> fd \<Longrightarrow> heap w p = Some s \<Longrightarrow> sock_fd s \<noteq> fd"
  using soundD(5) by blast

section \<open>Steps that keep the invariant\<close>

text \<open>System calls; the history matters only through the phases of the descriptors.\<close>

lemma inv_after:
  assumes I: "sound K U w" and "permitted (phases (trace w)) c"
    and "\<And>p s. heap w p = Some s \<Longrightarrow> 0 \<le> sock_fd s \<Longrightarrow> fits (advance (c, reply K c w) (phases (trace w))) s"
    and "track_descriptor (c, reply K c w) (open_fds (trace w)) \<subseteq> open_fds (trace w) \<union> L"
  shows "sound_but L K U (after K c w) \<and> steps {} w (after K c w)"
proof
  have "fds_ok (after K c w)" "protocol_ok K (after K c w)"
    using assms soundD(6) [OF I] by (auto simp: fds_ok_def sound_but_def protocol_ok_def reply_def)
  moreover have "owners_ok L U (after K c w)"
    using assms(4) owned [OF I] by (auto simp: owners_ok_def)
  moreover have "handlers_ok (after K c w)" "registry_ok (after K c w)" "heap_ok (after K c w)" "containers_ok (after K c w)"
      "tables_ok (after K c w)" "polled_ok (after K c w)" "places_ok (after K c w)"
    using I by (simp_all add: sound_but_def handlers_ok_def registry_ok_def heap_ok_def containers_ok_def tables_ok_def
        polled_ok_def places_ok_def stored_def)
  ultimately show "sound_but L K U (after K c w)"
    using I by (simp add: sound_but_def)
  show "steps {} w (after K c w)"
    by (auto simp: steps_def)
qed

text \<open>Calls that change no phase, and calls that open a descriptor: nobody has it yet.\<close>

lemma inv_call:
  assumes I: "sound K U w" and c: "steady c" "permitted (phases (trace w)) c"
  shows "sound K U (after K c w) \<and> steps {} w (after K c w)"
  by (rule inv_after [OF I c(2)]) (use c(1) fd_fits [OF I] in \<open>simp_all add: advance_steady track_steady\<close>)

lemma inv_opening:
  assumes I: "sound K U w" and c: "opens_descriptor c" "permitted (phases (trace w)) c"
  shows "sound_but (if ret_value (reply K c w) < 0 then {} else {ret_value (reply K c w)}) K U (after K c w) \<and>
    steps {} w (after K c w)"
proof (rule inv_after [OF I c(2)])
  fix p s assume s: "heap w p = Some s" "0 \<le> sock_fd s"
  have f: "fits (phases (trace w)) s" by (rule fd_fits [OF I s])
  have "ret_value (reply K c w) \<notin> open_fds (trace w)"
    using I c(1) by (simp add: sound_but_def env_ok_def fresh_descriptors_def reply_def)
  then have "sock_fd s \<noteq> ret_value (reply K c w)"
    using fits_open [OF f] by auto
  then show "fits (advance (c, reply K c w) (phases (trace w))) s"
    using f c(1) by (simp add: advance_opens fits_def)
next
  show "track_descriptor (c, reply K c w) (open_fds (trace w)) \<subseteq>
      open_fds (trace w) \<union> (if ret_value (reply K c w) < 0 then {} else {ret_value (reply K c w)})"
    using c(1) by (cases c) auto
qed

text \<open>Calls that change the phase of a socket's own descriptor.\<close>

lemma inv_phase:
  assumes I: "sound K U w" and p: "heap w p = Some s" and c: "permitted (phases (trace w)) c"
    and only: "\<And>fd. fd \<noteq> sock_fd s \<Longrightarrow> advance (c, reply K c w) (phases (trace w)) fd = phases (trace w) fd"
    and own: "0 \<le> sock_fd s \<Longrightarrow> fits (advance (c, reply K c w) (phases (trace w))) s"
    and same: "track_descriptor (c, reply K c w) (open_fds (trace w)) = open_fds (trace w)"
  shows "sound K U (after K c w) \<and> steps {} w (after K c w)"
proof (rule inv_after [OF I c])
  fix q t assume t: "heap w q = Some t" "0 \<le> sock_fd t"
  show "fits (advance (c, reply K c w) (phases (trace w))) t"
  proof (cases "sock_fd t = sock_fd s")
    case True
    then have "q = p" using soundD(6) [OF I t(1) p t(2)] by simp
    then show ?thesis using t p own by simp
  next
    case False
    then show ?thesis
      using fd_fits [OF I t] fits_advance [OF only [OF False]] by simp
  qed
qed (simp add: same)

text \<open>What a socket may ask of the kernel about its own descriptor.\<close>

lemma own_opened: "sound K U w \<Longrightarrow> heap w p = Some s \<Longrightarrow> sock_fd s < 0 \<or> opened (phases (trace w)) (sock_fd s)"
  using soundD(5) [of K U w p s] by (cases "0 \<le> sock_fd s") (auto simp: opened_iff)

lemma datagram_idle: "sound K U w \<Longrightarrow> heap w p = Some s \<Longrightarrow> sclass s \<noteq> Tcp_connection \<Longrightarrow> 0 \<le> sock_fd s \<Longrightarrow>
    idle (phases (trace w)) (sock_fd s)"
  using fd_fits [of K U w p s] by (auto simp: fits_def allows_def idle_def)

text \<open>The user's own variables play no part in the invariant.\<close>

lemma get_container_variables [simp]: "get_container c (w\<lparr>variables := v\<rparr>) = get_container c w"
  by (rule get_container_cong) simp_all

lemma inv_variables:
  "sound K U w \<Longrightarrow> sound K U (w\<lparr>variables := v\<rparr>) \<and> steps {} w (w\<lparr>variables := v\<rparr>)"
  unfolding sound_but_def inv_parts steps_def stored_def by auto

text \<open>Updates of one socket that keep its class, open descriptor, handler and callbacks.\<close>

definition same_role :: "sock \<Rightarrow> sock \<Rightarrow> bool" where
  "same_role s' s \<longleftrightarrow> sclass s' = sclass s \<and> shandler s' = shandler s \<and> sactions s' = sactions s \<and>
     (sock_fd s' = sock_fd s \<or> sock_fd s' < 0 \<and> sock_fd s < 0)"

lemma same_role_facts:
  "same_role s' s \<Longrightarrow> home s' = home s \<and> sock_shape p s' = sock_shape p s \<and> persistent s' = persistent s"
  by (auto simp: same_role_def home_def sock_shape_def tcp_shape_def persistent_def split: sock_class.splits)

lemma get_container_heap [simp]: "get_container c (w\<lparr>heap := H\<rparr>) = get_container c w"
  by (rule get_container_cong) simp_all

lemma stored_simps [simp]:
  "stored (w\<lparr>heap := H\<rparr>) c k p = stored w c k p" "stored (after K call w) c k p = stored w c k p"
  "stored (set_handler h x w) c k p = stored w c k p"
  by (simp_all add: stored_def)

lemma same_role_refl [simp]: "same_role s s"
  by (simp add: same_role_def)

section \<open>Updates of one object\<close>

text \<open>
  The invariant, object by object: what it says of one socket.  Most operations change one object, its
  entry in a handler and its entry in a container, and leave the others alone.
\<close>

definition object_ok :: "world \<Rightarrow> ptr \<Rightarrow> sock \<Rightarrow> bool" where
  "object_ok w p s \<longleftrightarrow> p < next_ptr w \<and> shandler s < next_handler w \<and> sock_shape p s \<and>
     (0 \<le> sock_fd s \<longrightarrow> fits (phases (trace w)) s \<and>
        (\<exists>r b. registry (handlers w (shandler s)) (sock_fd s) = Some (p, r, b))) \<and>
     (sclass s = Tcp_connection \<longrightarrow> (\<exists>c k. home s = Some (c, k) \<and> stored w c k p \<and>
        (0 \<le> sock_fd s \<longrightarrow> sock_fd s = k) \<and> shandler s = c_handler (get_container c w)))"

lemma object_ok_same:
  assumes "object_ok w p s" and "next_ptr w \<le> next_ptr w'" and "next_handler w \<le> next_handler w'"
    and "0 \<le> sock_fd s \<Longrightarrow> phases (trace w') (sock_fd s) = phases (trace w) (sock_fd s)"
    and "\<And>h fd r b. registry (handlers w h) fd = Some (p, r, b) \<Longrightarrow> \<exists>r b. registry (handlers w' h) fd = Some (p, r, b)"
    and "\<And>c k. stored w c k p \<Longrightarrow> stored w' c k p" and "\<And>c. c_handler (get_container c w') = c_handler (get_container c w)"
  shows "object_ok w' p s"
proof -
  have "fits (phases (trace w')) s" "\<exists>r b. registry (handlers w' (shandler s)) (sock_fd s) = Some (p, r, b)" if "0 \<le> sock_fd s"
    using that assms(1,4,5) unfolding object_ok_def fits_def by auto
  moreover have "\<exists>c k. home s = Some (c, k) \<and> stored w' c k p \<and> (0 \<le> sock_fd s \<longrightarrow> sock_fd s = k) \<and>
      shandler s = c_handler (get_container c w')" if "sclass s = Tcp_connection"
    using that assms(1,6,7) unfolding object_ok_def by metis
  ultimately show ?thesis
    using assms(1-3) unfolding object_ok_def by simp
qed

lemma sound_object:
  assumes I: "sound_but L K U w" and s: "heap w p = Some s"
  shows "object_ok w p s"
proof -
  have "\<exists>c k. home s = Some (c, k) \<and> stored w c k p \<and> (0 \<le> sock_fd s \<longrightarrow> sock_fd s = k) \<and>
      shandler s = c_handler (get_container c w)" if c: "sclass s = Tcp_connection"
    using connection_stored_but [OF I s c] in_place_but [OF I s c] by metis
  then show ?thesis
    using soundD_but(7-9) [OF I s] fd_fits_but [OF I s] is_polled_but [OF I s] by (simp add: object_ok_def)
qed

text \<open>Conversely the invariant follows from the objects and from the two tables, which name only them.\<close>

lemma objects_sound:
  assumes "env_ok K U" and "handlers_ok w" and "tables_ok w" and "protocol_ok K w" and "owners_ok L U w" and "registry_ok w"
    and obj: "\<And>p s. heap w p = Some s \<Longrightarrow> object_ok w p s"
    and unique: "\<And>p q s t. heap w p = Some s \<Longrightarrow> heap w q = Some t \<Longrightarrow> 0 \<le> sock_fd s \<Longrightarrow> sock_fd s = sock_fd t \<Longrightarrow> p = q"
    and cont: "\<And>c. map_wf (c_sockets (get_container c w))" "\<And>c. c_handler (get_container c w) < next_handler w"
      "\<And>c k p. stored w c k p \<Longrightarrow> \<exists>s. heap w p = Some s \<and> sclass s = Tcp_connection \<and> home s = Some (c, k)"
  shows "sound_but L K U w"
proof -
  have "fds_ok w"
    unfolding fds_ok_def using obj unique by (auto simp: object_ok_def)
  moreover have "heap_ok w" "polled_ok w"
    unfolding heap_ok_def polled_ok_def using obj by (auto simp: object_ok_def)
  moreover have "containers_ok w" "places_ok w"
    unfolding containers_ok_def places_ok_def using obj cont by (fastforce simp: object_ok_def)+
  ultimately show ?thesis
    using assms(1-6) by (simp add: sound_but_def)
qed

lemma dead_beyond_but: "sound_but L K U w \<Longrightarrow> next_ptr w \<le> p \<Longrightarrow> heap w p = None"
  using soundD_but(7) [of L K U w p] by (cases "heap w p") auto

lemmas dead_beyond = dead_beyond_but [where L = "{}"]

lemma sound_update:
  assumes I: "sound_but L K U w" and heap: "heap w' = (heap w)(p := x)"
    and counts: "next_ptr w \<le> next_ptr w'" "next_handler w \<le> next_handler w'"
    and ok: "handlers_ok w'" "tables_ok w'" "protocol_ok K w'"
    and same_phase: "\<And>q t. q \<noteq> p \<Longrightarrow> heap w q = Some t \<Longrightarrow> 0 \<le> sock_fd t \<Longrightarrow>
      phases (trace w') (sock_fd t) = phases (trace w) (sock_fd t)"
    and reg: "\<And>h fd q r b. registry (handlers w' h) fd = Some (q, r, b) \<Longrightarrow>
      q \<noteq> p \<and> (\<exists>r b. registry (handlers w h) fd = Some (q, r, b)) \<or>
      q = p \<and> (\<exists>s. x = Some s \<and> sock_fd s = fd \<and> shandler s = h \<and> 0 \<le> fd)"
    and kept: "\<And>h fd q r b. q \<noteq> p \<Longrightarrow> registry (handlers w h) fd = Some (q, r, b) \<Longrightarrow>
      \<exists>r b. registry (handlers w' h) fd = Some (q, r, b)"
    and cont: "\<And>c. map_wf (c_sockets (get_container c w'))" "\<And>c. c_handler (get_container c w') = c_handler (get_container c w)"
      "\<And>c k q. q \<noteq> p \<Longrightarrow> stored w' c k q \<longleftrightarrow> stored w c k q"
      "\<And>c k. stored w' c k p \<Longrightarrow> \<exists>s. x = Some s \<and> sclass s = Tcp_connection \<and> home s = Some (c, k)"
    and new: "\<And>s. x = Some s \<Longrightarrow> object_ok w' p s"
    and unique: "\<And>s q t. x = Some s \<Longrightarrow> 0 \<le> sock_fd s \<Longrightarrow> q \<noteq> p \<Longrightarrow> heap w q = Some t \<Longrightarrow> sock_fd t \<noteq> sock_fd s"
    and owner: "\<And>fd. timid U \<Longrightarrow> fd \<in> open_fds (trace w') \<Longrightarrow>
      (\<exists>s. x = Some s \<and> sock_fd s = fd) \<or> (\<exists>q t. q \<noteq> p \<and> heap w q = Some t \<and> sock_fd t = fd)"
  shows "sound K U w'"
proof (rule objects_sound [OF _ ok])
  have old: "heap w q = Some t" if "q \<noteq> p" "heap w' q = Some t" for q t
    using that by (simp add: heap)
  show "env_ok K U" using I by (simp add: sound_but_def)
  show "owners_ok {} U w'"
    unfolding owners_ok_def
  proof (intro impI ballI)
    fix fd assume "timid U" "fd \<in> open_fds (trace w') - {}"
    then show "\<exists>q t. heap w' q = Some t \<and> sock_fd t = fd"
      using owner [of fd] by (fastforce simp: heap)
  qed
  show "registry_ok w'"
    unfolding registry_ok_def
  proof (intro allI impI)
    fix h fd q r b assume "registry (handlers w' h) fd = Some (q, r, b)"
    from reg [OF this] show "\<exists>s. heap w' q = Some s \<and> sock_fd s = fd \<and> shandler s = h \<and> 0 \<le> fd"
      using soundD_but(4) [OF I] by (auto simp: heap)
  qed
  show "object_ok w' q t" if t: "heap w' q = Some t" for q t
  proof (cases "q = p")
    case True
    then show ?thesis using new t by (simp add: heap)
  next
    case False
    show ?thesis
    proof (rule object_ok_same [OF sound_object [OF I old [OF False t]] counts])
      show "\<exists>r b. registry (handlers w' h) fd = Some (q, r, b)" if "registry (handlers w h) fd = Some (q, r, b)" for h fd r b
        using kept [OF False that] .
      show "stored w c k q \<Longrightarrow> stored w' c k q" for c k
        using cont(3) [OF False] by simp
    qed (use same_phase [OF False old [OF False t]] cont(2) in simp_all)
  qed
  show "q = q'" if t: "heap w' q = Some t" "heap w' q' = Some t'" "0 \<le> sock_fd t" "sock_fd t = sock_fd t'" for q q' t t'
  proof (rule ccontr)
    assume "q \<noteq> q'"
    then consider "q = p" "q' \<noteq> p" | "q \<noteq> p" "q' = p" | "q \<noteq> p" "q' \<noteq> p" by blast
    then show False
    proof cases
      case 1
      then show ?thesis using unique [OF _ t(3) 1(2) old [OF 1(2) t(2)]] t(1,4) by (simp add: heap)
    next
      case 2
      then show ?thesis using unique [of t', OF _ _ 2(1) old [OF 2(1) t(1)]] t(2-4) by (simp add: heap)
    next
      case 3
      then show ?thesis using soundD_but(6) [OF I old [OF 3(1) t(1)] old [OF 3(2) t(2)] t(3,4)] \<open>q \<noteq> q'\<close> by blast
    qed
  qed
  show "map_wf (c_sockets (get_container c w'))" "c_handler (get_container c w') < next_handler w'" for c
    using cont less_le_trans [OF soundD_but(11) [OF I] counts(2)] by simp_all
  show "\<exists>s. heap w' q = Some s \<and> sclass s = Tcp_connection \<and> home s = Some (c, k)" if st: "stored w' c k q" for c k q
    using st cont(3,4) soundD_but(12) [OF I, of c k q] by (cases "q = p") (auto simp: heap)
qed

lemma steps_update:
  assumes heap: "heap w' = (heap w)(p := x)"
    and counts: "next_ptr w \<le> next_ptr w'" "next_handler w \<le> next_handler w'"
    and tables: "\<And>i. srv_handler (servers w' i) = srv_handler (servers w i)" "\<And>i. srv_actions (servers w' i) = srv_actions (servers w i)"
      "\<And>i. cl_actions (clients w' i) = cl_actions (clients w i)" "\<And>c. c_handler (get_container c w') = c_handler (get_container c w)"
    and st: "\<And>h. storage (handlers w h) \<le> storage (handlers w' h)"
      "\<And>h. storage (handlers w' h) = storage (handlers w h) \<Longrightarrow> socket_ptrs (handlers w' h) = socket_ptrs (handlers w h)"
    and new: "\<And>s'. x = Some s' \<Longrightarrow>
      (\<exists>s. heap w p = Some s \<and> sclass s' = sclass s \<and> sactions s' = sactions s \<and> shandler s' = shandler s \<and>
        (closing s' \<longrightarrow> closing s \<or> p \<in> D)) \<or>
      next_ptr w \<le> p \<and> (p \<in> D \<or> sclass s' = Tcp_connection \<and> \<not> closing s')"
    and gone: "\<And>s. heap w p = Some s \<Longrightarrow> persistent s \<Longrightarrow> p \<notin> D \<Longrightarrow> \<exists>s'. x = Some s' \<and> persistent s' \<and> sclass s' = sclass s"
  shows "steps D w w'"
proof (rule stepsI)
  fix q t' assume q: "q < next_ptr w" "heap w' q = Some t'"
  then show "\<exists>t. heap w q = Some t \<and> sclass t' = sclass t \<and> sactions t' = sactions t \<and> shandler t' = shandler t"
    using new [of t'] by (cases "q = p") (auto simp: heap)
next
  fix q t assume q: "heap w q = Some t" "persistent t" "q \<notin> D"
  then show "\<exists>t'. heap w' q = Some t' \<and> persistent t' \<and> sclass t' = sclass t"
    using gone [of t] by (cases "q = p") (auto simp: heap)
next
  fix q t' assume q: "heap w' q = Some t'" "sclass t' \<noteq> Tcp_connection"
  then show "(\<exists>t. heap w q = Some t \<and> sclass t = sclass t') \<or> q \<in> D \<and> next_ptr w \<le> q"
    using new [of t'] by (cases "q = p") (auto simp: heap)
next
  fix q t' assume q: "heap w' q = Some t'" "closing t'" "q \<notin> D"
  then show "\<exists>t. heap w q = Some t \<and> closing t"
    using new [of t'] by (cases "q = p") (auto simp: heap)
qed (simp_all add: counts tables st)

text \<open>Updates of handlers alone.\<close>

lemma sound_handlers:
  assumes I: "sound K U w" and heap: "heap w' = heap w" "next_ptr w' = next_ptr w" "next_handler w \<le> next_handler w'"
      "trace w' = trace w" "servers w' = servers w" "clients w' = clients w"
    and ok: "handlers_ok w'"
    and reg: "\<And>h fd p. (\<exists>r b. registry (handlers w' h) fd = Some (p, r, b)) \<longleftrightarrow> (\<exists>r b. registry (handlers w h) fd = Some (p, r, b))"
  shows "sound K U w'"
proof (rule sound_update [OF I, where p = "next_ptr w" and x = None])
  let ?p = "next_ptr w"
  have dead: "heap w ?p = None" using dead_beyond [OF I] by simp
  then show "heap w' = (heap w)(?p := None)" by (simp add: heap fun_upd_idem)
  have cont: "get_container c w' = get_container c w" for c
    by (rule get_container_cong) (simp_all add: heap)
  then have stored: "stored w' c k q = stored w c k q" for c k q
    by (simp add: stored_def)
  have alive: "q \<noteq> ?p" if "(\<exists>h fd r b. registry (handlers w h) fd = Some (q, r, b)) \<or> (\<exists>c k. stored w c k q)" for q
    using that soundD(4,12) [OF I] dead by fastforce
  show "tables_ok w'" "protocol_ok K w'"
    using I by (simp_all add: sound_but_def tables_ok_def protocol_ok_def heap)
  show "q \<noteq> ?p \<and> (\<exists>r b. registry (handlers w h) fd = Some (q, r, b)) \<or>
      q = ?p \<and> (\<exists>s. None = Some s \<and> sock_fd s = fd \<and> shandler s = h \<and> 0 \<le> fd)"
    if "registry (handlers w' h) fd = Some (q, r, b)" for h fd q r b
    using that reg alive by blast
  show "\<exists>r b. registry (handlers w' h) fd = Some (q, r, b)" if "registry (handlers w h) fd = Some (q, r, b)" for h fd q r b
    using that reg by blast
  show "\<exists>s. None = Some s \<and> sclass s = Tcp_connection \<and> home s = Some (c, k)" if "stored w' c k ?p" for c k
    using that alive stored by blast
  show "(\<exists>s. None = Some s \<and> sock_fd s = fd) \<or> (\<exists>q t. q \<noteq> ?p \<and> heap w q = Some t \<and> sock_fd t = fd)"
    if "timid U" "fd \<in> open_fds (trace w')" for fd
    using that owned_other [OF I that(1), of fd ?p] dead by (simp add: heap)
  show "map_wf (c_sockets (get_container c w'))" "c_handler (get_container c w') = c_handler (get_container c w)" for c
    using soundD(10) [OF I] by (simp_all add: cont)
qed (use ok in \<open>simp_all add: heap stored_def get_container_cong [of w' w] heap\<close>)

text \<open>Updates of one socket that keep its place: its class, descriptor, handler and container.\<close>

definition same_place :: "ptr \<Rightarrow> sock \<Rightarrow> sock \<Rightarrow> bool" where
  "same_place p s' s \<longleftrightarrow> sclass s' = sclass s \<and> shandler s' = shandler s \<and>
     (sclass s = Tcp_connection \<longrightarrow> home s' = home s) \<and> sock_shape p s' \<and>
     (sock_fd s' = sock_fd s \<or> sock_fd s' < 0 \<and> sock_fd s < 0)"

lemma inv_replace:
  assumes I: "sound K U w" and s: "heap w p = Some s" and place: "same_place p s' s"
    and fit: "0 \<le> sock_fd s' \<Longrightarrow> fits (phases (trace w)) s'"
  shows "sound K U (w\<lparr>heap := (heap w)(p \<mapsto> s')\<rparr>)"
proof (rule sound_update [OF I, where p = p and x = "Some s'"])
  let ?w = "w\<lparr>heap := (heap w)(p \<mapsto> s')\<rparr>"
  note parts = I [unfolded sound_but_def]
  show "handlers_ok ?w" "tables_ok ?w" "protocol_ok K ?w"
    using parts by (simp_all add: handlers_ok_def tables_ok_def protocol_ok_def)
  show "q \<noteq> p \<and> (\<exists>r b. registry (handlers w h) fd = Some (q, r, b)) \<or>
      q = p \<and> (\<exists>s. Some s' = Some s \<and> sock_fd s = fd \<and> shandler s = h \<and> 0 \<le> fd)"
    if "registry (handlers ?w h) fd = Some (q, r, b)" for h fd q r b
  proof -
    have "registry (handlers w h) fd = Some (q, r, b)" using that by simp
    then obtain t where "heap w q = Some t" "sock_fd t = fd" "shandler t = h" "0 \<le> fd"
      by (rule registered [OF I])
    then show ?thesis
      using s place \<open>registry (handlers w h) fd = Some (q, r, b)\<close> by (cases "q = p") (auto simp: same_place_def)
  qed
  show "\<exists>t. Some s' = Some t \<and> sclass t = Tcp_connection \<and> home t = Some (c, k)" if "stored ?w c k p" for c k
    using that soundD(12) [OF I, of c k p] s place by (auto simp: same_place_def)
  show "object_ok ?w p t" if "Some s' = Some t" for t
    using that sound_object [OF I s] place fit by (auto simp: same_place_def object_ok_def)
  show "sock_fd t \<noteq> sock_fd u" if "Some s' = Some u" "0 \<le> sock_fd u" "q \<noteq> p" "heap w q = Some t" for u q t
    using that soundD(6) [OF I s that(4)] place by (auto simp: same_place_def)
  show "(\<exists>t. Some s' = Some t \<and> sock_fd t = fd) \<or> (\<exists>q t. q \<noteq> p \<and> heap w q = Some t \<and> sock_fd t = fd)"
    if o: "timid U" "fd \<in> open_fds (trace ?w)" for fd
  proof -
    obtain q t where "heap w q = Some t" "sock_fd t = fd" "0 \<le> fd"
      using owned [OF I o(1), of fd] open_nonneg [of fd "trace w"] o(2) by auto
    then show ?thesis using s place by (cases "q = p") (auto simp: same_place_def)
  qed
qed (use soundD(10) [OF I] in simp_all)

text \<open>Updates that keep the callbacks as well.\<close>

lemma inv_put:
  assumes I: "sound K U w" and s: "heap w p = Some s" and role: "same_role s' s"
  shows "sound K U (w\<lparr>heap := (heap w)(p \<mapsto> s')\<rparr>) \<and> steps {} w (w\<lparr>heap := (heap w)(p \<mapsto> s')\<rparr>)"
proof
  have "same_place p s' s"
    using role same_role_facts [OF role] soundD(9) [OF I s] by (simp add: same_place_def same_role_def)
  then show "sound K U (w\<lparr>heap := (heap w)(p \<mapsto> s')\<rparr>)"
    by (rule inv_replace [OF I s]) (use role fd_fits [OF I s] in \<open>auto simp: same_role_def fits_def allows_def\<close>)
  show "steps {} w (w\<lparr>heap := (heap w)(p \<mapsto> s')\<rparr>)"
    by (rule steps_update [where p = p and x = "Some s'"])
      (use s role in \<open>auto simp: same_role_def closing_def persistent_def\<close>)
qed

end
