(* ===== verification/Invariant_Steps.thy ===== *)
theory Invariant_Steps
  imports World_Invariant
begin

text \<open>
  The elementary changes of state the library is made of (interests, closing and opening a
  descriptor, storing and erasing a connection, new objects), each shown to keep the invariant.
\<close>

lemma inv_handler:
  assumes I: "sound K U w" and wf: "handler_wf x"
    and reg: "\<And>fd p. (\<exists>r b. registry x fd = Some (p, r, b)) \<longleftrightarrow> (\<exists>r b. registry (handlers w h) fd = Some (p, r, b))"
    and empty: "sockets (handlers w h) = [] \<Longrightarrow> sockets x = []"
    and st: "storage (handlers w h) \<le> storage x"
      "storage x = storage (handlers w h) \<Longrightarrow> socket_ptrs x = socket_ptrs (handlers w h)"
  shows "sound K U (set_handler h x w) \<and> steps {} w (set_handler h x w)"
proof
  show "sound K U (set_handler h x w)"
    by (rule sound_handlers [OF I]) (use soundD(2,3) [OF I] wf empty reg in \<open>simp_all add: handlers_ok_def\<close>)
  show "steps {} w (set_handler h x w)"
    by (rule stepsI) (use st in auto)
qed

lemma interest_storage:
  "storage (impl_socket_want_read fd b h) = storage h" "socket_ptrs (impl_socket_want_read fd b h) = socket_ptrs h"
  "storage (impl_socket_want_write fd b h) = storage h" "socket_ptrs (impl_socket_want_write fd b h) = socket_ptrs h"
  "sockets h = [] \<Longrightarrow> sockets (impl_socket_want_read fd b h) = []"
  "sockets h = [] \<Longrightarrow> sockets (impl_socket_want_write fd b h) = []"
  by (simp_all add: impl_want_read_update impl_want_write_update)

lemma inv_want_read:
  "sound K U w \<Longrightarrow> sound K U (set_handler h (impl_socket_want_read fd b (handlers w h)) w) \<and>
     steps {} w (set_handler h (impl_socket_want_read fd b (handlers w h)) w)"
  using poll.read_law [of "handlers w h" fd b] soundD(2) [of K U w h]
  by (intro inv_handler) (auto simp: interest_storage split: if_splits)

lemma inv_want_write:
  "sound K U w \<Longrightarrow> sound K U (set_handler h (impl_socket_want_write fd b (handlers w h)) w) \<and>
     steps {} w (set_handler h (impl_socket_want_write fd b (handlers w h)) w)"
  using poll.write_law [of "handlers w h" fd b] soundD(2) [of K U w h]
  by (intro inv_handler) (auto simp: interest_storage split: if_splits)

lemma inv_revents:
  assumes "sound K U w"
  shows "sound K U (set_handler h ((handlers w h)\<lparr>sockets := store_revents rs (sockets (handlers w h))\<rparr>) w) \<and>
    steps {} w (set_handler h ((handlers w h)\<lparr>sockets := store_revents rs (sockets (handlers w h))\<rparr>) w)"
proof -
  have m: "map interest (store_revents rs ss) = map interest ss" for ss
    by (induction rs ss rule: store_revents.induct) (auto simp: interest_def)
  show ?thesis
    using soundD(2) [OF assms, of h] assms
    by (intro inv_handler) (auto simp: handler_wf_def store_revents_pfd registry_def entries_def m)
qed

lemma delete_storage:
  "delete_socket fd h = Some h' \<Longrightarrow> storage h \<le> storage h' \<and>
     (storage h' = storage h \<longrightarrow> socket_ptrs h' = socket_ptrs h) \<and> (sockets h = [] \<longrightarrow> sockets h' = [])"
  by (auto simp: delete_socket_def impl_del_socket_def Let_def split: if_splits option.splits)

lemma shape_cong:
  "sclass s' = sclass s \<Longrightarrow> sactions s' = sactions s \<Longrightarrow> sock_shape p s' = sock_shape p s \<and> home s' = home s"
  by (simp add: sock_shape_def tcp_shape_def home_def split: sock_class.split)

lemma home_list: "home s = Some (c, k) \<Longrightarrow> tcp_shape p s \<Longrightarrow> \<exists>pre. sactions s CLOSED = pre @ [erase_callback c k]"
  by (auto simp: home_def tcp_shape_def)

lemma home_eq: "sactions s CLOSED = pre @ [erase_callback c k] \<Longrightarrow> home s = Some (c, k)"
  by (simp add: home_def)

text \<open>Closing the descriptor of a socket.\<close>

lemma inv_close:
  assumes I: "sound K U w" and s: "heap w p = Some s" and fd: "0 \<le> sock_fd s"
    and del: "delete_socket (sock_fd s) (handlers w (shandler s)) = Some h'" "handler_wf h'"
      "registry h' = (registry (handlers w (shandler s)))(sock_fd s := None)"
    and w': "w' = (after K (Sys_close (sock_fd s)) (set_handler (shandler s) h' w))
      \<lparr>heap := (heap w)(p \<mapsto> s\<lparr>sock_fd := -1\<rparr>)\<rparr>"
  shows "sound K U w' \<and> steps {q. q = p \<and> sclass s = Tcp_connection} w w'"
proof
  let ?s = "s\<lparr>sock_fd := -1\<rparr>"
  have uniq: "sock_fd t \<noteq> sock_fd s" if "q \<noteq> p" "heap w q = Some t" for q t
    using soundD(6) [OF I s that(2) fd] that(1) by auto
  have shape: "sock_shape p ?s = sock_shape p s" "home ?s = home s"
    using shape_cong [of ?s s p] by simp_all
  note d = delete_storage [OF del(1)]
  have simps: "trace w' = trace w @ [(Sys_close (sock_fd s), reply K (Sys_close (sock_fd s)) (set_handler (shandler s) h' w))]"
    "handlers w' = (handlers w)(shandler s := h')" "next_ptr w' = next_ptr w" "next_handler w' = next_handler w"
    "heap w' = (heap w)(p \<mapsto> ?s)" "servers w' = servers w" "clients w' = clients w"
    "get_container c w' = get_container c w" "stored w' c k q = stored w c k q" for c k q
    using w' by simp_all
  have gone: "registry (handlers w' h) f = (if h = shandler s \<and> f = sock_fd s then None else registry (handlers w h) f)" for h f
    using del(3) by (simp add: simps)
  show "sound K U w'"
  proof (rule sound_update [OF I simps(5)])
    show "handlers_ok w'"
      using soundD(2,3) [OF I] del(2) d by (auto simp: handlers_ok_def simps)
    show "tables_ok w'" "protocol_ok K w'"
      using I soundD(5) [OF I s fd] by (simp_all add: sound_but_def tables_ok_def protocol_ok_def simps opened_iff reply_def)
    show "phases (trace w') (sock_fd t) = phases (trace w) (sock_fd t)" if "q \<noteq> p" "heap w q = Some t" for q t
      using uniq [OF that] by (simp add: simps)
    show "q \<noteq> p \<and> (\<exists>r b. registry (handlers w h) f = Some (q, r, b)) \<or>
        q = p \<and> (\<exists>u. Some ?s = Some u \<and> sock_fd u = f \<and> shandler u = h \<and> 0 \<le> f)"
      if "registry (handlers w' h) f = Some (q, r, b)" for h f q r b
      using that soundD(4) [OF I, of h f q r b] s unfolding gone by (auto split: if_splits)
    show "\<exists>r b. registry (handlers w' h) f = Some (q, r, b)"
      if "q \<noteq> p" "registry (handlers w h) f = Some (q, r, b)" for h f q r b
      using that soundD(4) [OF I that(2)] uniq [OF that(1)] unfolding gone by auto
    show "\<exists>u. Some ?s = Some u \<and> sclass u = Tcp_connection \<and> home u = Some (c, k)" if "stored w' c k p" for c k
      using that soundD(12) [OF I, of c k p] s shape by (auto simp: simps)
    show "object_ok w' p u" if "Some ?s = Some u" for u
      using that sound_object [OF I s] shape by (auto simp: object_ok_def simps)
    show "(\<exists>u. Some ?s = Some u \<and> sock_fd u = f) \<or> (\<exists>q t. q \<noteq> p \<and> heap w q = Some t \<and> sock_fd t = f)"
      if "timid U" "f \<in> open_fds (trace w')" for f
      using that owned_other [OF I that(1), of f p] s by (simp add: simps)
  qed (use soundD(10) [OF I] in \<open>auto simp: simps\<close>)
  show "steps {q. q = p \<and> sclass s = Tcp_connection} w w'"
    by (rule steps_update [OF simps(5)]) (use s d in \<open>auto simp: simps closing_def persistent_def\<close>)
qed

text \<open>Storing a new connection.\<close>

definition fresh_fd :: "world \<Rightarrow> int \<Rightarrow> bool" where
  "fresh_fd w k \<longleftrightarrow> 0 \<le> k \<and> k \<in> open_fds (trace w) \<and> (\<forall>q t. heap w q = Some t \<longrightarrow> sock_fd t \<noteq> k) \<and>
     (\<forall>h. registry (handlers w h) k = None)"

fun first_phase :: "syscall \<Rightarrow> phase" where
  "first_phase (Sys_accept fd n) = Connected"
| "first_phase c = Unbound"

lemma fresh_after_open:
  assumes "sound K U w" and "opens_descriptor c" and "0 \<le> ret_value (reply K c w)"
  shows "fresh_fd (after K c w) (ret_value (reply K c w))"
    "phases (trace (after K c w)) (ret_value (reply K c w)) = Some (first_phase c)"
proof -
  have n: "ret_value (reply K c w) \<notin> open_fds (trace w)"
    using assms(1,2) by (simp add: sound_but_def env_ok_def fresh_descriptors_def reply_def)
  have "ret_value (reply K c w) \<in> open_fds (trace (after K c w))"
    using assms(2,3) by (cases c) auto
  then show "fresh_fd (after K c w) (ret_value (reply K c w))"
    using unregistered [OF assms(1) n] live_fd [OF assms(1) n assms(3)] assms(3)
    unfolding fresh_fd_def by simp
  show "phases (trace (after K c w)) (ret_value (reply K c w)) = Some (first_phase c)"
    using assms(2,3) by (cases c) auto
qed

lemma inv_store:
  assumes I: "sound_but {k} K U w" and k: "fresh_fd w k" and free: "map_find (c_sockets (get_container c w)) k = None"
    and s: "sclass s = Tcp_connection" "sock_fd s = k" "shandler s = c_handler (get_container c w)"
      "tcp_shape (next_ptr w) s" "home s = Some (c, k)" "fits (phases (trace w)) s"
    and w': "w' = (with_socket c k w)\<lparr>heap := (heap w)(next_ptr w \<mapsto> s)\<rparr>"
  shows "sound K U w' \<and> steps {} w w'"
proof
  let ?h = "c_handler (get_container c w)" and ?p = "next_ptr w"
  have dead: "heap w ?p = None"
    using dead_beyond_but [OF I] by simp
  have k': "0 \<le> k" "registry (handlers w h) k = None" "heap w q = Some t \<Longrightarrow> sock_fd t \<noteq> k" for h q t
    using k by (auto simp: fresh_fd_def)
  note add' = poll.add_law [OF soundD_but(2) [OF I] k'(2), of ?p]
  then have add: "handler_wf (add_socket k ?p (handlers w ?h))"
      "registry (add_socket k ?p (handlers w ?h)) = (registry (handlers w ?h))(k \<mapsto> (?p, True, False))"
    by simp_all
  have ins: "map_wf (fst (map_insert k ?p (c_sockets (get_container c w))))"
      "map_find (fst (map_insert k ?p (c_sockets (get_container c w)))) =
        (map_find (c_sockets (get_container c w)))(k \<mapsto> ?p)"
    using std_map.insert_law [of "c_sockets (get_container c w)" k ?p] soundD_but(10) [OF I] free by simp_all
  have simps: "trace w' = trace w" "handlers w' = (handlers w)(?h := add_socket k ?p (handlers w ?h))"
    "next_ptr w' = Suc ?p" "heap w' = (heap w)(?p \<mapsto> s)" "next_handler w' = next_handler w"
    "srv_handler (servers w' i) = srv_handler (servers w i)"
    "srv_actions (servers w' i) = srv_actions (servers w i)" "cl_actions (clients w' i) = cl_actions (clients w i)"
    "c_handler (get_container c' w') = c_handler (get_container c' w)"
    "c_sockets (get_container c' w') = (if c' = c then fst (map_insert k ?p (c_sockets (get_container c w)))
       else c_sockets (get_container c' w))" for i c'
    using w' by (simp_all add: with_socket_def Let_def)
  have st: "stored w' c' k' q \<longleftrightarrow> (c' = c \<and> k' = k \<and> q = ?p) \<or> stored w c' k' q" for c' k' q
    using ins free by (auto simp: stored_def simps)
  have reg: "registry (handlers w' h) f = (if h = ?h \<and> f = k then Some (?p, True, False) else registry (handlers w h) f)" for h f
    using add(2) by (simp add: simps)
  have old: "q \<noteq> ?p" if "stored w c' k' q \<or> registry (handlers w h) f = Some (q, r, b)" for c' k' q h f r b
    using that soundD_but(4) [OF I, of h f q r b] soundD_but(12) [OF I, of c' k' q] dead by auto
  show "sound K U w'"
  proof (rule sound_update [OF I simps(4)])
    show "handlers_ok w'"
      using soundD_but(2,3) [OF I] add soundD_but(11) [OF I, of c] by (auto simp: handlers_ok_def simps)
    show "tables_ok w'" "protocol_ok K w'"
      using I by (simp_all add: sound_but_def tables_ok_def protocol_ok_def simps)
    show "q \<noteq> ?p \<and> (\<exists>r b. registry (handlers w h) f = Some (q, r, b)) \<or>
        q = ?p \<and> (\<exists>u. Some s = Some u \<and> sock_fd u = f \<and> shandler u = h \<and> 0 \<le> f)"
      if "registry (handlers w' h) f = Some (q, r, b)" for h f q r b
      using that old [of c k q h f r b] s k'(1) unfolding reg by (auto split: if_splits)
    show "\<exists>r b. registry (handlers w' h) f = Some (q, r, b)" if "registry (handlers w h) f = Some (q, r, b)" for h f q r b
      using that k'(2) [of h] unfolding reg by auto
    show "map_wf (c_sockets (get_container c' w'))" for c'
      using soundD_but(10) [OF I] ins by (simp add: simps)
    show "\<exists>u. Some s = Some u \<and> sclass u = Tcp_connection \<and> home u = Some (c', k')" if "stored w' c' k' ?p" for c' k'
      using that old [of c' k' ?p] s by (auto simp: st)
    show "object_ok w' ?p u" if "Some s = Some u" for u
      using that s soundD_but(11) [OF I, of c] by (auto simp: object_ok_def reg st sock_shape_def) (simp_all add: simps)
    show "(\<exists>u. Some s = Some u \<and> sock_fd u = f) \<or> (\<exists>q t. q \<noteq> ?p \<and> heap w q = Some t \<and> sock_fd t = f)"
      if "timid U" "f \<in> open_fds (trace w')" for f
      using that owned_other [OF I that(1), of f ?p] s(2) dead by (cases "f = k") (simp_all add: simps)
  qed (use s(2) k'(3) in \<open>auto simp: simps st\<close>)
  show "steps {} w w'"
    by (rule steps_update [OF simps(4)])
      (use dead s(1,2) k'(1) in \<open>auto simp: simps closing_def add_socket_def impl_add_socket_def Let_def\<close>)
qed

text \<open>New raw and udp sockets.\<close>

lemma inv_alloc:
  assumes I: "sound K U w" and s: "sclass s \<noteq> Tcp_connection" "sock_fd s < 0" "sactions s = (\<lambda>_. [])"
      "shandler s < next_handler w"
    and w': "w' = w\<lparr>heap := (heap w)(next_ptr w \<mapsto> s), next_ptr := Suc (next_ptr w)\<rparr>"
  shows "sound K U w' \<and> steps {next_ptr w} w w'"
proof
  let ?p = "next_ptr w"
  have dead: "heap w ?p = None"
    using dead_beyond [OF I] by simp
  have simps: "trace w' = trace w" "handlers w' = handlers w" "next_ptr w' = Suc ?p"
    "heap w' = (heap w)(?p \<mapsto> s)" "next_handler w' = next_handler w"
    "servers w' = servers w" "clients w' = clients w" "get_container c w' = get_container c w"
    "stored w' c k q = stored w c k q" for c k q
    using w' by (simp_all add: stored_def)
  show "sound K U w'"
  proof (rule sound_update [OF I simps(4)])
    show "handlers_ok w'" "tables_ok w'" "protocol_ok K w'"
      using I by (simp_all add: sound_but_def handlers_ok_def tables_ok_def protocol_ok_def simps)
    show "q \<noteq> ?p \<and> (\<exists>r b. registry (handlers w h) f = Some (q, r, b)) \<or>
        q = ?p \<and> (\<exists>u. Some s = Some u \<and> sock_fd u = f \<and> shandler u = h \<and> 0 \<le> f)"
      if "registry (handlers w' h) f = Some (q, r, b)" for h f q r b
      using that soundD(4) [OF I, of h f q r b] dead by (auto simp: simps)
    show "\<exists>u. Some s = Some u \<and> sclass u = Tcp_connection \<and> home u = Some (c, k)" if "stored w' c k ?p" for c k
      using that soundD(12) [OF I, of c k ?p] dead by (simp add: simps)
    have "sock_shape ?p s" using s(1,3) by (cases "sclass s") (simp_all add: sock_shape_def)
    then show "object_ok w' ?p u" if "Some s = Some u" for u
      using that s by (auto simp: object_ok_def simps)
    show "(\<exists>u. Some s = Some u \<and> sock_fd u = f) \<or> (\<exists>q t. q \<noteq> ?p \<and> heap w q = Some t \<and> sock_fd t = f)"
      if "timid U" "f \<in> open_fds (trace w')" for f
      using that owned_other [OF I that(1), of f ?p] dead by (simp add: simps)
  qed (use s(2) soundD(10) [OF I] in \<open>auto simp: simps\<close>)
  show "steps {?p} w w'"
    by (rule steps_update [OF simps(4)]) (use dead in \<open>auto simp: simps\<close>)
qed

text \<open>A new handler.\<close>

lemma inv_new_handler:
  assumes I: "sound K U w"
    and w': "w' = (set_handler (next_handler w) (new_handler g) w)\<lparr>next_handler := Suc (next_handler w)\<rparr>"
  shows "sound K U w' \<and> steps {} w w'"
proof
  have none: "registry (handlers w (next_handler w)) fd = None" for fd
    using soundD(3) [OF I, of "next_handler w"] by (simp add: registry_def entries_def)
  show "sound K U w'"
    by (rule sound_handlers [OF I])
      (use soundD(2,3) [OF I] none in \<open>auto simp: w' handlers_ok_def handler_wf_new\<close>)
  show "steps {} w w'"
    using w' get_container_cong [of w' w] by (intro stepsI) auto
qed

text \<open>Opening a closed raw or udp socket.\<close>

lemma inv_open:
  assumes I: "sound_but {k} K U w" and s: "heap w p = Some s" "sclass s \<noteq> Tcp_connection" "sock_fd s < 0" and k: "fresh_fd w k"
      and unbound: "phases (trace w) k = Some Unbound"
    and w': "w' = set_handler (shandler s) (add_socket k p (handlers w (shandler s)))
      (w\<lparr>heap := (heap w)(p \<mapsto> s\<lparr>sock_fd := k\<rparr>)\<rparr>)"
  shows "sound K U w' \<and> steps {} w w'"
proof
  let ?h = "shandler s" and ?s = "s\<lparr>sock_fd := k\<rparr>"
  have k': "0 \<le> k" "registry (handlers w h) k = None" "heap w q = Some t \<Longrightarrow> sock_fd t \<noteq> k" for h q t
    using k by (auto simp: fresh_fd_def)
  have add: "handler_wf (add_socket k p (handlers w ?h))"
      "registry (add_socket k p (handlers w ?h)) = (registry (handlers w ?h))(k \<mapsto> (p, True, False))"
    using poll.add_law [OF soundD_but(2) [OF I] k'(2), of p] by simp_all
  have simps: "trace w' = trace w" "handlers w' = (handlers w)(?h := add_socket k p (handlers w ?h))"
    "next_ptr w' = next_ptr w" "heap w' = (heap w)(p \<mapsto> ?s)" "next_handler w' = next_handler w"
    "servers w' = servers w" "clients w' = clients w" "get_container c w' = get_container c w"
    "stored w' c k' q = stored w c k' q" for c k' q
    using w' by simp_all
  have reg: "registry (handlers w' h) f = (if h = ?h \<and> f = k then Some (p, True, False) else registry (handlers w h) f)" for h f
    using add(2) by (simp add: simps)
  have shape: "sock_shape p ?s = sock_shape p s"
    using shape_cong [of ?s s p] by simp
  show "sound K U w'"
  proof (rule sound_update [OF I simps(4)])
    show "handlers_ok w'"
      unfolding handlers_ok_def simps
      using soundD_but(2,3) [OF I] add(1) soundD_but(8) [OF I s(1)] by auto
    show "tables_ok w'" "protocol_ok K w'"
      using I by (simp_all add: sound_but_def tables_ok_def protocol_ok_def simps)
    show "q \<noteq> p \<and> (\<exists>r b. registry (handlers w h) f = Some (q, r, b)) \<or>
        q = p \<and> (\<exists>u. Some ?s = Some u \<and> sock_fd u = f \<and> shandler u = h \<and> 0 \<le> f)"
      if "registry (handlers w' h) f = Some (q, r, b)" for h f q r b
      using that soundD_but(4) [OF I, of h f q r b] s k'(1) unfolding reg by (auto split: if_splits)
    show "\<exists>r b. registry (handlers w' h) f = Some (q, r, b)" if "registry (handlers w h) f = Some (q, r, b)" for h f q r b
      using that k'(2) [of h] unfolding reg by auto
    show "\<exists>u. Some ?s = Some u \<and> sclass u = Tcp_connection \<and> home u = Some (c, k')" if "stored w' c k' p" for c k'
      using that soundD_but(12) [OF I, of c k' p] s by (auto simp: simps)
    show "object_ok w' p u" if "Some ?s = Some u" for u
      using that sound_object [OF I s(1)] shape s(2) unbound unfolding object_ok_def
      by (auto simp: reg fits_def allows_def) (simp_all add: simps)
    show "(\<exists>u. Some ?s = Some u \<and> sock_fd u = f) \<or> (\<exists>q t. q \<noteq> p \<and> heap w q = Some t \<and> sock_fd t = f)"
      if "timid U" "f \<in> open_fds (trace w')" for f
      using that owned_other [OF I that(1), of f p] open_nonneg [of f "trace w"] s(1,3) by (cases "f = k") (auto simp: simps)
  qed (use k'(3) soundD_but(10) [OF I] in \<open>auto simp: simps\<close>)
  show "steps {} w w'"
    by (rule steps_update [OF simps(4)])
      (use s k'(1) in \<open>auto simp: simps closing_def persistent_def add_socket_def impl_add_socket_def Let_def\<close>)
qed

text \<open>Destroying a closed socket: a temporary one, or a connection together with its entry.\<close>

lemma steps_free:
  assumes "heap w' = (heap w)(p := None)" "next_ptr w' = next_ptr w" "next_handler w' = next_handler w"
    "handlers w' = handlers w" "\<And>i. srv_handler (servers w' i) = srv_handler (servers w i)"
    "\<And>i. srv_actions (servers w' i) = srv_actions (servers w i)"
    "\<And>i. cl_actions (clients w' i) = cl_actions (clients w i)"
    "\<And>c. c_handler (get_container c w') = c_handler (get_container c w)"
  shows "steps {p} w w'"
  using assms by (intro stepsI) (auto split: if_splits)

lemma inv_free:
  assumes I: "sound K U w" and s: "heap w p = Some s" "sock_fd s < 0"
    and heap: "heap w' = (heap w)(p := None)" "next_ptr w' = next_ptr w" "next_handler w' = next_handler w"
      "handlers w' = handlers w" "trace w' = trace w"
      "\<And>i. srv_actions (servers w' i) = srv_actions (servers w i)"
      "\<And>i. cl_actions (clients w' i) = cl_actions (clients w i)"
    and cont: "\<And>c. c_handler (get_container c w') = c_handler (get_container c w)"
      "\<And>c. map_wf (c_sockets (get_container c w'))"
      "\<And>c k q. stored w' c k q \<longleftrightarrow> stored w c k q \<and> q \<noteq> p"
  shows "sound K U w'"
proof (rule sound_update [OF I heap(1)])
  show "handlers_ok w'" "tables_ok w'" "protocol_ok K w'"
    using I by (simp_all add: sound_but_def handlers_ok_def tables_ok_def protocol_ok_def heap)
  show "q \<noteq> p \<and> (\<exists>r b. registry (handlers w h) f = Some (q, r, b)) \<or>
      q = p \<and> (\<exists>u. None = Some u \<and> sock_fd u = f \<and> shandler u = h \<and> 0 \<le> f)"
    if "registry (handlers w' h) f = Some (q, r, b)" for h f q r b
    using that soundD(4) [OF I, of h f q r b] s by (auto simp: heap)
  show "(\<exists>u. None = Some u \<and> sock_fd u = f) \<or> (\<exists>q t. q \<noteq> p \<and> heap w q = Some t \<and> sock_fd t = f)"
    if "timid U" "f \<in> open_fds (trace w')" for f
    using that owned_other [OF I that(1), of f p] open_nonneg [of f "trace w"] s by (auto simp: heap)
qed (auto simp: heap cont)

lemma inv_free_temporary:
  assumes I: "sound K U w" and s: "heap w p = Some s" "sock_fd s < 0" "sclass s \<noteq> Tcp_connection"
    and w': "w' = w\<lparr>heap := (heap w)(p := None)\<rparr>"
  shows "sound K U w' \<and> steps {p} w w'"
proof
  have "q \<noteq> p" if st: "stored w c k q" for c k q
  proof -
    obtain t where "heap w q = Some t" "sclass t = Tcp_connection"
      by (rule stored_connection [OF I st])
    then show ?thesis using s by auto
  qed
  then show "sound K U w'"
    using soundD(10) [OF I] w' by (intro inv_free [OF I s(1,2)]) auto
  show "steps {p} w w'"
    using w' by (intro steps_free) simp_all
qed

lemma stored_unique: "stored w c k p \<Longrightarrow> stored w c k q \<Longrightarrow> p = q"
  by (simp add: stored_def)

lemma inv_erase:
  assumes I: "sound K U w" and s: "heap w p = Some s" "sock_fd s < 0" "sclass s = Tcp_connection"
      "home s = Some (c, k)"
  shows "\<exists>w'. container_erase c k w = Inr ((), w') \<and> sound K U w' \<and> steps {p} w w' \<and> heap w' p = None"
proof -
  have st: "stored w c k p"
    using soundD(13) [OF I s(1,3)] s(4) by auto
  let ?cont = "get_container c w"
  let ?w = "put_container c (?cont\<lparr>c_sockets := map_erase k (c_sockets ?cont)\<rparr>) (w\<lparr>heap := (heap w)(p := None)\<rparr>)"
  have er: "map_wf (map_erase k (c_sockets ?cont))"
      "map_find (map_erase k (c_sockets ?cont)) = (map_find (c_sockets ?cont))(k := None)"
    using std_map.erase_law [OF soundD(10) [OF I]] by auto
  have only: "c' = c \<and> k' = k" if other: "stored w c' k' p" for c' k'
  proof -
    obtain t where "heap w p = Some t" "home t = Some (c', k')"
      by (rule stored_connection [OF I other])
    then show ?thesis using s by simp
  qed
  have "stored ?w c' k' q = (if c' = c \<and> k' = k then False else stored w c' k' q)" for c' k' q
    using er(2) by (simp add: stored_def)
  then have str: "stored ?w c' k' q \<longleftrightarrow> stored w c' k' q \<and> q \<noteq> p" for c' k' q
    using only [of c' k'] st stored_unique by metis
  have "sound K U ?w"
  proof (rule inv_free [OF I s(1,2) _ _ _ _ _ _ _ _ _ str])
    show "map_wf (c_sockets (get_container c' ?w))" for c'
      using er(1) soundD(10) [OF I, of c'] by simp
  qed simp_all
  moreover have "steps {p} w ?w"
    by (rule steps_free) simp_all
  moreover have "container_erase c k w = Inr ((), ?w)"
    using st by (simp add: container_erase_def prog_simps stored_def)
  moreover have "heap ?w p = None" by simp
  ultimately show ?thesis by blast
qed

text \<open>Registering the callbacks of a new connection.\<close>

lemma inv_reshape:
  assumes I: "sound K U w" and s: "heap w p = Some s" "same_place p s' s"
    and fit: "0 \<le> sock_fd s' \<Longrightarrow> fits (phases (trace w)) s'"
    and w0: "next_ptr w0 \<le> p" "steps D w0 w"
  shows "sound K U (w\<lparr>heap := (heap w)(p \<mapsto> s')\<rparr>) \<and> steps D w0 (w\<lparr>heap := (heap w)(p \<mapsto> s')\<rparr>)"
proof
  show "sound K U (w\<lparr>heap := (heap w)(p \<mapsto> s')\<rparr>)"
    by (rule inv_replace [OF I s fit])
  have same: "persistent s' = persistent s" "closing s' = closing s" "sclass s' = sclass s"
    using s(2) by (auto simp: same_place_def persistent_def closing_def)
  show "steps D w0 (w\<lparr>heap := (heap w)(p \<mapsto> s')\<rparr>)"
  proof (rule stepsI)
    fix q t' assume q: "q < next_ptr w0" "heap (w\<lparr>heap := (heap w)(p \<mapsto> s')\<rparr>) q = Some t'"
    then have "heap w q = Some t'" using w0(1) by (simp split: if_splits)
    then show "\<exists>t. heap w0 q = Some t \<and> sclass t' = sclass t \<and> sactions t' = sactions t \<and> shandler t' = shandler t"
      using w0(2) q(1) unfolding steps_def by blast
  next
    fix q t assume "heap w0 q = Some t" "persistent t" "q \<notin> D"
    then obtain t' where "heap w q = Some t'" "persistent t'" "sclass t' = sclass t"
      using w0(2) unfolding steps_def by blast
    then show "\<exists>t'. heap (w\<lparr>heap := (heap w)(p \<mapsto> s')\<rparr>) q = Some t' \<and> persistent t' \<and> sclass t' = sclass t"
      using s(1) same by (cases "q = p") auto
  next
    fix q t' assume q: "heap (w\<lparr>heap := (heap w)(p \<mapsto> s')\<rparr>) q = Some t'" "sclass t' \<noteq> Tcp_connection"
    then obtain t where "heap w q = Some t" "sclass t = sclass t'"
      using s(1) same by (cases "q = p") auto
    then show "(\<exists>t. heap w0 q = Some t \<and> sclass t = sclass t') \<or> q \<in> D \<and> next_ptr w0 \<le> q"
      using w0(2) q(2) unfolding steps_def by metis
  next
    fix q t' assume q: "heap (w\<lparr>heap := (heap w)(p \<mapsto> s')\<rparr>) q = Some t'" "closing t'" "q \<notin> D"
    then obtain t where "heap w q = Some t" "closing t"
      using s(1) same by (cases "q = p") auto
    then show "\<exists>t. heap w0 q = Some t \<and> closing t"
      using w0(2) q(3) unfolding steps_def by blast
  qed (use w0 in \<open>simp_all add: steps_def\<close>)
qed

end
