(* ===== verification/Outcomes.thy ===== *)
theory Outcomes
  imports Invariant_Steps
begin

text \<open>
  A calculus for the ways a computation may end (\<open>ends\<close>), with rules for the primitives, for
  resolution and for printing.
\<close>

section \<open>Outcomes\<close>

text \<open>
  How a computation started after \<open>w0\<close> may end: in a fault that \<open>w0\<close> can be blamed for, or in a world of
  the invariant reached by steps that destroy no persistent object outside \<open>D\<close>, with \<open>Q\<close>.
\<close>

definition ends ::
    "kernel \<Rightarrow> user_program \<Rightarrow> ptr set \<Rightarrow> world \<Rightarrow> fault + ('a \<times> world) \<Rightarrow> ('a \<Rightarrow> world \<Rightarrow> bool) \<Rightarrow> bool" where
  "ends K U D w0 r Q \<longleftrightarrow> (case r of
       Inl e \<Rightarrow> harmless D w0 \<longrightarrow> blamed K U w0 e \<or> e = AssertFailed \<and> fresh_objects D w0
     | Inr (a, w) \<Rightarrow> sound K U w \<and> steps D w0 w \<and> Q a w)"

lemma ends_Inr [simp]:
  "ends K U D w0 (Inr (a, w)) Q = (sound K U w \<and> steps D w0 w \<and> Q a w)"
  by (simp add: ends_def)

lemma ends_Inl [simp]:
  "ends K U D w0 (Inl e) Q = (harmless D w0 \<longrightarrow> blamed K U w0 e \<or> e = AssertFailed \<and> fresh_objects D w0)"
  by (simp add: ends_def)

lemma ends_then:
  assumes "ends K U D w0 (m w) R"
    and "\<And>a w'. sound K U w' \<Longrightarrow> steps D w0 w' \<Longrightarrow> R a w' \<Longrightarrow> ends K U D w0 (k a w') Q"
  shows "ends K U D w0 (andThen m k w) Q"
proof (cases "m w")
  case (Inl e)
  then show ?thesis using assms(1) by (simp add: andThen_apply)
next
  case (Inr r)
  then show ?thesis using assms by (cases r) (auto simp: andThen_apply ends_def)
qed

lemma ends_weaken: "ends K U D w0 r Q \<Longrightarrow> (\<And>a w. Q a w \<Longrightarrow> Q' a w) \<Longrightarrow> ends K U D w0 r Q'"
  by (auto simp: ends_def split: sum.splits)

lemma ends_widen: "ends K U D w0 r Q \<Longrightarrow> D \<subseteq> D' \<Longrightarrow> ends K U D' w0 r Q"
  using steps_mono [of D w0 _ D'] harmless_mono [of D' w0 D] harmless_mono [of D w0 D'] by (auto simp: ends_def split: sum.splits)

lemma ends_from_same:
  assumes "steps D w0 w" and "harmless D w" and "ends K U D w r Q"
  shows "ends K U D w0 r Q"
proof (cases r)
  case (Inl e)
  have "next_ptr w0 \<le> next_ptr w" using assms(1) by (simp add: steps_def)
  then have "fresh_objects D w \<Longrightarrow> fresh_objects D w0"
    unfolding fresh_objects_def by (meson order_trans)
  then show ?thesis
    using Inl assms(2,3) blamed_steps [OF assms(1)] by auto
next
  case (Inr x)
  then show ?thesis
    using assms(3) steps_trans [OF assms(1)] by (cases x) simp
qed

lemma ends_from: "steps D w0 w \<Longrightarrow> ends K U {} w r Q \<Longrightarrow> ends K U D w0 r Q"
  using steps_trans [of D w0 w] steps_mono [of "{}" w _ D] blamed_steps [of D w0 w]
  by (auto simp: ends_def split: sum.splits)

lemma ends_call:
  assumes "steps D w0 w" and "ends K U {} w (m w) R"
    and "\<And>a w'. sound K U w' \<Longrightarrow> steps D w0 w' \<Longrightarrow> R a w' \<Longrightarrow> ends K U D w0 (k a w') Q"
  shows "ends K U D w0 (andThen m k w) Q"
  using ends_from [OF assms(1,2)] assms(3) by (rule ends_then)

text \<open>Objects that are not persistent, or that the starting world does not have, may go; gone they are.\<close>

lemma steps_drop:
  assumes st: "steps D w0 w" and D: "\<And>p s. p \<in> D \<Longrightarrow> heap w0 p = Some s \<Longrightarrow> \<not> persistent s"
    and gone: "\<And>p. p \<in> D \<Longrightarrow> heap w p = None"
  shows "steps {} w0 w"
proof (rule stepsI)
  fix p s assume p: "heap w0 p = Some s" "persistent s"
  then have "p \<notin> D" using D by blast
  then show "\<exists>s'. heap w p = Some s' \<and> persistent s' \<and> sclass s' = sclass s"
    using st p unfolding steps_def by blast
next
  fix p s' assume p: "heap w p = Some s'" "closing s'"
  then have "p \<notin> D" using gone by auto
  then show "\<exists>s. heap w0 p = Some s \<and> closing s"
    using st p unfolding steps_def by blast
next
  fix p s' assume p: "heap w p = Some s'" "sclass s' \<noteq> Tcp_connection"
  then have "p \<notin> D" using gone by auto
  then show "(\<exists>s. heap w0 p = Some s \<and> sclass s = sclass s') \<or> p \<in> {} \<and> next_ptr w0 \<le> p"
    using st p unfolding steps_def by blast
qed (use st in \<open>simp_all add: steps_def\<close>)

lemma ends_drop:
  "ends K U D w0 r Q \<Longrightarrow> harmless D w0 \<Longrightarrow> (fresh_objects D w0 \<Longrightarrow> r \<noteq> Inl AssertFailed) \<Longrightarrow> (\<And>p s. p \<in> D \<Longrightarrow> heap w0 p = Some s \<Longrightarrow> \<not> persistent s) \<Longrightarrow>
   (\<And>a w p. Q a w \<Longrightarrow> p \<in> D \<Longrightarrow> heap w p = None) \<Longrightarrow> ends K U {} w0 r Q"
  using steps_drop unfolding ends_def by (auto split: sum.splits)

lemma steps_alive:
  assumes "steps D w0 w" and "sound K U w0" and "heap w0 p = Some s" and "persistent s" and "p \<notin> D"
  obtains s' where "heap w p = Some s'" "persistent s'" "sclass s' = sclass s" "sactions s' = sactions s"
proof -
  have "p < next_ptr w0" using soundD(7) [OF assms(2,3)] .
  moreover obtain s' where "heap w p = Some s'" "persistent s'"
    using assms unfolding steps_def by blast
  ultimately show ?thesis
    using that assms(1,3) unfolding steps_def by fastforce
qed

section \<open>Steps of the program\<close>

lemma ends_get_sock:
  "heap w p = Some s \<Longrightarrow> ends K U D w0 (k s w) Q \<Longrightarrow> ends K U D w0 (andThen (get_sock p) k w) Q"
  by (simp add: prog_simps)

lemma ends_reads: "ends K U D w0 (k (f w) w) Q \<Longrightarrow> ends K U D w0 (andThen (reads f) k w) Q"
  by (simp add: prog_simps)

lemma ends_require:
  "(P w \<Longrightarrow> ends K U D w0 (k () w) Q) \<Longrightarrow> (\<not> P w \<Longrightarrow> blamed K U w0 e) \<Longrightarrow>
   ends K U D w0 (andThen (require e P) k w) Q"
  by (simp add: prog_simps)

lemma ends_sys:
  assumes "sound K U w" and "steps D w0 w" and "steady c" and "permitted (phases (trace w)) c"
    and "sound K U (after K c w) \<Longrightarrow> steps D w0 (after K c w) \<Longrightarrow> ends K U D w0 (k (reply K c w) (after K c w)) Q"
  shows "ends K U D w0 (andThen (sys K c) k w) Q"
  using inv_call [OF assms(1,3,4)] assms(2,5) steps_trans [OF assms(2)] steps_mono
  by (simp add: prog_simps) (metis empty_subsetI)

lemma ends_put:
  assumes "sound K U w" and "steps D w0 w" and "heap w p = Some s" and "same_role (f s) s"
    and "\<And>w'. sound K U w' \<Longrightarrow> steps D w0 w' \<Longrightarrow> w' = w\<lparr>heap := (heap w)(p \<mapsto> f s)\<rparr> \<Longrightarrow> ends K U D w0 (k () w') Q"
  shows "ends K U D w0 (andThen (put_sock p f) k w) Q"
proof -
  have "sound K U (w\<lparr>heap := (heap w)(p \<mapsto> f s)\<rparr>) \<and> steps {} w (w\<lparr>heap := (heap w)(p \<mapsto> f s)\<rparr>)"
    by (rule inv_put [OF assms(1,3,4)])
  then show ?thesis
    using assms(3,5) steps_trans [OF assms(2)] steps_mono by (simp add: prog_simps) (metis empty_subsetI)
qed

lemma ends_ret: "sound K U w \<Longrightarrow> steps D w0 w \<Longrightarrow> Q a w \<Longrightarrow> ends K U D w0 (ret a w) Q"
  by (simp add: prog_simps)

lemma ends_discard: "ends K U D w0 (m w) Q \<Longrightarrow> ends K U D w0 (discard m w) (\<lambda>_ _. True)"
  unfolding discard_def by (erule ends_then) (simp add: ends_ret)

text \<open>Resolving a name leaves the objects and the descriptors alone; a resolved address has the requested family.\<close>

lemma resolve_loop_triple:
  "triple P attempt (\<lambda>_. P) E \<Longrightarrow> triple P (resolve_loop attempt err n) (\<lambda>_. P) E"
proof (induction attempt err n rule: resolve_loop.induct)
  case (1 attempt err n)
  show ?case
    unfolding resolve_loop.simps [of attempt err n]
    by (rule triple_andThen [OF "1.prems"], intro triple_if)
      (auto intro!: triple_ret "1.IH" "1.prems" simp del: resolve_loop.simps)
qed

lemma ends_addrinfo:
  assumes I: "sound K U w"
  shows "ends K U {} w (addrinfo (world_resolver K) addr host fam w)
    (\<lambda>(r, a) w'. heap w' = heap w \<and> phases (trace w') = phases (trace w) \<and> (r = AI_SUCCESS \<longrightarrow> sa_family a = fam))"
proof -
  let ?R = "world_resolver K" and ?P = "\<lambda>w'. sound K U w' \<and> steps {} w w' \<and> heap w' = heap w \<and> phases (trace w') = phases (trace w)"
  have step: "?P (after K (Lib_getaddrinfo host fam) w')" if "?P w'" for w'
    using inv_call [of K U w' "Lib_getaddrinfo host fam"] that steps_trans by auto
  have "triple ?P (external (getaddrinfo ?R host fam)) (\<lambda>_. ?P) (\<lambda>_. False)"
    using step by (auto simp: triple_def external_def world_resolver_def answer_def)
  then have "triple ?P (addrinfo ?R addr host fam) (\<lambda>_. ?P) (\<lambda>_. False)"
    unfolding addrinfo_def
    by (intro triple_andThen [OF resolve_loop_triple]) (auto intro!: triple_ret split: option.split)
  then have keep: "?P w'" if "addrinfo ?R addr host fam w = Inr (x, w')" for x w'
    using tripleD [of ?P "addrinfo ?R addr host fam" "\<lambda>_. ?P" _ w x w'] that I by simp
  have honours: "honours_family ?R"
    using I by (simp add: sound_but_def env_ok_def world_resolver_honours)
  show ?thesis
  proof (cases rule: addrinfo_cases [where R = ?R and address = addr and host = host and fam = fam and s = w])
    case (success b s' t)
    have "2 \<le> length b \<and> b ! 1 = fam"
      using honours success(2,3) by (auto simp: honours_family_def)
    then have "sa_family (write_at 0 b addr) = fam"
      by (simp add: sa_family_def write_at_def nth_append)
    then show ?thesis
      using success(1) keep [OF success(1)] by simp
  next
    case (failure r s')
    then show ?thesis
      using keep [OF failure(1)] by simp
  qed
qed

text \<open>Printing changes nothing but the history of calls and \<^verbatim>\<open>errno\<close>.\<close>

definition echoes :: "world \<Rightarrow> world \<Rightarrow> bool" where
  "echoes w w' \<longleftrightarrow> (\<exists>tr e. w' = w\<lparr>trace := tr, errno := e\<rparr>)"

lemma echoes_refl [simp]: "echoes w w"
  unfolding echoes_def by (intro exI [of _ "trace w"] exI [of _ "errno w"]) simp

lemma echoes_trans: "echoes w w1 \<Longrightarrow> echoes w1 w2 \<Longrightarrow> echoes w w2"
  unfolding echoes_def by (elim exE) (simp, blast)

lemma echoes_heap: "echoes w w' \<Longrightarrow> heap w' = heap w"
  by (auto simp: echoes_def)

lemma echoes_after [simp]: "echoes w (after K c w)"
  unfolding echoes_def after_def by blast

definition echoing :: "kernel \<Rightarrow> user_program \<Rightarrow> world \<Rightarrow> world \<Rightarrow> bool" where
  "echoing K U w w' \<longleftrightarrow> sound K U w' \<and> steps {} w w' \<and> echoes w w'"

lemma echoing_call:
  "echoing K U w w' \<Longrightarrow> steady c \<Longrightarrow> permitted (phases (trace w')) c \<Longrightarrow> echoing K U w (after K c w')"
  using inv_call [of K U w' c] steps_trans [of "{}" w w'] echoes_trans [OF _ echoes_after]
  by (auto simp: echoing_def)

lemma get_ip_echoing: "triple (echoing K U w) (get_ip (world_resolver K) a) (\<lambda>_. echoing K U w) E"
  using echoing_call [of K U w _ "Lib_inet_ntop f b n" for f b n]
  by (auto simp: triple_def get_ip_def prog_simps external_def world_resolver_def answer_def
      split: option.splits)

text \<open>\<open>Misuse\<close> is the fault of printing an object that is not in scope.\<close>

lemma live_echoing:
  assumes "\<not> item_permitted (scope_of w) (Ip_of p) \<Longrightarrow> E Misuse"
  shows "triple (echoing K U w) (live [Tcp_connection, Raw_socket, Udp_socket] p)
    (\<lambda>_ w'. echoing K U w w' \<and> heap w' p \<noteq> None) E"
  unfolding live_def
proof (rule triple_require)
  fix w' assume "echoing K U w w'"
    and "\<not> (case heap w' p of None \<Rightarrow> False | Some s \<Rightarrow> List.member [Tcp_connection, Raw_socket, Udp_socket] (sclass s))"
  moreover have "c = Tcp_connection \<or> c = Raw_socket \<or> c = Udp_socket" for c
    by (cases c) simp_all
  ultimately have "heap w p = None"
    by (auto simp: echoing_def dest: echoes_heap split: option.splits)
  then show "E Misuse"
    using assms by (simp add: scope_of_def)
qed (auto split: option.splits)

lemma get_sock_echoing:
  "triple (\<lambda>w'. echoing K U w w' \<and> heap w' p \<noteq> None) (get_sock p) (\<lambda>_. echoing K U w) E"
  by (auto simp: triple_def prog_simps)

lemma render_echoing:
  assumes "printable i" and "\<not> item_permitted (scope_of w) i \<Longrightarrow> E Misuse"
  shows "triple (echoing K U w) (render K i) (\<lambda>_. echoing K U w) E"
  using assms
  by (cases i) (auto intro!: get_ip_echoing triple_ret simp: get_socket_def andThen_assoc
      intro!: triple_andThen [OF live_echoing] triple_andThen [OF get_sock_echoing])

lemma render_all_echoing:
  "list_all printable is \<Longrightarrow> (\<not> list_all (item_permitted (scope_of w)) is \<Longrightarrow> E Misuse) \<Longrightarrow>
   triple (echoing K U w) (render_all K is) (\<lambda>_. echoing K U w) E"
proof (induction "is")
  case Nil
  show ?case by (simp add: triple_ret)
next
  case (Cons i "is")
  have rest: "triple (echoing K U w) (render_all K is) (\<lambda>_. echoing K U w) E"
    using Cons by auto
  moreover have "triple (echoing K U w) (render K i) (\<lambda>_. echoing K U w) E"
    using Cons.prems by (intro render_echoing) auto
  ultimately show ?case
    by (auto intro!: triple_andThen [of _ "render K i"] triple_andThen [OF rest] triple_ret)
qed

lemma print_echoing:
  "list_all printable is \<Longrightarrow> (\<not> list_all (item_permitted (scope_of w)) is \<Longrightarrow> E Misuse) \<Longrightarrow>
   triple (echoing K U w) (print K is) (\<lambda>_. echoing K U w) E"
  unfolding print_def
  by (rule triple_andThen [OF render_all_echoing])
    (auto simp: triple_def discard_def prog_simps echoing_call)

lemma print_safe:
  assumes I: "sound K U w" and p: "list_all printable is" and "tidy U w \<longrightarrow> list_all (item_permitted (scope_of w)) is"
  shows "ends K U {} w (print K is w) (\<lambda>_ w'. echoes w w')"
proof -
  have e: "echoing K U w w" using I by (simp add: echoing_def)
  have t: "triple (echoing K U w) (print K is) (\<lambda>_. echoing K U w) (blamed K U w)"
    by (rule print_echoing [OF p]) (use assms(3) in auto)
  show ?thesis
    using tripleD [OF t e] tripleD_fault [OF t e]
    by (cases "print K is w") (auto simp: ends_def echoing_def)
qed

lemma set_port_family:
  "sa_family a = inet_family six \<Longrightarrow> \<exists>b. set_port (inet_sockaddr six) port a = Inr b"
  by (simp add: set_port_def to_type_def inet_family_def inet_sockaddr_def)

end
