(* ===== verification/Change_Counter.thy ===== *)
theory Change_Counter
  imports World_Invariant
begin

text \<open>
  How far the change counter of a handler can run while an action is executed.  A program whose callbacks
  open no socket changes its handlers only by closing sockets, each of which it can close once, and by
  accepting at most one connection per execution of \<open>READABLE\<close>: the number of changes is bounded by the
  number of open sockets, whatever the callbacks call and however they nest.
\<close>

section \<open>A ledger of changes\<close>

text \<open>Callbacks that accept a connection stand only in \<open>READABLE\<close> actions, one at most.\<close>

fun is_accept :: "callback \<Rightarrow> bool" where
  "is_accept (Server_accept i p) = True"
| "is_accept cb = False"

definition accepting :: "callback action_callback list \<Rightarrow> nat" where
  "accepting cs = length (filter (\<lambda>c. is_accept (exec c)) cs)"

definition accepts_ok :: "world \<Rightarrow> bool" where
  "accepts_ok w \<longleftrightarrow> (\<forall>ob acts t. actions_of ob w = Some acts \<longrightarrow> accepting (acts t) \<le> (if t = READABLE then 1 else 0))"

text \<open>
  \<open>ledger w0 e w\<close>: from \<open>w0\<close> to \<open>w\<close> each handler has made \<open>k\<close> changes, each of which is paid for by a socket
  that was open in \<open>w0\<close> and is not any more, but for \<open>e\<close> changes on credit (an added socket costs two: the
  change and the socket to close later).  A handler without changes keeps its vectors.
\<close>

definition opens :: "world \<Rightarrow> hid \<Rightarrow> ptr set" where
  "opens w h = {p. \<exists>s. heap w p = Some s \<and> shandler s = h \<and> 0 \<le> sock_fd s}"

definition balance :: "world \<Rightarrow> nat \<Rightarrow> world \<Rightarrow> hid \<Rightarrow> nat \<Rightarrow> bool" where
  "balance w0 e w h k \<longleftrightarrow> invalid (handlers w h) = invalid (handlers w0 h) + of_nat k \<and>
     k + card (opens w h) \<le> card (opens w0 h) + e \<and>
     (k = 0 \<longrightarrow> storage (handlers w h) = storage (handlers w0 h) \<and> socket_ptrs (handlers w h) = socket_ptrs (handlers w0 h) \<and>
       card (opens w h) \<le> card (opens w0 h))"

definition ledger :: "world \<Rightarrow> nat \<Rightarrow> world \<Rightarrow> bool" where
  "ledger w0 e w \<longleftrightarrow> accepts_ok w \<and> (\<forall>h. finite (opens w h) \<and> (\<exists>k. balance w0 e w h k))"

lemma ledger_start: "accepts_ok w \<Longrightarrow> \<forall>h. finite (opens w h) \<Longrightarrow> ledger w 0 w"
  unfolding ledger_def balance_def by (auto intro!: exI [of _ "0 :: nat"])

lemma ledger_more: "ledger w0 e w \<Longrightarrow> e \<le> e' \<Longrightarrow> ledger w0 e' w"
  unfolding ledger_def balance_def by (meson add_left_mono le_trans)

text \<open>Steps that leave counters and actions alone and open nothing.\<close>

lemma ledger_frame:
  assumes l: "ledger w0 e w"
    and h: "\<And>h. invalid (handlers w' h) = invalid (handlers w h)" "\<And>h. storage (handlers w' h) = storage (handlers w h)"
      "\<And>h. socket_ptrs (handlers w' h) = socket_ptrs (handlers w h)"
    and o: "\<And>p s'. heap w' p = Some s' \<Longrightarrow> \<exists>s. heap w p = Some s \<and> shandler s = shandler s' \<and> (0 \<le> sock_fd s' \<longrightarrow> 0 \<le> sock_fd s)"
    and a: "\<And>ob acts'. actions_of ob w' = Some acts' \<Longrightarrow>
        \<exists>acts. actions_of ob w = Some acts \<and> (\<forall>t. accepting (acts' t) = accepting (acts t))"
  shows "ledger w0 e w'"
  unfolding ledger_def
proof (intro conjI allI)
  show "accepts_ok w'"
    using l a unfolding ledger_def accepts_ok_def by metis
  fix h
  have sub: "opens w' h \<subseteq> opens w h"
    unfolding opens_def using o by fastforce
  have fin: "finite (opens w h)"
    using l by (simp add: ledger_def)
  then show "finite (opens w' h)"
    using sub by (rule finite_subset [rotated])
  obtain k where k: "balance w0 e w h k"
    using l unfolding ledger_def by blast
  have "card (opens w' h) \<le> card (opens w h)"
    using fin sub by (rule card_mono)
  then have "balance w0 e w' h k"
    using k by (auto simp: balance_def h)
  then show "\<exists>k. balance w0 e w' h k" ..
qed

text \<open>A socket is taken out of its handler and closed.\<close>

lemma ledger_close:
  assumes l: "ledger w0 e w" and s: "heap w p = Some s" "0 \<le> sock_fd s"
    and w': "invalid (handlers w' (shandler s)) = invalid (handlers w (shandler s)) + 1"
      "\<And>h. h \<noteq> shandler s \<Longrightarrow> handlers w' h = handlers w h"
      "heap w' = (heap w)(p \<mapsto> s\<lparr>sock_fd := -1\<rparr>)" "servers w' = servers w" "clients w' = clients w"
  shows "ledger w0 e w'"
  unfolding ledger_def
proof (intro conjI allI)
  have "actions_of ob w' = actions_of ob w" for ob
    using s by (cases ob) (simp_all add: w')
  then show "accepts_ok w'"
    using l by (simp add: ledger_def accepts_ok_def)
  fix h
  have fin: "finite (opens w h)"
    using l by (simp add: ledger_def)
  have o: "opens w' h = opens w h - {p}"
    by (auto simp: opens_def w' split: if_splits)
  then show "finite (opens w' h)" using fin by simp
  obtain k where k: "balance w0 e w h k"
    using l unfolding ledger_def by blast
  show "\<exists>k. balance w0 e w' h k"
  proof (cases "h = shandler s")
    case True
    then have "p \<in> opens w h" using s by (simp add: opens_def)
    then have "card (opens w h) = Suc (card (opens w' h))"
      unfolding o by (rule card.remove [OF fin])
    moreover have "invalid (handlers w' h) = invalid (handlers w0 h) + of_nat (Suc k)"
      using k w'(1) unfolding True [symmetric] balance_def by simp
    ultimately have "balance w0 e w' h (Suc k)"
      using k unfolding balance_def by linarith
    then show ?thesis ..
  next
    case False
    then have "p \<notin> opens w h" using s by (simp add: opens_def)
    then have "balance w0 e w' h k"
      using k False by (simp add: balance_def w'(2) o)
    then show ?thesis ..
  qed
qed

text \<open>A new socket is added to its handler.\<close>

lemma ledger_add:
  assumes l: "ledger w0 e w"
    and w': "invalid (handlers w' h') = invalid (handlers w h') + 1" "\<And>h. h \<noteq> h' \<Longrightarrow> handlers w' h = handlers w h"
      "heap w' = (heap w)(p \<mapsto> s)" "shandler s = h'" "\<And>t. accepting (sactions s t) = 0"
      "\<And>i. srv_actions (servers w' i) = srv_actions (servers w i)" "\<And>i. cl_actions (clients w' i) = cl_actions (clients w i)"
  shows "ledger w0 (e + 2) w'"
  unfolding ledger_def
proof (intro conjI allI)
  show "accepts_ok w'"
    unfolding accepts_ok_def
  proof (intro allI impI)
    fix ob acts t assume "actions_of ob w' = Some acts"
    then consider "actions_of ob w = Some acts" | "acts = sactions s"
      by (cases ob) (auto simp: w' split: if_splits)
    then show "accepting (acts t) \<le> (if t = READABLE then 1 else 0)"
    proof cases
      case 1
      then show ?thesis using l unfolding ledger_def accepts_ok_def by blast
    next
      case 2
      then show ?thesis by (simp add: w'(5))
    qed
  qed
  fix h
  have fin: "finite (opens w h)"
    using l by (simp add: ledger_def)
  have sub: "opens w' h \<subseteq> (if h = h' then insert p (opens w h) else opens w h)"
    using w'(4) by (auto simp: opens_def w'(3) split: if_splits)
  then show "finite (opens w' h)"
    using fin finite_subset by (fastforce split: if_splits)
  obtain k where k: "balance w0 e w h k"
    using l unfolding ledger_def by blast
  show "\<exists>k. balance w0 (e + 2) w' h k"
  proof (cases "h = h'")
    case True
    have "card (opens w' h) \<le> Suc (card (opens w h))"
      using card_mono [of "insert p (opens w h)" "opens w' h"] sub fin True card_insert_le_m1 [of "Suc (card (opens w h))" "opens w h" p]
      by simp
    moreover have "invalid (handlers w' h) = invalid (handlers w0 h) + of_nat (Suc k)"
      using k w'(1) unfolding True [symmetric] balance_def by simp
    ultimately have "balance w0 (e + 2) w' h (Suc k)"
      using k unfolding balance_def by linarith
    then show ?thesis ..
  next
    case False
    then have "card (opens w' h) \<le> card (opens w h)"
      using card_mono [OF fin] sub by simp
    then have "balance w0 (e + 2) w' h k"
      using k False by (auto simp: balance_def w'(2))
    then show ?thesis ..
  qed
qed

section \<open>What a computation spends\<close>

definition spends :: "nat \<Rightarrow> 'a act \<Rightarrow> bool" where
  "spends n m \<longleftrightarrow> (\<forall>w0 e w a w'. ledger w0 e w \<longrightarrow> m w = Inr (a, w') \<longrightarrow> ledger w0 (e + n) w')"

abbreviation thrifty :: "'a act \<Rightarrow> bool" where
  "thrifty \<equiv> spends 0"

named_theorems thrifty_rules "computations that spend nothing"

lemma spendsD: "spends n m \<Longrightarrow> ledger w0 e w \<Longrightarrow> m w = Inr (a, w') \<Longrightarrow> ledger w0 (e + n) w'"
  unfolding spends_def by blast

lemma spends_more: "spends n m \<Longrightarrow> n \<le> n' \<Longrightarrow> spends n' m"
  unfolding spends_def by (meson add_left_mono ledger_more)

lemma spends_andThen:
  assumes "spends n m" and "\<And>a. spends n' (k a)"
  shows "spends (n + n') (andThen m k)"
  unfolding spends_def
proof (intro allI impI)
  fix w0 e w a w' assume "ledger w0 e w" and r: "andThen m k w = Inr (a, w')"
  moreover obtain b v where "m w = Inr (b, v)" "k b v = Inr (a, w')"
    using r by (auto simp: andThen_apply split: sum.splits)
  ultimately show "ledger w0 (e + (n + n')) w'"
    using spendsD [OF assms(1)] spendsD [OF assms(2)] by (metis add.assoc)
qed

lemma thrifty_andThen [thrifty_rules]: "thrifty m \<Longrightarrow> (\<And>a. thrifty (k a)) \<Longrightarrow> thrifty (andThen m k)"
  using spends_andThen [of 0 m 0 k] by simp

lemma then_spends: "thrifty m \<Longrightarrow> (\<And>a. spends n (k a)) \<Longrightarrow> spends n (andThen m k)"
  using spends_andThen [of 0 m n k] by simp

lemma spends_then: "spends n m \<Longrightarrow> (\<And>a. thrifty (k a)) \<Longrightarrow> spends n (andThen m k)"
  using spends_andThen [of n m 0 k] by simp

lemma thrifty_basic [thrifty_rules]: "thrifty (ret x)" "thrifty (raise f)" "thrifty (reads g)" "thrifty (require f B)"
  by (auto simp: spends_def prog_simps split: if_splits)

lemma thrifty_cases [thrifty_rules]:
  "(b \<Longrightarrow> thrifty m) \<Longrightarrow> (\<not> b \<Longrightarrow> thrifty m') \<Longrightarrow> thrifty (if b then m else m')"
  "thrifty m \<Longrightarrow> (\<And>y. thrifty (k y)) \<Longrightarrow> thrifty (case z of None \<Rightarrow> m | Some y \<Rightarrow> k y)"
  "thrifty m \<Longrightarrow> (\<And>y ys. thrifty (l y ys)) \<Longrightarrow> thrifty (case xs of [] \<Rightarrow> m | y # ys \<Rightarrow> l y ys)"
  by (simp_all split: option.split list.split)

lemma thrifty_run_all [thrifty_rules]: "(\<And>x. x \<in> set xs \<Longrightarrow> thrifty (f x)) \<Longrightarrow> thrifty (run_all f xs)"
  by (induction xs) (auto intro!: thrifty_rules)

text \<open>Computations that leave counters, descriptors and actions alone.\<close>

definition same_books :: "world \<Rightarrow> world \<Rightarrow> bool" where
  "same_books w w' \<longleftrightarrow> (\<forall>h. invalid (handlers w' h) = invalid (handlers w h) \<and> storage (handlers w' h) = storage (handlers w h) \<and>
       socket_ptrs (handlers w' h) = socket_ptrs (handlers w h)) \<and>
     (\<forall>p s'. heap w' p = Some s' \<longrightarrow> (\<exists>s. heap w p = Some s \<and> shandler s = shandler s' \<and> sock_fd s = sock_fd s' \<and> sactions s = sactions s')) \<and>
     (\<forall>i. srv_actions (servers w' i) = srv_actions (servers w i)) \<and> (\<forall>i. cl_actions (clients w' i) = cl_actions (clients w i))"

lemma thrifty_same:
  assumes "\<And>w a w'. m w = Inr (a, w') \<Longrightarrow> same_books w w'"
  shows "thrifty m"
  unfolding spends_def
proof (intro allI impI)
  fix w0 e w a w' assume l: "ledger w0 e w" and "m w = Inr (a, w')"
  then have s: "same_books w w'" using assms by blast
  show "ledger w0 (e + 0) w'"
    unfolding add_0_right
  proof (rule ledger_frame [OF l])
    show "\<exists>acts. actions_of ob w = Some acts \<and> (\<forall>t. accepting (acts' t) = accepting (acts t))"
      if "actions_of ob w' = Some acts'" for ob acts'
      using s that unfolding same_books_def by (cases ob) fastforce+
    show "\<exists>s. heap w p = Some s \<and> shandler s = shandler s' \<and> (0 \<le> sock_fd s' \<longrightarrow> 0 \<le> sock_fd s)" if "heap w' p = Some s'" for p s'
      using s that unfolding same_books_def by fastforce
  qed (use s in \<open>simp_all add: same_books_def\<close>)
qed

lemma thrifty_external [thrifty_rules]:
  "thrifty (sys K c)" "thrifty (external (getnameinfo (world_resolver K) x len room))"
  "thrifty (external (inet_ntop (world_resolver K) fam b room))"
  by (rule thrifty_same; auto simp: same_books_def sys_def external_def answer_def world_resolver_def)+

lemma thrifty_memory [thrifty_rules]:
  "thrifty (get_sock p)" "thrifty (get_socket p)" "thrifty (free_sock p)"
  "(\<And>s. shandler (f s) = shandler s) \<Longrightarrow> (\<And>s. sock_fd (f s) = sock_fd s) \<Longrightarrow> (\<And>s. sactions (f s) = sactions s) \<Longrightarrow> thrifty (put_sock p f)"
  "thrifty (set_variable x v)" "thrifty (update (put_container c cont))"
  "thrifty (touch_list ob t l)"
  by (rule thrifty_same; cases c; auto simp: same_books_def get_socket_def put_sock_def free_sock_def touch_list_def prog_simps set_variable_def
      split: option.splits if_splits)+

lemma thrifty_want [thrifty_rules]: "thrifty (handler_want_read h fd b)" "thrifty (handler_want_write h fd b)"
  by (rule thrifty_same; auto simp: same_books_def handler_want_read_def handler_want_write_def prog_simps
      impl_socket_want_read_def impl_socket_want_write_def Let_def)+

lemma accepting_add: "\<not> is_accept cb \<Longrightarrow> accepting (add_callback cb fl xs) = accepting xs"
proof -
  assume cb: "\<not> is_accept cb"
  let ?n = "insert_base (rev xs)" and ?P = "\<lambda>c. is_accept (exec c)"
  have "length (filter ?P xs) = length (filter ?P (take ?n xs @ drop ?n xs))"
    by simp
  also have "\<dots> = length (filter ?P (take ?n xs)) + length (filter ?P (drop ?n xs))"
    unfolding filter_append length_append ..
  finally show ?thesis
    using cb by (simp add: accepting_def add_callback_def Let_def)
qed

lemma thrifty_on [thrifty_rules]:
  assumes "\<not> is_accept cb"
  shows "thrifty (on ob t cb fl)"
  unfolding spends_def
proof (intro allI impI)
  fix w0 e w a w' assume l: "ledger w0 e w" and r: "on ob t cb fl w = Inr (a, w')"
  obtain acts where acts: "actions_of ob w = Some acts" "w' = put_actions ob (acts(t := add_callback cb fl (acts t))) w"
    using r by (auto simp: on_def split: option.splits)
  show "ledger w0 (e + 0) w'"
    unfolding add_0_right
  proof (rule ledger_frame [OF l])
    show "\<exists>acts. actions_of ob' w = Some acts \<and> (\<forall>t. accepting (acts' t) = accepting (acts t))"
      if "actions_of ob' w' = Some acts'" for ob' acts'
      using that acts assms by (cases ob; cases ob') (auto simp: accepting_add split: if_splits option.splits)
  qed (use acts in \<open>cases ob; auto split: option.splits if_splits\<close>)+
qed

section \<open>The operations\<close>

lemma thrifty_name [thrifty_rules]:
  "thrifty (resolve_loop (external (getnameinfo (world_resolver K) a len room)) fst n)"
proof (induction "nat n" arbitrary: n rule: less_induct)
  case less
  show ?case
    by (subst resolve_loop.simps) (auto intro!: thrifty_rules less)
qed

lemma thrifty_text [thrifty_rules]:
  "thrifty (get_ip (world_resolver K) a)" "thrifty (to_string (world_resolver K) a)"
  unfolding get_ip_def to_string_def to_string_inet_def to_string_inet6_def describe_host_def nameinfo_of_def nameinfo_def
  by (auto intro!: thrifty_rules simp: case_prod_beta)

lemma thrifty_guards [thrifty_rules]: "thrifty (live classes p)" "thrifty (closed_socket p)"
  by (simp_all add: live_def closed_socket_def thrifty_basic)

lemma thrifty_discard [thrifty_rules]: "thrifty m \<Longrightarrow> thrifty (discard m)"
  unfolding discard_def by (intro thrifty_rules)

lemma thrifty_print [thrifty_rules]: "thrifty (print K items)"
proof -
  have "thrifty (render K i)" for i
    by (cases i) (auto intro!: thrifty_rules)
  then have "thrifty (render_all K is)" for "is"
    by (induction "is") (auto intro!: thrifty_rules)
  then show ?thesis
    unfolding print_def by (auto intro!: thrifty_rules)
qed

text \<open>
  An executor is thrifty but for \<open>READABLE\<close> actions, which the operations never execute.  Closing pays for
  the change it makes with the socket it closes.
\<close>

lemma sock_close_world:
  assumes "heap w p = Some s" and "0 \<le> sock_fd s"
  obtains "sock_close K X p w = Inl OutOfRange"
  | h' where "delete_socket (sock_fd s) (handlers w (shandler s)) = Some h'"
      "sock_close K X p w = X (Socket_obj p) CLOSED A_none
        ((after K (Sys_close (sock_fd s)) (set_handler (shandler s) h' w))\<lparr>heap := (heap w)(p \<mapsto> s\<lparr>sock_fd := -1\<rparr>)\<rparr>)"
  using assms
  by (cases "delete_socket (sock_fd s) (handlers w (shandler s))")
    (auto simp: sock_close_def base_close_def handler_delete_socket_def prog_simps)

lemma thrifty_sock_close [thrifty_rules]:
  assumes X: "\<And>ob t a. t \<noteq> READABLE \<Longrightarrow> thrifty (X ob t a)"
  shows "thrifty (sock_close K X p)"
  unfolding spends_def
proof (intro allI impI)
  fix w0 e w a w' assume l: "ledger w0 e w" and r: "sock_close K X p w = Inr (a, w')"
  obtain s where s: "heap w p = Some s"
    using r by (auto simp: sock_close_def prog_simps split: option.splits)
  show "ledger w0 (e + 0) w'"
  proof (cases "sock_fd s < 0")
    case True
    then show ?thesis using l r s by (simp add: sock_close_def prog_simps)
  next
    case False
    then have open_fd: "0 \<le> sock_fd s" by simp
    show ?thesis
    proof (cases rule: sock_close_world [OF s open_fd, of K X])
      case (2 h')
      let ?v = "(after K (Sys_close (sock_fd s)) (set_handler (shandler s) h' w))\<lparr>heap := (heap w)(p \<mapsto> s\<lparr>sock_fd := -1\<rparr>)\<rparr>"
      have "invalid h' = invalid (handlers w (shandler s)) + 1"
        using 2(1) by (auto simp: delete_socket_def impl_del_socket_def Let_def split: if_splits option.splits)
      then have "ledger w0 e ?v"
        by (intro ledger_close [OF l s open_fd]) simp_all
      moreover have "X (Socket_obj p) CLOSED A_none ?v = Inr (a, w')"
        using r 2(2) by simp
      ultimately show ?thesis
        using spendsD [OF X] by blast
    qed (use r in simp)
  qed
qed

lemma thrifty_closing [thrifty_rules]:
  assumes X: "\<And>ob t a. t \<noteq> READABLE \<Longrightarrow> thrifty (X ob t a)"
  shows "thrifty (container_close K X n c)" "thrifty (server_close K X n i)" "thrifty (client_close K X n i)"
proof -
  show c: "thrifty (container_close K X n c)" for n c
    by (induction n) (auto intro!: thrifty_rules X)
  show "thrifty (server_close K X n i)" "thrifty (client_close K X n i)"
    unfolding server_close_def client_close_def by (auto intro!: thrifty_rules c)
qed

lemma thrifty_sockets [thrifty_rules]:
  assumes X: "\<And>ob t a. t \<noteq> READABLE \<Longrightarrow> thrifty (X ob t a)"
  shows "thrifty (sock_bind K X p)" "thrifty (set_want_read p b)" "thrifty (set_want_write p b)"
    "thrifty (raw_sendmsg K X p msg fl)" "thrifty (raw_send_to K X p addr msg fl)"
    "thrifty (raw_recvmsg K X p)" "thrifty (raw_recvfrom K X p)"
    "thrifty (connection_send K X p msg)" "thrifty (connection_recv K X p)" "thrifty (connection_send_flush K X p)"
  unfolding sock_bind_def set_want_read_def set_want_write_def raw_sendmsg_def raw_send_to_def raw_recvmsg_def raw_recvfrom_def
    connection_send_def connection_recv_def connection_send_flush_def Let_def
  by (auto intro!: thrifty_rules X)

lemma thrifty_erase [thrifty_rules]: "thrifty (container_erase c k)"
  unfolding container_erase_def by (auto intro!: thrifty_rules)

text \<open>Accepting adds one socket.\<close>

lemma make_socket_world:
  assumes "make_socket_fd c fd w = Inr (made, w')"
  shows "w' = w \<or> w' = with_socket c fd w"
proof -
  let ?cont = "get_container c w"
  obtain m b where m: "map_insert fd (next_ptr w) (c_sockets ?cont) = (m, b)"
    by fastforce
  have i: "insert_socket c (new_sock Tcp_connection (c_handler ?cont) fd) w = Inr (made, w')"
    using assms by (simp add: make_socket_fd_def prog_simps split: if_splits)
  have "w' = (if b then with_socket c fd w else w)"
    using i m by (cases b; cases c) (auto simp: insert_socket_def prog_simps on_def new_sock_def stored_sock_def erase_callback_def
        get_socket_def handler_add_socket_def action_list_defs with_socket_def Let_def)
  then show ?thesis by simp
qed

lemma make_socket_cost: "spends 2 (make_socket_fd c fd)"
  unfolding spends_def
proof (intro allI impI)
  fix w0 e w made w' assume l: "ledger w0 e w" and r: "make_socket_fd c fd w = Inr (made, w')"
  have "ledger w0 (e + 2) (with_socket c fd w)"
    by (rule ledger_add [OF l, where p = "next_ptr w" and s = "stored_sock c (c_handler (get_container c w)) fd"])
      (simp_all add: add_socket_def impl_add_socket_def Let_def stored_sock_def new_sock_def accepting_def)
  then show "ledger w0 (e + 2) w'"
    using ledger_more [OF l, of "e + 2"] make_socket_world [OF r] by auto
qed

lemma accept_cost:
  assumes X: "\<And>ob t a. t \<noteq> READABLE \<Longrightarrow> thrifty (X ob t a)"
  shows "spends 2 (server_accept K X i p)"
proof -
  have address: "thrifty (put_sock q (\<lambda>s. s\<lparr>address := a\<rparr>))" for q a
    by (intro thrifty_rules) simp_all
  show ?thesis
    unfolding server_accept_def Let_def
    apply (rule then_spends, intro thrifty_rules)+
    subgoal for fd u r
      using X by (auto intro!: spends_then [OF make_socket_cost] thrifty_rules address intro: spends_more [of 0] split: option.split)
    done
qed

section \<open>Calls, callbacks and executions\<close>

lemma thrifty_cmd:
  assumes X: "\<And>ob t a. t \<noteq> READABLE \<Longrightarrow> thrifty (X ob t a)" and "callback_cmd c" and "\<not> adding c"
  shows "thrifty (run_cmd K X n c)"
  using assms(2,3) by (cases c) (auto intro!: thrifty_rules X simp: set_data_def)

definition callback_price :: "callback \<Rightarrow> nat" where
  "callback_price cb = (if is_accept cb then 2 else 0)"

lemma callback_cost:
  assumes X: "\<And>ob t a. t \<noteq> READABLE \<Longrightarrow> thrifty (X ob t a)" and U: "frugal U" "disciplined U"
  shows "spends (callback_price cb) (run_callback K U X n cb a)"
proof (cases cb)
  case (User u)
  have "thrifty (run_all (run_cmd K X n) (U u a w))" for w
    using U by (intro thrifty_run_all thrifty_cmd [OF X]) (auto simp: frugal_def disciplined_def list_all_iff)
  then show ?thesis
    unfolding User run_callback.simps spends_def callback_price_def by auto
next
  case (Server_accept i p)
  then show ?thesis using accept_cost [OF X] by (simp add: callback_price_def)
qed (cases a; auto simp: callback_price_def intro!: thrifty_rules X)+

lemma list_cost:
  assumes "\<And>cb. spends (callback_price cb) (run cb)" and "thrifty touch"
  shows "spends (2 * accepting cs) (execute_list touch run cs)"
proof (induction cs)
  case Nil
  then show ?case by (simp add: accepting_def thrifty_basic)
next
  case (Cons c cs)
  have n: "2 * accepting (c # cs) = callback_price (exec c) + 2 * accepting cs"
    by (simp add: accepting_def callback_price_def)
  have "spends (2 * accepting (c # cs)) (execute_list touch run cs)" "spends (2 * accepting (c # cs)) (run (exec c))"
    using spends_more [OF Cons.IH] spends_more [OF assms(1)] n by simp_all
  then show ?case
    unfolding execute_list.simps
    by (intro then_spends [OF assms(2)]) (auto simp: n intro: spends_andThen assms(1) Cons.IH)
qed

lemma action_cost:
  assumes "\<And>cb. spends (callback_price cb) (run cb a)"
  shows "spends (if t = READABLE then 2 else 0) (execute_action run ob t a)"
  unfolding spends_def
proof (intro allI impI)
  fix w0 e w x w' assume l: "ledger w0 e w" and r: "execute_action run ob t a w = Inr (x, w')"
  obtain acts where acts: "actions_of ob w = Some acts"
      "execute_list (touch_list ob t (acts t)) (\<lambda>cb. run cb a) (acts t) w = Inr (x, w')"
    using r by (auto simp: execute_action_def split: option.splits if_splits)
  have "spends (2 * accepting (acts t)) (execute_list (touch_list ob t (acts t)) (\<lambda>cb. run cb a) (acts t))"
    by (rule list_cost) (auto intro: assms thrifty_rules)
  moreover have "2 * accepting (acts t) \<le> (if t = READABLE then 2 else 0)"
  proof -
    have "accepting (acts t) \<le> (if t = READABLE then 1 else 0)"
      using l acts(1) unfolding ledger_def accepts_ok_def by blast
    then show ?thesis by (simp split: if_splits)
  qed
  ultimately have "spends (if t = READABLE then 2 else 0) (execute_list (touch_list ob t (acts t)) (\<lambda>cb. run cb a) (acts t))"
    by (rule spends_more)
  from spendsD [OF this l acts(2)] show "ledger w0 (e + (if t = READABLE then 2 else 0)) w'" .
qed

lemma execute_cost:
  assumes "frugal U" and "disciplined U"
  shows "spends (if t = READABLE then 2 else 0) (execute K U n ob t a)"
proof (induction n arbitrary: ob t a)
  case 0
  show ?case by (simp add: spends_def raise_apply)
next
  case (Suc n)
  have "thrifty (execute K U n ob t a)" if "t \<noteq> READABLE" for ob t a
    using Suc.IH [of t ob a] that by simp
  then show ?case
    unfolding execute.simps by (intro action_cost callback_cost assms) simp
qed

section \<open>The counter\<close>

text \<open>Between two readings that are equal nothing has changed, if the number of open sockets fits.\<close>

lemma ledger_unchanged:
  assumes "ledger w0 e w" and "card (opens w0 h) + e < 65536" and "invalid (handlers w h) = invalid (handlers w0 h)"
  shows "storage (handlers w h) = storage (handlers w0 h) \<and> socket_ptrs (handlers w h) = socket_ptrs (handlers w0 h)"
proof -
  obtain k where k: "balance w0 e w h k"
    using assms(1) unfolding ledger_def by blast
  then have "(of_nat k :: ushort) = 0"
    using assms(3) by (simp add: balance_def)
  then have "65536 dvd k"
    by (simp add: word_of_nat_eq_0_iff)
  moreover have "k < 65536"
    using k assms(2) unfolding balance_def by linarith
  ultimately have "k = 0" by (meson nat_dvd_not_less not_gr_zero)
  then show ?thesis using k by (simp add: balance_def)
qed

text \<open>In a good world the lists are as required, and descriptors below 65533 are few enough.\<close>

lemma accepting_le: "accepting cs \<le> length cs"
  by (simp add: accepting_def)

lemma accepting_none: "(\<And>cb. cb \<in> set cs \<Longrightarrow> \<not> is_accept (exec cb)) \<Longrightarrow> accepting cs = 0"
  by (simp add: accepting_def filter_empty_conv)

lemma shape_accepting:
  assumes "sock_shape p s"
  shows "accepting (sactions s t) \<le> (if t = READABLE then 1 else 0)"
proof (cases "sclass s = Tcp_connection \<and> t = READABLE")
  case True
  then have "length (sactions s t) \<le> 1"
    using assms by (auto simp: sock_shape_def tcp_shape_def)
  then show ?thesis
    using True accepting_le [of "sactions s t"] by simp
next
  case False
  have "\<not> is_accept (exec cb)" if cb: "cb \<in> set (sactions s t)" for cb
  proof (cases "sclass s")
    case Tcp_connection
    then have shape: "tcp_shape p s" using assms by (simp add: sock_shape_def)
    show ?thesis
    proof (cases "t = CLOSED")
      case True
      have "\<not> is_accept (exec cb)" if "closing_hook p (exec cb)"
        using that by (auto simp: closing_hook_def)
      then show ?thesis using True shape cb by (auto simp: tcp_shape_def erase_callback_def)
    next
      case False
      then have "tcp_callback p t (exec cb)" "t \<noteq> READABLE"
        using shape cb \<open>\<not> (sclass s = Tcp_connection \<and> t = READABLE)\<close> Tcp_connection by (auto simp: tcp_shape_def)
      then show ?thesis by (cases t) auto
    qed
  next
    case Raw_socket
    then have "is_user (exec cb)" using assms cb by (simp add: sock_shape_def)
    then show ?thesis by (cases "exec cb") simp_all
  next
    case Udp_socket
    then have "datagram_callback p t (exec cb)" using assms cb by (simp add: sock_shape_def)
    then show ?thesis by (cases "exec cb") simp_all
  qed
  then show ?thesis by (simp add: accepting_none)
qed

lemma sound_accepts:
  assumes "sound K U w"
  shows "accepts_ok w"
  unfolding accepts_ok_def
proof (intro allI impI)
  fix ob acts t assume acts: "actions_of ob w = Some acts"
  show "accepting (acts t) \<le> (if t = READABLE then 1 else 0)"
  proof (cases "\<exists>p. ob = Socket_obj p")
    case True
    then obtain p s where "heap w p = Some s" "acts = sactions s"
      using acts by (auto split: option.splits)
    then show ?thesis using shape_accepting soundD(9) [OF assms] by blast
  next
    case False
    then have "is_user (exec cb)" if "cb \<in> set (acts t)" for cb
      using assms acts that by (cases ob) (auto simp: sound_but_def tables_ok_def)
    then have "\<not> is_accept (exec cb)" if "cb \<in> set (acts t)" for cb
      using that by (cases "exec cb") fastforce+
    then show ?thesis by (simp add: accepting_none)
  qed
qed

lemma opens_finite: "sound K U w \<Longrightarrow> finite (opens w h)"
  by (rule finite_subset [of _ "{..<next_ptr w}"]) (auto simp: opens_def dest: soundD(7))

lemma sound_ledger: "sound K U w \<Longrightarrow> ledger w 0 w"
  by (simp add: ledger_start sound_accepts opens_finite)

definition all_open :: "world \<Rightarrow> ptr set" where
  "all_open w = {p. \<exists>s. heap w p = Some s \<and> 0 \<le> sock_fd s}"

lemma all_open_few:
  assumes I: "sound K U w" and "few_descriptors K"
  shows "finite (all_open w) \<and> card (all_open w) \<le> 65533"
proof
  show fin: "finite (all_open w)"
    by (rule finite_subset [of _ "{..<next_ptr w}"]) (auto simp: all_open_def dest: soundD(7) [OF I])
  let ?f = "\<lambda>p. sock_fd (the (heap w p))"
  have "inj_on ?f (all_open w)"
    using soundD(6) [OF I] by (fastforce simp: inj_on_def all_open_def)
  moreover have "?f ` all_open w \<subseteq> open_fds (trace w)"
    using soundD(5) [OF I] by (auto simp: all_open_def)
  moreover have "open_fds (trace w) \<subseteq> {0..<65533}"
    using I by (intro open_fds_few [OF assms(2)]) (simp add: sound_but_def protocol_ok_def)
  ultimately have "card (all_open w) \<le> card {0 :: int..<65533}"
    by (intro card_inj_on_le [where f = ?f]) auto
  then show "card (all_open w) \<le> 65533" by simp
qed

lemma opens_few:
  assumes "sound K U w" and "few_descriptors K"
  shows "card (opens w h) \<le> 65533"
proof -
  have "opens w h \<subseteq> all_open w"
    by (auto simp: opens_def all_open_def)
  then show ?thesis
    using all_open_few [OF assms] card_mono [of "all_open w" "opens w h"] by simp
qed

text \<open>A change of the vectors during a dispatch shows in the counter.\<close>

lemma dispatch_unchanged:
  assumes "sound K U w" and "counted K U" and "ledger w 2 w'" and "invalid (handlers w' h) = invalid (handlers w h)"
  shows "storage (handlers w' h) = storage (handlers w h) \<and> socket_ptrs (handlers w' h) = socket_ptrs (handlers w h)"
  using ledger_unchanged [OF assms(3) _ assms(4)] opens_few [OF assms(1), of h] assms(2) by (simp add: counted_def)

end
