(* ===== verification/Executor_Contract.thy ===== *)
theory Executor_Contract
  imports Outcomes Change_Counter
begin

text \<open>
  The contract of the executor of actions as an interface, and the operations of the library on it:
  if executions keep the invariant, so do the operations.
\<close>

section \<open>The contract of the executor\<close>

text \<open>
  An execution that the library may ask for: the object exists, the arguments fit the action, the
  \<open>CLOSED\<close> action of a connection runs only once its descriptor is gone and \<open>READABLE\<close> only while it has
  one and, in a timid program, no connection is being closed, and a server or client is given a connection that is alive.
\<close>

definition connection_live :: "ptr \<Rightarrow> world \<Rightarrow> bool" where
  "connection_live p w \<longleftrightarrow> (\<exists>s. heap w p = Some s \<and> sclass s = Tcp_connection)"

fun args_live :: "args \<Rightarrow> world \<Rightarrow> bool" where
  "args_live (A_connection p) w = connection_live p w"
| "args_live (A_connection_bytes p b) w = connection_live p w"
| "args_live a w = True"

fun applicable :: "obj \<Rightarrow> tag \<Rightarrow> args \<Rightarrow> world \<Rightarrow> bool" where
  "applicable (Socket_obj p) t a w \<longleftrightarrow> (\<exists>s. heap w p = Some s \<and>
     get_action t (class_actions (sclass s)) = Some (t, args_prototype a) \<and>
     (sclass s = Tcp_connection \<longrightarrow> t = CLOSED \<longrightarrow> sock_fd s < 0) \<and>
     (sclass s = Tcp_connection \<longrightarrow> t = READABLE \<longrightarrow> 0 \<le> sock_fd s))"
| "applicable (Server_obj i) t a w \<longleftrightarrow> get_action t (server_actions_list []) = Some (t, args_prototype a)"
| "applicable (Client_obj i) t a w \<longleftrightarrow> get_action t (client_actions_list []) = Some (t, args_prototype a)"

definition legit :: "user_program \<Rightarrow> obj \<Rightarrow> tag \<Rightarrow> args \<Rightarrow> world \<Rightarrow> bool" where
  "legit U ob t a w \<longleftrightarrow> applicable ob t a w \<and> (case ob of Socket_obj p \<Rightarrow> t = READABLE \<longrightarrow> calm U w | _ \<Rightarrow> args_live a w)"

lemma legit_simps [simp]:
  "legit U (Socket_obj p) t a w \<longleftrightarrow> (\<exists>s. heap w p = Some s \<and>
     get_action t (class_actions (sclass s)) = Some (t, args_prototype a) \<and>
     (sclass s = Tcp_connection \<longrightarrow> t = CLOSED \<longrightarrow> sock_fd s < 0) \<and>
     (sclass s = Tcp_connection \<longrightarrow> t = READABLE \<longrightarrow> 0 \<le> sock_fd s)) \<and> (t = READABLE \<longrightarrow> calm U w)"
  "legit U (Server_obj i) t a w \<longleftrightarrow> get_action t (server_actions_list []) = Some (t, args_prototype a) \<and> args_live a w"
  "legit U (Client_obj i) t a w \<longleftrightarrow> get_action t (client_actions_list []) = Some (t, args_prototype a) \<and> args_live a w"
  by (simp_all add: legit_def)

text \<open>The object that an execution destroys, and the executions that at most print.\<close>

fun doomed :: "obj \<Rightarrow> tag \<Rightarrow> world \<Rightarrow> ptr set" where
  "doomed (Socket_obj p) CLOSED w = {q. q = p \<and> (\<exists>s. heap w p = Some s \<and> sclass s = Tcp_connection)}"
| "doomed ob t w = {}"

lemma doomed_iff:
  "p \<in> doomed ob t w \<longleftrightarrow> ob = Socket_obj p \<and> t = CLOSED \<and> (\<exists>s. heap w p = Some s \<and> sclass s = Tcp_connection)"
  by (cases ob; cases t) auto

definition inert :: "obj \<Rightarrow> tag \<Rightarrow> world \<Rightarrow> bool" where
  "inert ob t w \<longleftrightarrow> t = ERROR \<or> (\<exists>acts. actions_of ob w = Some acts \<and> acts t = [])"

locale executor_contract =
  fixes K :: kernel and U :: user_program and X :: executor
  assumes exec_law: "sound K U w \<Longrightarrow> legit U ob t a w \<Longrightarrow>
    ends K U (doomed ob t w) w (X ob t a w)
      (\<lambda>_ w'. (inert ob t w \<longrightarrow> echoes w w') \<and> (\<forall>p \<in> doomed ob t w. heap w' p = None))"
    and empty_law: "applicable ob t a w \<Longrightarrow> actions_of ob w = Some acts \<Longrightarrow> acts t = [] \<Longrightarrow>
      X ob t a w = Inr ((), w) \<or> X ob t a w = Inl OutOfFuel"
    and cost_law: "frugal U \<Longrightarrow> disciplined U \<Longrightarrow> spends (if t = READABLE then 2 else 0) (X ob t a)"
begin

lemma exec_free:
  assumes "sound K U w" and "legit U ob t a w" and "doomed ob t w = {}"
  shows "ends K U {} w (X ob t a w) (\<lambda>_ w'. inert ob t w \<longrightarrow> echoes w w')"
  using exec_law [OF assms(1,2)] by (simp add: assms(3))

lemma error_law:
  assumes "sound K U w" and "legit U ob ERROR (A_error f e) w"
  shows "ends K U {} w (X ob ERROR (A_error f e) w) (\<lambda>_ w'. echoes w w')"
proof -
  have "doomed ob ERROR w = {}" by (cases ob) simp_all
  then show ?thesis
    using exec_free [OF assms] by (simp add: inert_def)
qed

lemma legit_error: "heap w p = Some s \<Longrightarrow> legit U (Socket_obj p) ERROR (A_error f e) w"
  "legit U (Server_obj i) ERROR (A_error f e) w" "legit U (Client_obj i) ERROR (A_error f e) w"
  by (cases "sclass s"; simp add: action_list_defs)+

text \<open>An error path: the \<open>ERROR\<close> action runs on an object and at most prints.\<close>

lemma error_then:
  assumes "sound K U w" and "steps D w0 w" and "legit U ob ERROR (A_error f e) w"
    and "\<And>w'. sound K U w' \<Longrightarrow> steps D w0 w' \<Longrightarrow> heap w' = heap w \<Longrightarrow> ends K U D w0 (k () w') Q"
  shows "ends K U D w0 (andThen (X ob ERROR (A_error f e)) k w) Q"
  by (rule ends_call, rule assms(2), rule error_law [OF assms(1,3)]) (simp add: assms(4) echoes_heap)

lemma error_return:
  assumes "sound K U w" and "steps D w0 w" and "legit U ob ERROR (A_error f (errno w)) w"
    and "\<And>w'. heap w' = heap w \<Longrightarrow> Q b w'"
  shows "ends K U D w0 (andThen (reads errno) (\<lambda>e. andThen (X ob ERROR (A_error f e)) (\<lambda>_. ret b)) w) Q"
  by (rule ends_reads, rule error_then [OF assms(1,2,3)], rule ends_ret, assumption, assumption, rule assms(4))

section \<open>Sockets\<close>

lemma close_safe:
  assumes I: "sound K U w" and s: "heap w p = Some s"
  shows "ends K U {} w (sock_close K X p w) (\<lambda>_ w'. (sactions s CLOSED = [] \<longrightarrow>
      heap w' = (heap w)(p \<mapsto> s\<lparr>sock_fd := if 0 \<le> sock_fd s then -1 else sock_fd s\<rparr>)) \<and>
    (sclass s = Tcp_connection \<and> 0 \<le> sock_fd s \<longrightarrow> heap w' p = None))"
proof (cases "0 \<le> sock_fd s")
  case False
  then show ?thesis using I s by (simp add: sock_close_closed fun_upd_idem)
next
  case True
  obtain h' w1 where c: "sock_close K X p w = X (Socket_obj p) CLOSED A_none w1"
      "w1 = (after K (Sys_close (sock_fd s)) (set_handler (shandler s) h' w))
        \<lparr>heap := (heap w)(p \<mapsto> s\<lparr>sock_fd := -1\<rparr>)\<rparr>"
      "handler_wf h'" "registry h' = (registry (handlers w (shandler s)))(sock_fd s := None)"
      "delete_socket (sock_fd s) (handlers w (shandler s)) = Some h'"
    using sock_close_law [OF s soundD(2) [OF I] True] by metis
  have I1: "sound K U w1" "steps {q. q = p \<and> sclass s = Tcp_connection} w w1"
    using inv_close [OF I s True c(5,3,4,2)] by simp_all
  have heap1: "heap w1 p = Some (s\<lparr>sock_fd := -1\<rparr>)" "heap w1 = (heap w)(p \<mapsto> s\<lparr>sock_fd := -1\<rparr>)"
    using c(2) by simp_all
  have "legit U (Socket_obj p) CLOSED A_none w1"
    using heap1 by (cases "sclass s") (simp_all add: action_list_defs)
  moreover have E: "doomed (Socket_obj p) CLOSED w1 = {q. q = p \<and> sclass s = Tcp_connection}"
    using heap1 by auto
  ultimately have legit: "legit U (Socket_obj p) CLOSED A_none w1" by blast
  have harm: "\<not> next_ptr w \<le> p"
    using soundD(7) [OF I s] by simp
  note x = exec_law [OF I1(1) legit]
  have "ends K U (doomed (Socket_obj p) CLOSED w1) w (X (Socket_obj p) CLOSED A_none w1)
      (\<lambda>_ w'. (inert (Socket_obj p) CLOSED w1 \<longrightarrow> echoes w1 w') \<and> (\<forall>q \<in> doomed (Socket_obj p) CLOSED w1. heap w' q = None))"
    by (rule ends_from_same [OF _ _ x]) (use I1(2) E heap1 in \<open>simp_all add: harmless_def\<close>)
  then have "ends K U {} w (X (Socket_obj p) CLOSED A_none w1)
      (\<lambda>_ w'. (inert (Socket_obj p) CLOSED w1 \<longrightarrow> echoes w1 w') \<and> (\<forall>q \<in> doomed (Socket_obj p) CLOSED w1. heap w' q = None))"
    by (rule ends_drop) (use s E True harm in \<open>auto simp: persistent_def harmless_def fresh_objects_def\<close>)
  then show ?thesis
    unfolding c(1) using heap1 True by (elim ends_weaken) (auto simp: inert_def dest: echoes_heap)
qed

lemma bind_safe:
  assumes I: "sound K U w" and s: "heap w p = Some s"
    and phase: "0 \<le> sock_fd s \<Longrightarrow> idle (phases (trace w)) (sock_fd s) \<and> allows s Bound"
  shows "ends K U {} w (sock_bind K X p w) (\<lambda>ok w'. heap w' = heap w \<and>
    (ok \<longrightarrow> 0 \<le> sock_fd s \<longrightarrow> phases (trace w') (sock_fd s) = Some Bound))"
proof -
  let ?c = "Sys_bind (sock_fd s) (address s) (sa_size (address s))"
  have I1: "sound K U (after K ?c w) \<and> steps {} w (after K ?c w)"
    by (rule inv_phase [OF I s]) (use phase fd_fits [OF I s] in \<open>auto simp: fits_def idle_def\<close>)
  have err: "ends K U {} w (andThen (reads errno) (\<lambda>e. andThen (X (Socket_obj p) ERROR (A_error ''bind'' e)) (\<lambda>_. ret False))
      (after K ?c w)) (\<lambda>ok w'. heap w' = heap w \<and>
      (ok \<longrightarrow> 0 \<le> sock_fd s \<longrightarrow> phases (trace w') (sock_fd s) = Some Bound))"
    by (rule error_return [OF _ _ legit_error(1)]) (use I1 s in auto)
  have "sock_bind K X p w = (if ret_value (reply K ?c w) < 0
      then andThen (reads errno) (\<lambda>e. andThen (X (Socket_obj p) ERROR (A_error ''bind'' e)) (\<lambda>_. ret False)) (after K ?c w)
      else Inr (True, after K ?c w))"
    using s by (simp add: sock_bind_def get_sock_apply andThen_apply sys_apply ret_apply)
  then show ?thesis
    using err I1 phase by (auto simp: idle_def)
qed

lemma open_safe:
  assumes I: "sound K U w" and s: "heap w p = Some s" "sclass s \<noteq> Tcp_connection" "sock_fd s < 0"
  shows "ends K U {} w (sock_open K X p d ty pr w) (\<lambda>ok w'. \<exists>s'. heap w' = (heap w)(p \<mapsto> s') \<and>
    sclass s' = sclass s \<and> sactions s' = sactions s \<and> (\<not> ok \<longrightarrow> sock_fd s' < 0))"
proof -
  let ?c = "Sys_socket d ty pr"
  let ?fd = "ret_value (reply K ?c w)" and ?w = "after K ?c w"
  have I1: "sound_but (if ?fd < 0 then {} else {?fd}) K U ?w" "steps {} w ?w"
    using inv_opening [OF I, of ?c] by simp_all
  have s1: "heap ?w p = Some s" using s by simp
  show ?thesis
  proof (cases "?fd < 0")
    case True
    let ?w2 = "?w\<lparr>heap := (heap w)(p \<mapsto> s\<lparr>sock_fd := -1\<rparr>)\<rparr>"
    have "sound K U ?w" using I1(1) True by simp
    then have I2: "sound K U ?w2" "steps {} w ?w2"
      using inv_put [OF _ s1, where s' = "s\<lparr>sock_fd := -1\<rparr>"] s I1(2) steps_trans by (auto simp: same_role_def)
    have "sock_open K X p d ty pr w =
        andThen (reads errno) (\<lambda>e. andThen (X (Socket_obj p) ERROR (A_error ''socket'' e)) (\<lambda>_. ret False)) ?w2"
      using s True by (simp add: sock_open_def base_open_def prog_simps)
    then show ?thesis
      using I2 by (auto intro!: error_return legit_error exI [of _ "s\<lparr>sock_fd := -1\<rparr>"])
  next
    case False
    let ?w2 = "set_handler (shandler s) (add_socket ?fd p (handlers w (shandler s)))
          (?w\<lparr>heap := (heap w)(p \<mapsto> s\<lparr>sock_fd := ?fd\<rparr>)\<rparr>)"
    have "sound_but {?fd} K U ?w" using I1(1) False by simp
    then have "sound K U ?w2" "steps {} ?w ?w2"
      using inv_open [OF _ s1 s(2,3) fresh_after_open(1) [OF I], where w' = ?w2] fresh_after_open(2) [OF I, of ?c] False by simp_all
    moreover from this have "steps {} w ?w2"
      using I1(2) steps_trans by blast
    moreover have "sock_open K X p d ty pr w = Inr (True, ?w2)"
      using s False by (simp add: sock_open_def base_open_def prog_simps handler_add_socket_def)
    ultimately show ?thesis
      by (auto intro!: exI [of _ "s\<lparr>sock_fd := ?fd\<rparr>"])
  qed
qed

lemma want_safe:
  assumes I: "sound K U w" and s: "heap w p = Some s"
  shows "ends K U {} w (set_want_read p b w) (\<lambda>_ _. True)" "ends K U {} w (set_want_write p b w) (\<lambda>_ _. True)"
  using inv_want_read [OF I] inv_want_write [OF I] s
  by (simp_all add: set_want_read_def set_want_write_def handler_want_read_def handler_want_write_def prog_simps)

section \<open>Connections\<close>

lemma connection_connect_safe:
  assumes I: "sound K U w" and s: "heap w p = Some s" "sactions s READABLE = []" "sclass s = Tcp_connection"
  shows "idle (phases (trace w)) (sock_fd s) \<Longrightarrow> ends K U {} w (connection_connect K p w) (\<lambda>ok w'. heap w' = heap w \<and>
      (ok \<longrightarrow> phases (trace w') (sock_fd s) = Some Connected))"
    "phases (trace w) (sock_fd s) = Some Bound \<Longrightarrow> ends K U {} w (connection_listen K p w) (\<lambda>ok w'. heap w' = heap w \<and>
      (ok \<longrightarrow> phases (trace w') (sock_fd s) = Some Listening))"
proof -
  let ?c = "Sys_connect (sock_fd s) (address s) (sa_size (address s))" and ?l = "Sys_listen (sock_fd s) 10"
  have fit: "fits m s" if "m (sock_fd s) \<noteq> None" for m
    using that s(2,3) by (auto simp: fits_def allows_def)
  {
    assume phase: "idle (phases (trace w)) (sock_fd s)"
    have "sound K U (after K ?c w) \<and> steps {} w (after K ?c w)"
      by (rule inv_phase [OF I s(1)]) (use phase in \<open>auto simp: idle_def intro!: fit\<close>)
    then show "ends K U {} w (connection_connect K p w) (\<lambda>ok w'. heap w' = heap w \<and>
      (ok \<longrightarrow> phases (trace w') (sock_fd s) = Some Connected))"
      using s(1) phase by (auto simp: connection_connect_def prog_simps idle_def)
  next
    assume phase: "phases (trace w) (sock_fd s) = Some Bound"
    have "sound K U (after K ?l w) \<and> steps {} w (after K ?l w)"
      by (rule inv_phase [OF I s(1)]) (use phase in \<open>auto intro!: fit\<close>)
    then show "ends K U {} w (connection_listen K p w) (\<lambda>ok w'. heap w' = heap w \<and>
      (ok \<longrightarrow> phases (trace w') (sock_fd s) = Some Listening))"
      using s(1) phase by (auto simp: connection_listen_def prog_simps)
  }
qed

lemma want_write_safe:
  assumes "sound K U w" and "steps D w0 w" and "heap w p = Some s"
    and "same_role s' s"
  shows "sound K U (set_handler h (impl_socket_want_write fd b (handlers w h)) (w\<lparr>heap := (heap w)(p \<mapsto> s')\<rparr>)) \<and>
    steps D w0 (set_handler h (impl_socket_want_write fd b (handlers w h)) (w\<lparr>heap := (heap w)(p \<mapsto> s')\<rparr>))"
proof -
  let ?w = "w\<lparr>heap := (heap w)(p \<mapsto> s')\<rparr>"
  have "sound K U ?w" "steps {} w ?w"
    using inv_put [OF assms(1,3,4)] by simp_all
  then have "sound K U (set_handler h (impl_socket_want_write fd b (handlers w h)) ?w)"
      "steps {} ?w (set_handler h (impl_socket_want_write fd b (handlers w h)) ?w)" "steps D w0 ?w"
    using inv_want_write [of K U ?w h fd b] assms(2) steps_trans steps_mono [of "{}" w ?w D] by auto
  then show ?thesis
    using steps_trans steps_mono [OF _ empty_subsetI] by blast
qed

lemma send_safe:
  assumes I: "sound K U w" and s: "heap w p = Some s"
  shows "ends K U {} w (connection_send K X p msg w) (\<lambda>_ w'. scope_of w \<subseteq>\<^sub>m scope_of w')"
proof -
  let ?w = "after K (Sys_send (sock_fd s) msg 0) w"
  have I1: "sound K U ?w" "steps {} w ?w"
    using inv_call [OF I, of "Sys_send (sock_fd s) msg 0"] own_opened [OF I s] by simp_all
  show ?thesis
    unfolding connection_send_apply [OF s] Let_def
    using I1 s want_write_safe [OF I1, of p s "s\<lparr>send_buffer := send_buffer s @
        [drop (nat (send_result K s msg w)) msg]\<rparr>" "shandler s" "sock_fd s" True]
    by (auto intro!: error_then legit_error ends_ret simp: same_role_def scope_of_def map_le_def)
qed

lemma send_flush_safe:
  assumes I: "sound K U w" and s: "heap w p = Some s"
  shows "ends K U {} w (connection_send_flush K X p w) (\<lambda>_ _. True)"
proof (cases "send_buffer s")
  case Nil
  then show ?thesis using I s by (simp add: connection_send_flush_def prog_simps)
next
  case (Cons front rest)
  let ?w = "after K (Sys_send (sock_fd s) front 0) w"
  have I1: "sound K U ?w" "steps {} w ?w"
    using inv_call [OF I, of "Sys_send (sock_fd s) front 0"] own_opened [OF I s] by simp_all
  have "heap ?w p = Some s" using s by simp
  then have "ends K U {} w (X (Socket_obj p) ERROR (A_error ''send'' e) ?w) (\<lambda>_ w'. echoes ?w w')" for e
    by (intro ends_from [OF I1(2)] error_law [OF I1(1)] legit_error(1))
  then have "ends K U {} w (X (Socket_obj p) ERROR (A_error ''send'' e) ?w) (\<lambda>_ _. True)" for e
    by (rule ends_weaken) simp
  then show ?thesis
    unfolding connection_send_flush_apply [OF s Cons] Let_def
    using I1 s want_write_safe [OF I1, of p s "s\<lparr>send_buffer := rest\<rparr>" "shandler s" "sock_fd s" False]
    by (simp add: same_role_def)
qed

lemma recv_safe:
  assumes I: "sound K U w" and s: "heap w p = Some s" "sclass s = Tcp_connection"
    and phase: "phases (trace w) (sock_fd s) = Some Connected"
  shows "ends K U {} w (connection_recv K X p w) (\<lambda>_ _. True)"
  unfolding connection_recv_def Let_def
proof (rule ends_get_sock [OF s(1)], rule ends_sys [OF I steps_refl])
  let ?c = "Sys_recv (sock_fd s) RECV_BUFFER_SIZE 0"
  let ?w = "after K ?c w"
  assume I1: "sound K U ?w" "steps {} w ?w"
  have legit: "legit U (Socket_obj p) RECV (A_bytes b) ?w" for b
    using s by (simp add: action_list_defs)
  have "ends K U {} w (andThen (X (Socket_obj p) RECV (A_bytes b)) (\<lambda>_. ret n) ?w) (\<lambda>_ _. True)" for b and n :: int
    by (rule ends_call, rule I1(2), rule exec_free [OF I1(1) legit]) (auto intro: ends_ret)
  moreover have "ends K U {} w (andThen (sock_close K X p) (\<lambda>_. ret n) ?w) (\<lambda>_ _. True)" for n :: int
    by (rule ends_call, rule I1(2), rule close_safe [OF I1(1)]) (use s in \<open>auto intro: ends_ret\<close>)
  moreover have "ends K U {} w (andThen (reads errno) (\<lambda>e. andThen (X (Socket_obj p) ERROR (A_error f e)) (\<lambda>_. ret n)) ?w)
      (\<lambda>_ _. True)" for f and n :: int
    by (rule error_return [OF I1 legit_error(1)]) (use s in auto)
  ultimately show "ends K U {} w ((if to_int32 (ret_value (reply K ?c w)) < 0
       then andThen (reads errno) (\<lambda>e. andThen (X (Socket_obj p) ERROR (A_error ''recv'' e))
         (\<lambda>_. ret (to_int32 (ret_value (reply K ?c w)))))
       else if to_int32 (ret_value (reply K ?c w)) = 0
         then andThen (sock_close K X p) (\<lambda>_. ret (to_int32 (ret_value (reply K ?c w))))
         else andThen (X (Socket_obj p) RECV (A_bytes (take (nat (to_int32 (ret_value (reply K ?c w))))
           (filled_buffer (ret_data (reply K ?c w)))))) (\<lambda>_. ret (to_int32 (ret_value (reply K ?c w))))) ?w) (\<lambda>_ _. True)"
    by simp
qed (simp_all add: phase)

end

lemma with_heap: "w\<lparr>heap := heap w\<rparr> = w"
  by simp

lemma stored_sock_simps [simp]:
  "sclass (stored_sock c h k) = Tcp_connection" "sock_fd (stored_sock c h k) = k"
  "shandler (stored_sock c h k) = h" "address (stored_sock c h k) = new_address"
  "sactions (stored_sock c h k) = (\<lambda>_. [])(CLOSED := [erase_callback c k])"
  by (simp_all add: stored_sock_def new_sock_def)

lemma home_stored [simp]: "home (stored_sock c h k) = Some (c, k)"
  by (simp add: home_def)

lemma tcp_shape_stored: "tcp_shape p (stored_sock c h k)"
proof -
  have "[erase_callback c k] = [] @ [erase_callback c k]" by simp
  then have "\<exists>pre c' k'. sactions (stored_sock c h k) CLOSED = pre @ [erase_callback c' k'] \<and>
      (\<forall>cb \<in> set pre. flags cb = 0 \<and> closing_hook p (exec cb))"
    by (metis (no_types) empty_iff fun_upd_same list.set(1) stored_sock_simps(5))
  then show ?thesis by (simp add: tcp_shape_def)
qed

lemma reshape_closed:
  assumes "sclass s = Tcp_connection" and "sactions s CLOSED = [erase_callback c k]" and "tcp_shape p s"
    and "closing_hook p cb"
  shows "same_place p (s\<lparr>sactions := (sactions s)(CLOSED := add_callback cb (flag_value DEFAULT) (sactions s CLOSED))\<rparr>) s"
proof -
  have "\<exists>pre c' k'. [\<lparr>exec = cb, flags = 0\<rparr>, erase_callback c k] = pre @ [erase_callback c' k'] \<and>
      (\<forall>cb \<in> set pre. flags cb = 0 \<and> closing_hook p (exec cb))"
    using assms(4) by (intro exI [of _ "[\<lparr>exec = cb, flags = 0\<rparr>]"] exI [of _ c] exI [of _ k]) simp
  then show ?thesis
    using assms by (simp add: same_place_def sock_shape_def tcp_shape_def home_def flag_value.simps)
qed

lemma reshape_other:
  assumes "sclass s = Tcp_connection" and "t \<noteq> CLOSED" and "sactions s t = []" and "tcp_shape p s"
    and "tcp_callback p t cb"
  shows "same_place p (s\<lparr>sactions := (sactions s)(t := add_callback cb fl (sactions s t))\<rparr>) s"
  using assms by (simp add: same_place_def sock_shape_def tcp_shape_def home_def)

lemma ends_on:
  assumes I: "sound K U w" and st: "steps D w0 w" and p: "next_ptr w0 \<le> p" "heap w p = Some s" "sclass s = Tcp_connection"
    and t: "t \<in> {READABLE, WRITEABLE, CLOSED, ERROR, RECV}"
    and place: "same_place p (s\<lparr>sactions := (sactions s)(t := add_callback cb fl (sactions s t))\<rparr>) s"
    and fit: "0 \<le> sock_fd s \<Longrightarrow> t = READABLE \<Longrightarrow>
      fits (phases (trace w)) (s\<lparr>sactions := (sactions s)(t := add_callback cb fl (sactions s t))\<rparr>)"
    and k: "\<And>w'. sound K U w' \<Longrightarrow> steps D w0 w' \<Longrightarrow> trace w' = trace w \<Longrightarrow>
      heap w' p = Some (s\<lparr>sactions := (sactions s)(t := add_callback cb fl (sactions s t))\<rparr>) \<Longrightarrow>
      ends K U D w0 (k () w') Q"
  shows "ends K U D w0 (andThen (on (Socket_obj p) t cb fl) k w) Q"
proof -
  have "on (Socket_obj p) t cb fl w = Inr ((), w\<lparr>heap := (heap w)(p \<mapsto>
     s\<lparr>sactions := (sactions s)(t := add_callback cb fl (sactions s t))\<rparr>)\<rparr>)"
    by (rule on_tcp_apply [OF p(2,3) t])
  moreover have "fits (phases (trace w)) (s\<lparr>sactions := (sactions s)(t := add_callback cb fl (sactions s t))\<rparr>)"
    if "0 \<le> sock_fd (s\<lparr>sactions := (sactions s)(t := add_callback cb fl (sactions s t))\<rparr>)"
    using that fit fd_fits [OF I p(2)] fits_role [of "s\<lparr>sactions := (sactions s)(t := add_callback cb fl (sactions s t))\<rparr>" s]
    by (cases "t = READABLE") simp_all
  ultimately show ?thesis
    using inv_reshape [OF I p(2) place _ p(1) st] k by (simp add: andThen_apply)
qed

context executor_contract begin

lemma container_close_safe: "sound K U w \<Longrightarrow> ends K U {} w (container_close K X fuel c w) (\<lambda>_ _. True)"
proof (induction fuel arbitrary: w)
  case 0
  then show ?case by (simp add: prog_simps split: option.split)
next
  case (Suc fuel)
  show ?case
  proof (cases "map_begin (c_sockets (get_container c w))")
    case None
    then show ?thesis using Suc.prems by (simp add: prog_simps)
  next
    case (Some e)
    obtain k p where e: "e = (k, p)" by (cases e)
    have "stored w c k p"
      using Some std_map.begin_Some [OF soundD(10) [OF Suc.prems]] by (simp add: e stored_def)
    then obtain s where s: "heap w p = Some s"
      using stored_connection [OF Suc.prems] by blast
    have "ends K U {} w (andThen (sock_close K X p) (\<lambda>_. container_close K X fuel c) w) (\<lambda>_ _. True)"
      by (rule ends_then, rule close_safe [OF Suc.prems s]) (auto intro: ends_from Suc.IH)
    then show ?thesis using Some by (simp add: e ends_reads andThen_apply [of "reads f" for f] reads_apply)
  qed
qed

text \<open>A descriptor that was just opened is the key of no entry, unless a connection is being closed.\<close>

lemma taken_closing:
  assumes I: "sound K U w" and c: "opens_descriptor d" "0 \<le> ret_value (reply K d w)"
    and taken: "map_find (c_sockets (get_container c w)) (ret_value (reply K d w)) \<noteq> None"
  shows "\<not> at_rest w"
proof -
  obtain p where "stored w c (ret_value (reply K d w)) p"
    using taken by (auto simp: stored_def)
  then obtain s where s: "heap w p = Some s" "sclass s = Tcp_connection" "home s = Some (c, ret_value (reply K d w))"
    by (rule stored_connection [OF I])
  have "ret_value (reply K d w) \<notin> open_fds (trace w)"
    using I c(1) by (simp add: sound_but_def env_ok_def fresh_descriptors_def reply_def)
  then have "sock_fd s < 0"
    using in_place [OF I s] soundD(5) [OF I s(1)] by fastforce
  then show ?thesis
    using s by (auto simp: at_rest_def closing_def)
qed

lemma make_socket_safe:
  assumes I: "sound K U w" and calm: "calm U w"
  shows "ends K U {} w (make_socket K c d ty pr w) (\<lambda>made w'. \<forall>p. made = Some p \<longrightarrow>
    p = next_ptr w \<and> (\<exists>h k. heap w' p = Some (stored_sock c h k) \<and> 0 \<le> k \<and> phases (trace w') k = Some Unbound))"
proof -
  let ?c = "Sys_socket d ty pr" and ?h = "c_handler (get_container c w)"
  let ?fd = "ret_value (reply K ?c w)" and ?w = "after K ?c w"
  have I1: "sound_but (if ?fd < 0 then {} else {?fd}) K U ?w" "steps {} w ?w"
    using inv_opening [OF I, of ?c] by simp_all
  have opened: "base_open K d ty pr (new_sock Tcp_connection ?h (- 1)) w =
      Inr (if ?fd < 0 then (False, new_sock Tcp_connection ?h (- 1)) else (True, new_sock Tcp_connection ?h ?fd), ?w)"
    by (simp add: base_open_def prog_simps new_sock_def)
  consider (refused) "?fd < 0" | (taken) "0 \<le> ?fd" "map_find (c_sockets (get_container c w)) ?fd \<noteq> None"
    | (free) "0 \<le> ?fd" "map_find (c_sockets (get_container c w)) ?fd = None"
    by linarith
  then show ?thesis
  proof cases
    case refused
    then show ?thesis
      using I1 by (simp add: make_socket_def prog_simps opened)
  next
    case taken
    then have "insert_socket c (new_sock Tcp_connection ?h ?fd) ?w = Inr (None, ?w)"
      using insert_socket_taken [of c ?w "new_sock Tcp_connection ?h ?fd"] soundD(10) [OF I, of c]
      by (simp add: new_sock_def)
    moreover have "\<not> timid U"
      using taken_closing [OF I, of ?c] taken calm by (auto simp: calm_def)
    ultimately show ?thesis
      using taken I1 bold_sound by (auto simp: make_socket_def prog_simps opened)
  next
    case free
    have I2: "sound_but {?fd} K U ?w" using I1(1) free by simp
    have "sound K U (with_socket c ?fd ?w) \<and> steps {} ?w (with_socket c ?fd ?w)"
      using free tcp_shape_stored fresh_after_open(2) [OF I, of ?c]
      by (intro inv_store [OF I2 fresh_after_open(1) [OF I], where s = "stored_sock c ?h ?fd" and c = c])
        (simp_all add: fits_def allows_def)
    then show ?thesis
      using fresh_after_open(2) [OF I, of ?c] free(1) make_socket_free [OF refl free(1) soundD(10) [OF I] free(2)] steps_trans [OF I1(2)]
      by auto
  qed
qed

end

text \<open>Resolution into the address of a socket, and the port of a resolved address.\<close>

lemma address_role: "same_role (s\<lparr>address := a\<rparr>) s"
  by (simp add: same_role_def)

lemma ends_resolve:
  assumes "sound K U w" and "steps D w0 w" and "heap w p = Some s"
    and "\<And>r a w'. sound K U w' \<Longrightarrow> steps D w0 w' \<Longrightarrow> heap w' p = Some (s\<lparr>address := a\<rparr>) \<Longrightarrow>
      phases (trace w') = phases (trace w) \<Longrightarrow> (r = AI_SUCCESS \<longrightarrow> sa_family a = fam) \<Longrightarrow> ends K U D w0 (k r a w') Q"
  shows "ends K U D w0 (andThen (get_sock p) (\<lambda>s. andThen (addrinfo (world_resolver K) (address s) host fam)
    (\<lambda>(r, a). andThen (put_sock p (\<lambda>s. s\<lparr>address := a\<rparr>)) (\<lambda>_. k r a))) w) Q"
proof (rule ends_get_sock [OF assms(3)], rule ends_call, rule assms(2), rule ends_addrinfo [OF assms(1)], goal_cases)
  case (1 ra w1)
  obtain r a where ra: "ra = (r, a)" by (cases ra)
  have s: "heap w1 p = Some s" and ph: "phases (trace w1) = phases (trace w)" and fam: "r = AI_SUCCESS \<longrightarrow> sa_family a = fam"
    using 1(3) assms(3) by (simp_all add: ra)
  show ?case
    unfolding ra prod.case
  proof (rule ends_put, rule 1(1), rule 1(2), rule s, rule address_role, goal_cases)
    case (1 w2)
    show ?case by (rule assms(4) [OF 1(1,2) _ _ fam]) (simp_all add: 1(3) ph)
  qed
qed

lemma ends_port:
  assumes "sound K U w" and "steps D w0 w" and "heap w p = Some s" and "sa_family a = inet_family six"
    and "\<And>a' w'. sound K U w' \<Longrightarrow> steps D w0 w' \<Longrightarrow> heap w' p = Some (s\<lparr>address := a'\<rparr>) \<Longrightarrow>
      trace w' = trace w \<Longrightarrow> ends K U D w0 (k w') Q"
  shows "ends K U D w0 (andThen (lift_fault (set_port (inet_sockaddr six) port a)) (\<lambda>a'.
    andThen (put_sock p (\<lambda>s. s\<lparr>address := a'\<rparr>)) (\<lambda>_. k)) w) Q"
proof -
  obtain b where b: "set_port (inet_sockaddr six) port a = Inr b"
    using set_port_family [OF assms(4)] by blast
  have "ends K U D w0 (andThen (put_sock p (\<lambda>s. s\<lparr>address := b\<rparr>)) (\<lambda>_. k) w) Q"
  proof (rule ends_put, rule assms(1), rule assms(2), rule assms(3), rule address_role, goal_cases)
    case (1 w2)
    show ?case by (rule assms(5) [OF 1(1,2)]) (simp_all add: 1(3))
  qed
  then show ?thesis
    by (simp add: b lift_fault_def)
qed

lemma place_address: "same_place p s' s \<Longrightarrow> sclass s = Tcp_connection \<Longrightarrow> tcp_shape p (s'\<lparr>address := a\<rparr>)"
  by (auto simp: same_place_def sock_shape_def tcp_shape_def)

lemma ends_if:
  "(b \<Longrightarrow> ends K U D w0 (m w) Q) \<Longrightarrow> (\<not> b \<Longrightarrow> ends K U D w0 (m' w) Q) \<Longrightarrow>
   ends K U D w0 ((if b then m else m') w) Q"
  by simp

context executor_contract begin

text \<open>The failures of \<^verbatim>\<open>listen\<close> and \<^verbatim>\<open>connect\<close> after the socket was made.\<close>

lemma close_any_safe: "sound K U w \<Longrightarrow> heap w p = Some s \<Longrightarrow> ends K U {} w (sock_close K X p w) (\<lambda>_ _. True)"
  by (rule ends_weaken, rule close_safe) simp_all

lemma close_then_return:
  assumes "sound K U w" and "steps D w0 w" and "heap w p = Some s"
  shows "ends K U D w0 (andThen (sock_close K X p) (\<lambda>_. ret b) w) (\<lambda>_ _. True)"
  by (rule ends_call, rule assms(2), rule close_any_safe [OF assms(1,3)]) (simp add: ends_ret)

lemma listen_failure_safe:
  assumes I: "sound K U w" and st: "steps D w0 w" and s: "heap w p = Some s"
  shows "ends K U D w0 (listen_failure K X i p f w) (\<lambda>_ _. True)"
  unfolding listen_failure_def
proof (rule ends_reads, rule error_then [OF I st legit_error(2)], goal_cases)
  case (1 w')
  show ?case by (rule close_then_return [OF 1(1,2)]) (simp add: 1(3) s)
qed

text \<open>
  The beginning \<^verbatim>\<open>listen\<close> and \<^verbatim>\<open>connect\<close> share: the hook on \<open>CLOSED\<close> of the new connection, the resolution of
  the host and the port.
\<close>

abbreviation hooked :: "container_ref \<Rightarrow> callback \<Rightarrow> hid \<Rightarrow> int \<Rightarrow> saddr \<Rightarrow> sock" where
  "hooked c cb h k a \<equiv> (stored_sock c h k)\<lparr>sactions := (sactions (stored_sock c h k))
     (CLOSED := add_callback cb (flag_value DEFAULT) (sactions (stored_sock c h k) CLOSED)), address := a\<rparr>"

lemma hooked_shape: "closing_hook p cb \<Longrightarrow> tcp_shape p (hooked c cb h k a)"
  using reshape_closed [OF stored_sock_simps(1) _ tcp_shape_stored, of c h k c k p cb]
  by (simp add: same_place_def sock_shape_def tcp_shape_def)

lemma endpoint_safe:
  assumes made: "sound K U w1" "steps {} w w1" and p: "next_ptr w \<le> p" "heap w1 p = Some (stored_sock c h k)"
      "phases (trace w1) k = Some Unbound"
    and hook: "closing_hook p cb"
    and failed: "\<And>w' a. sound K U w' \<Longrightarrow> steps {} w w' \<Longrightarrow> heap w' p = Some (hooked c cb h k a) \<Longrightarrow> ends K U {} w (f w') Q"
    and onward: "\<And>w' a. sound K U w' \<Longrightarrow> steps {} w w' \<Longrightarrow> heap w' p = Some (hooked c cb h k a) \<Longrightarrow>
      phases (trace w') k = Some Unbound \<Longrightarrow> ends K U {} w (m w') Q"
  shows "ends K U {} w (andThen (on (Socket_obj p) CLOSED cb (flag_value DEFAULT)) (\<lambda>_.
    andThen (get_sock p) (\<lambda>s.
    andThen (addrinfo (world_resolver K) (address s) host (inet_family six)) (\<lambda>(result, a).
    andThen (put_sock p (\<lambda>s. s\<lparr>address := a\<rparr>)) (\<lambda>_.
    if result \<noteq> AI_SUCCESS then f
    else
      andThen (lift_fault (set_port (inet_sockaddr six) port a)) (\<lambda>a'.
      andThen (put_sock p (\<lambda>s. s\<lparr>address := a'\<rparr>)) (\<lambda>_. m)))))) w1) Q"
proof -
  have place: "same_place p ((stored_sock c h k)\<lparr>sactions := (sactions (stored_sock c h k))
      (CLOSED := add_callback cb (flag_value DEFAULT) (sactions (stored_sock c h k) CLOSED))\<rparr>) (stored_sock c h k)"
    by (rule reshape_closed [OF _ _ tcp_shape_stored hook]) simp_all
  show ?thesis
  proof (rule ends_on [OF made p(1,2) stored_sock_simps(1) _ place], simp, simp, goal_cases)
    case (1 w2)
    show ?case
    proof (rule ends_resolve [OF 1(1,2,4)], goal_cases)
      case resolved: (1 r a w3)
      show ?case
      proof (rule ends_if, rule failed [OF resolved(1-3)], rule ends_port [OF resolved(1-3)], goal_cases)
        case (2 a4 w4)
        then show ?case
          using resolved(4) 1(3) p(3) by (intro onward [where a = a4]) simp_all
      qed (use resolved(5) in simp)
    qed
  qed
qed

text \<open>The callback on \<open>READABLE\<close>, once the descriptor is in the phase it needs.\<close>

lemma readable_safe:
  assumes st: "sound K U w1" "steps {} w w1" and p: "next_ptr w \<le> p" "heap w1 p = Some (hooked c cb h k a)"
    and hook: "closing_hook p cb" "tcp_callback p READABLE cb'" and phase: "phases (trace w1) k = Some ph" "hook_allows cb' ph"
    and onward: "\<And>w' s. sound K U w' \<Longrightarrow> steps {} w w' \<Longrightarrow> heap w' p = Some s \<Longrightarrow> sclass s = Tcp_connection \<Longrightarrow>
      sactions s RECV = [] \<Longrightarrow> tcp_shape p s \<Longrightarrow> ends K U {} w (m () w') Q"
  shows "ends K U {} w (andThen (on (Socket_obj p) READABLE cb' (flag_value DEFAULT)) m w1) Q"
proof -
  let ?s = "hooked c cb h k a"
  have place: "same_place p (?s\<lparr>sactions := (sactions ?s)(READABLE := add_callback cb' (flag_value DEFAULT) (sactions ?s READABLE))\<rparr>) ?s"
    by (rule reshape_other [OF _ _ _ hooked_shape [OF hook(1)] hook(2)]) simp_all
  show ?thesis
  proof (rule ends_on [OF st p _ _ place], simp, simp, goal_cases)
    case 1
    then show ?case using phase by (simp add: fits_def allows_def)
  next
    case (2 w')
    show ?case
      by (rule onward [OF 2(1,2,4)]) (use place in \<open>simp_all add: same_place_def sock_shape_def\<close>)
  qed
qed

lemma listen_safe:
  assumes I: "sound K U w" and calm: "calm U w"
  shows "ends K U {} w (server_listen K X i host port six w) (\<lambda>_ _. True)"
  unfolding server_listen_def
proof (rule ends_then, rule make_socket_safe [OF I calm], goal_cases)
  case made: (1 made w1)
  show ?case
  proof (cases made)
    case None
    then show ?thesis using made by (auto intro: error_return legit_error)
  next
    case (Some p)
    then obtain h k where p: "next_ptr w \<le> p" "heap w1 p = Some (stored_sock (Listeners i) h k)"
        "phases (trace w1) k = Some Unbound"
      using made by auto
    have hook: "closing_hook p (Server_closed i p)" by (auto simp: closing_hook_def)
    show ?thesis
      unfolding Some option.case
    proof (rule endpoint_safe [OF made(1,2) p hook], rule listen_failure_safe, assumption+, goal_cases)
      case (1 w2 a)
      show ?case
      proof (rule ends_call, rule 1(2), rule bind_safe [OF 1(1,3)], goal_cases)
        case 1
        then show ?case using \<open>phases (trace w2) k = Some Unbound\<close> by (simp add: idle_def allows_def)
      next
        case bound: (2 bound w3)
        have s3: "heap w3 p = Some (hooked (Listeners i) (Server_closed i p) h k a)" using 1(3) bound(3) by simp
        show ?case
        proof (rule ends_if, rule listen_failure_safe [OF bound(1,2) s3], rule ends_call, rule bound(2),
            rule connection_connect_safe(2) [OF bound(1) s3], simp, simp, goal_cases)
          case 1
          then show ?case using bound(3) phases_nonneg [OF \<open>phases (trace w2) k = Some Unbound\<close>] by simp
        next
          case listening: (2 ok w4)
          have s4: "heap w4 p = Some (hooked (Listeners i) (Server_closed i p) h k a)" using s3 listening(4) by simp
          show ?case
          proof (rule ends_if, rule listen_failure_safe [OF listening(2,3) s4],
              rule readable_safe [OF listening(2,3) p(1) s4 hook, where ph = Listening], simp, goal_cases)
            case 1
            then show ?case using listening(4) by simp
          next
            case 2
            show ?case by simp
          next
            case (3 w5 s5)
            then have "legit U (Server_obj i) LISTEN (A_connection p) w5"
              by (simp add: action_list_defs connection_live_def)
            then show ?case
              by - (rule ends_call, rule 3(3), rule exec_free [OF 3(2)], simp_all add: ends_ret)
          qed
        qed
      qed
    qed
  qed
qed

end

text \<open>The connections that \<^verbatim>\<open>accept\<close> stores.\<close>

lemma accepted_sock_shape:
  "tcp_shape p (accepted_sock i p h k addr)" "home (accepted_sock i p h k addr) = Some (Clients i, k)"
proof -
  have "\<exists>pre c' k'. [\<lparr>exec = Server_disconnect i p, flags = 0\<rparr>, erase_callback (Clients i) k] = pre @ [erase_callback c' k'] \<and>
      (\<forall>cb \<in> set pre. flags cb = 0 \<and> closing_hook p (exec cb))"
    by (intro exI [of _ "[\<lparr>exec = Server_disconnect i p, flags = 0\<rparr>]"] exI [of _ "Clients i"] exI [of _ k])
      (simp add: closing_hook_def)
  then show "tcp_shape p (accepted_sock i p h k addr)"
    by (simp add: tcp_shape_def accepted_sock_def)
  show "home (accepted_sock i p h k addr) = Some (Clients i, k)"
    by (simp add: home_def accepted_sock_def)
qed

context executor_contract begin

lemma accept_safe:
  assumes I: "sound K U w" and calm: "calm U w" and s: "heap w q = Some ls" and phase: "phases (trace w) (sock_fd ls) = Some Listening"
  shows "ends K U {} w (server_accept K X i q w) (\<lambda>_ _. True)"
proof -
  let ?c = "Sys_accept (sock_fd ls) ADDRESS_STORAGE_SIZE"
  let ?fd = "ret_value (reply K ?c w)" and ?w = "after K ?c w" and ?cs = "c_sockets (get_container (Clients i) w)"
  have I1: "sound_but (if ?fd < 0 then {} else {?fd}) K U ?w" "steps {} w ?w"
    using inv_opening [OF I, of ?c] phase by simp_all
  have err: "ends K U {} w (X (Server_obj i) ERROR (A_error f e) ?w) (\<lambda>_ _. True)" if "sound K U ?w" for f e
    by (rule ends_weaken, rule ends_from [OF I1(2) error_law [OF that legit_error(2)]]) simp
  have "0 \<le> sock_fd ls" by (rule phases_nonneg [OF phase])
  then consider (refused) "0 \<le> sock_fd ls" "?fd < 0" | (zero) "0 \<le> sock_fd ls" "?fd = 0"
    | (taken) "0 \<le> sock_fd ls" "0 < ?fd" "map_find ?cs ?fd \<noteq> None" | (free) "0 \<le> sock_fd ls" "0 < ?fd" "map_find ?cs ?fd = None"
    by linarith
  then show ?thesis
  proof cases
    case refused
    then show ?thesis using s err I1(1) by (simp add: server_accept_def get_socket_def prog_simps)
  next
    case zero
    then have "\<not> positive_descriptors K"
      by (auto simp: positive_descriptors_def reply_def intro!: exI [of _ "trace w"] exI [of _ ?c])
    then show ?thesis
      using s zero by (simp add: server_accept_def get_socket_def prog_simps make_socket_fd_def steadfast_def)
  next
    case taken
    then have "insert_socket (Clients i) (new_sock Tcp_connection (c_handler (get_container (Clients i) w)) ?fd) ?w = Inr (None, ?w)"
      using insert_socket_taken [of "Clients i" ?w "new_sock Tcp_connection (c_handler (get_container (Clients i) w)) ?fd"]
        soundD(10) [OF I, of "Clients i"] by (simp add: new_sock_def)
    then have "server_accept K X i q w = X (Server_obj i) ERROR (A_error ''insert'' 0) ?w"
      using s taken(1,2) by (simp add: server_accept_def get_socket_def andThen_apply get_sock_apply ret_apply
          require_apply sys_apply make_socket_fd_def reads_apply)
    moreover have "\<not> timid U"
      using taken_closing [OF I, of ?c "Clients i"] taken calm by (auto simp: calm_def)
    ultimately show ?thesis using err bold_sound [OF I1(1)] by simp
  next
    case free
    obtain addr w2 where w2: "server_accept K X i q w = X (Server_obj i) ACCEPT (A_connection (next_ptr w)) w2"
        "w2 = (with_socket (Clients i) ?fd ?w)\<lparr>heap := (heap w)(next_ptr w \<mapsto>
          accepted_sock i (next_ptr w) (c_handler (get_container (Clients i) w)) ?fd addr)\<rparr>"
      using accept_wiring [OF s refl free(1,2) soundD(10) [OF I] free(3), of X] by blast
    have "sound_but {?fd} K U ?w" using I1(1) free(2) by simp
    then have "sound K U w2 \<and> steps {} ?w w2"
      using free(2,3) w2(2) accepted_sock_shape fresh_after_open(2) [OF I, of ?c]
      by (intro inv_store [OF _ fresh_after_open(1) [OF I]])
        (simp_all add: accepted_sock_def new_sock_def fits_def allows_def)
    then have I2: "sound K U w2" "steps {} w w2"
      using steps_trans [OF I1(2)] by auto
    have "ends K U {} w (X (Server_obj i) ACCEPT (A_connection (next_ptr w)) w2) (\<lambda>_ _. True)"
      by (rule ends_weaken, rule ends_from [OF I2(2) exec_free [OF I2(1)]]) (simp_all add: action_list_defs w2(2) connection_live_def accepted_sock_def new_sock_def)
    then show ?thesis by (simp add: w2(1))
  qed
qed

lemma connect_safe:
  assumes I: "sound K U w" and calm: "calm U w"
  shows "ends K U {} w (client_connect K X i host port six w) (\<lambda>_ _. True)"
  unfolding client_connect_def
proof (rule ends_then, rule make_socket_safe [OF I calm], goal_cases)
  case made: (1 made w1)
  show ?case
  proof (cases made)
    case None
    then show ?thesis using made by (auto intro: error_return legit_error)
  next
    case (Some p)
    then obtain h k where p: "next_ptr w \<le> p" "heap w1 p = Some (stored_sock (Connections i) h k)"
        "phases (trace w1) k = Some Unbound"
      using made by auto
    have hook: "closing_hook p (Client_closed i p)" by (auto simp: closing_hook_def)
    have unresolved: "ends K U {} w (andThen (reads errno) (\<lambda>e. andThen (X (Client_obj i) ERROR (A_error f e))
        (\<lambda>_. andThen (sock_close K X p) (\<lambda>_. ret False))) w') (\<lambda>_ _. True)"
      if "sound K U w'" "steps {} w w'" "heap w' p = Some s" for w' s f
      by (rule ends_reads, rule error_then [OF that(1,2) legit_error(3)], rule close_then_return) (simp_all add: that(3))
    have refused: "ends K U {} w (andThen (sock_close K X p) (\<lambda>_. andThen (reads errno) (\<lambda>e.
        andThen (X (Client_obj i) ERROR (A_error f e)) (\<lambda>_. ret False))) w') (\<lambda>_ _. True)"
      if "sound K U w'" "steps {} w w'" "heap w' p = Some s" for w' s f
      by (rule ends_call, rule that(2), rule close_any_safe [OF that(1,3)]) (auto intro: error_return legit_error)
    show ?thesis
      unfolding Some option.case
    proof (rule endpoint_safe [OF made(1,2) p hook], rule unresolved, assumption+, goal_cases)
      case (1 w2 a)
      show ?case
      proof (rule ends_call, rule 1(2), rule connection_connect_safe(1) [OF 1(1,3)], simp, simp, goal_cases)
        case 1
        then show ?case using \<open>phases (trace w2) k = Some Unbound\<close> by (simp add: idle_def)
      next
        case connected: (2 ok w3)
        have s3: "heap w3 p = Some (hooked (Connections i) (Client_closed i p) h k a)" using 1(3) connected(3) by simp
        show ?case
        proof (rule ends_if, rule refused [OF connected(1,2) s3],
            rule readable_safe [OF connected(1,2) p(1) s3 hook, where ph = Connected], simp, goal_cases)
          case 1
          then show ?case using connected(3) by simp
        next
          case 2
          show ?case by simp
        next
          case (3 w4 s4)
          have place: "same_place p (s4\<lparr>sactions := (sactions s4)(RECV :=
              add_callback (Client_receive i p) (flag_value DEFAULT) (sactions s4 RECV))\<rparr>) s4"
            by (rule reshape_other [OF 3(5) _ 3(6,7)]) simp_all
          show ?case
          proof (rule ends_on [OF 3(2,3) p(1) 3(4,5) _ place], simp, simp, goal_cases)
            case (1 w5)
            then have "legit U (Client_obj i) CONNECT (A_connection p) w5"
              using 3(5) by (simp add: action_list_defs connection_live_def)
            then show ?case
              by - (rule ends_call, rule 1(2), rule exec_free [OF 1(1)], simp_all add: ends_ret)
          qed
        qed
      qed
    qed
  qed
qed

lemma close_all_safe:
  "sound K U w \<Longrightarrow> ends K U {} w (server_close K X n i w) (\<lambda>_ _. True)"
  "sound K U w \<Longrightarrow> ends K U {} w (client_close K X n i w) (\<lambda>_ _. True)"
  unfolding server_close_def client_close_def
  by (rule ends_then, erule container_close_safe) (auto intro: ends_from container_close_safe)

section \<open>Datagrams\<close>

lemma datagram_error:
  "sound K U w \<Longrightarrow> steps D w0 w \<Longrightarrow> heap w p = Some s \<Longrightarrow> (\<And>w'. heap w' = heap w \<Longrightarrow> Q b w') \<Longrightarrow>
   ends K U D w0 (andThen (reads errno) (\<lambda>e. andThen (X (Socket_obj p) ERROR (A_error f e)) (\<lambda>_. ret b)) w) Q"
  by (rule error_return [OF _ _ legit_error(1)]) simp_all

lemma datagram_exec:
  assumes "sound K U w" and "steps D w0 w" and "legit U (Socket_obj p) t a w" and "t \<noteq> CLOSED"
  shows "ends K U D w0 (andThen (X (Socket_obj p) t a) (\<lambda>_. ret b) w) (\<lambda>_ _. True)"
proof -
  have "doomed (Socket_obj p) t w = {}"
    using assms(4) by (cases t) simp_all
  then show ?thesis
    by (intro ends_call [where m = "X (Socket_obj p) t a" and w = w, OF assms(2) exec_free [OF assms(1,3)]])
      (simp_all add: ends_ret)
qed

lemma raw_send_safe:
  assumes I: "sound K U w" and s: "heap w p = Some s" "sclass s \<noteq> Tcp_connection"
  shows "ends K U {} w (raw_sendmsg K X p msg fl w) (\<lambda>_ w'. heap w' = heap w)"
    "ends K U {} w (raw_send_to K X p addr msg fl w) (\<lambda>_ w'. heap w' = heap w)"
  unfolding raw_sendmsg_def raw_send_to_def get_socket_def andThen_assoc andThen_ret_left
  by (rule ends_get_sock [OF s(1)], rule ends_require, rule ends_sys [OF I steps_refl], simp,
      simp add: datagram_idle [OF I s], rule ends_if,
      rule datagram_error, assumption+, simp add: s, simp, rule ends_ret, assumption+, simp, simp add: datagram_not_steadfast [OF s])+

lemma raw_recv_safe:
  assumes I: "sound K U w" and s: "heap w p = Some s" "sclass s \<noteq> Tcp_connection"
  shows "ends K U {} w (raw_recvmsg K X p w) (\<lambda>_ _. True)" "ends K U {} w (raw_recvfrom K X p w) (\<lambda>_ _. True)"
proof -
  have legit: "legit U (Socket_obj p) RECVMSG (A_msghdr b) (after K c w)"
      "legit U (Socket_obj p) RECVFROM (A_address_bytes a b) (after K c w)" for a b c
    using s by (cases "sclass s"; simp add: action_list_defs)+
  show "ends K U {} w (raw_recvmsg K X p w) (\<lambda>_ _. True)"
    unfolding raw_recvmsg_def get_socket_def andThen_assoc andThen_ret_left
    by (rule ends_get_sock [OF s(1)], rule ends_require, rule ends_sys [OF I steps_refl], simp,
      simp add: datagram_idle [OF I s], rule ends_if,
      rule datagram_error, assumption+, simp add: s, simp, rule datagram_exec, assumption+, rule legit, simp, simp add: datagram_not_steadfast [OF s])
  show "ends K U {} w (raw_recvfrom K X p w) (\<lambda>_ _. True)"
    unfolding raw_recvfrom_def get_socket_def andThen_assoc andThen_ret_left Let_def
    by (rule ends_get_sock [OF s(1)], rule ends_require, rule ends_sys [OF I steps_refl], simp,
      simp add: datagram_idle [OF I s], rule ends_if,
      rule datagram_error, assumption+, simp add: s, simp, rule datagram_exec, assumption+, rule legit, simp, simp add: datagram_not_steadfast [OF s])
qed

end

end
