(* ===== verification/Contract_Calls.thy ===== *)
theory Contract_Calls
  imports Executor_Contract
begin

text \<open>
  The remaining operations (udp sockets and the loop of a poll), every call of a user program and
  every lambda under the contract of the executor.
\<close>

text \<open>A registered position of the vectors names a live socket.\<close>

lemma registered_position:
  assumes "sound K U w" and "i < length (socket_ptrs (handlers w h))"
  obtains s where "heap w (socket_ptrs (handlers w h) ! i) = Some s" "0 \<le> sock_fd s" "shandler s = h"
    "sock_fd s = pfd (sockets (handlers w h) ! i)"
proof -
  let ?h = "handlers w h"
  have wf: "length (sockets ?h) = length (socket_ptrs ?h)" "distinct (map pfd (sockets ?h))"
    using soundD(2) [OF assms(1), of h] by (simp_all add: handler_wf_def)
  have "(pfd (sockets ?h ! i), socket_ptrs ?h ! i, interest (sockets ?h ! i)) \<in> set (entries ?h)"
    using assms(2) wf(1) by (auto simp: entries_def in_set_zip intro!: exI [of _ i])
  moreover have "distinct (map fst (entries ?h))"
    using wf by (simp add: entries_keys)
  ultimately have "registry ?h (pfd (sockets ?h ! i)) = Some (socket_ptrs ?h ! i, interest (sockets ?h ! i))"
    by (simp add: registry_def)
  then show ?thesis
    using registered [OF assms(1)] that by (metis prod.collapse)
qed

text \<open>A poll asks only about open descriptors.\<close>

lemma poll_permitted:
  assumes "sound K U w"
  shows "permitted (phases (trace w)) (Sys_poll (poll_request (handlers w h)) timeout)"
proof -
  have "opened (phases (trace w)) (pfd e)" if e: "e \<in> set (sockets (handlers w h))" for e
  proof -
    obtain i where i: "i < length (sockets (handlers w h))" "e = sockets (handlers w h) ! i"
      using e by (metis in_set_conv_nth)
    moreover have "length (sockets (handlers w h)) = length (socket_ptrs (handlers w h))"
      using soundD(2) [OF assms, of h] by (simp add: handler_wf_def)
    ultimately obtain s where s: "heap w (socket_ptrs (handlers w h) ! i) = Some s" "0 \<le> sock_fd s" "sock_fd s = pfd e"
      using registered_position [OF assms, of i h] by auto
    then show ?thesis
      using own_opened [OF assms s(1)] by simp
  qed
  then show ?thesis
    by (auto simp: poll_request_def list_all_iff)
qed

context executor_contract begin

lemma udp_open_safe:
  assumes I: "sound K U w" and s: "heap w p = Some s" "sclass s = Udp_socket"
  shows "ends K U {} w (udp_open K X p af w) (\<lambda>_ w'. \<exists>s'. heap w' p = Some s' \<and> sclass s' = Udp_socket)"
proof (cases "sock_fd s < 0")
  case True
  have "ends K U {} w (sock_open K X p (uint af) SOCK_DGRAM 0 w) (\<lambda>_ w'. \<exists>s'. heap w' p = Some s' \<and> sclass s' = Udp_socket)"
    by (rule ends_weaken, rule open_safe [OF I s(1) _ True]) (use s in auto)
  then show ?thesis
    using s True by (simp add: udp_open_def get_socket_def prog_simps)
next
  case False
  then show ?thesis
    using I s by (simp add: udp_open_def get_socket_def prog_simps)
qed

lemma inet_if: "(if b then AF_INET6 else AF_INET) = inet_family b"
  "(if b then Sockaddr_in6 else Sockaddr_in) = inet_sockaddr b"
  by (simp_all add: inet_family_def inet_sockaddr_def)

lemma udp_bind_safe:
  assumes I: "sound K U w" and s: "heap w p = Some s" "sclass s = Udp_socket"
  shows "ends K U {} w (udp_bind K X p host port six w) (\<lambda>_ _. True)"
  unfolding udp_bind_def get_socket_def andThen_assoc andThen_ret_left inet_if
proof (rule ends_get_sock [OF s(1)], rule ends_require, rule ends_then, rule udp_open_safe [OF I s], goal_cases)
  case (1 ok w1)
  then obtain s1 where s1: "heap w1 p = Some s1" "sclass s1 = Udp_socket" by blast
  show ?case
  proof (rule ends_resolve [OF 1(2,3) s1(1)], goal_cases)
    case resolved: (1 r a w2)
    show ?case
    proof (rule ends_if, rule datagram_error [OF resolved(1,2,3)], simp, rule ends_port [OF resolved(1,2,3)], goal_cases)
      case (2 a3 w3)
      note ported = 2(4)
      show ?case
      proof (rule ends_call, rule 2(3), rule bind_safe [OF 2(2,4)], goal_cases)
        case 1
        then show ?case
          using datagram_idle [OF 2(2,4)] s1(2) by (simp add: allows_def)
      next
        case (2 bound w4)
        note 1 = this
        have s4: "heap w4 p = Some (s1\<lparr>address := a3\<rparr>)" using 1(3) ported by simp
        have "legit U (Socket_obj p) UDP_BIND (A_address a) w4" for a
          using s4 s1(2) by (simp add: action_list_defs)
        note bound = datagram_exec [OF 1(1,2) this]
        show ?case
          by (rule ends_if, rule ends_ret, rule 1(1), rule 1(2), simp, rule ends_get_sock [OF s4], rule bound) simp
      qed
    qed (use resolved(5) in simp)
  qed
qed (simp add: datagram_not_steadfast [OF s(1)] s(2))

text \<open>
  The temporary socket of \<^verbatim>\<open>send_to\<close> has no callbacks; its descriptor is the one just opened, so no assertion
  fails on it unless that is 0.
\<close>

definition bare :: "ptr \<Rightarrow> (int \<Rightarrow> bool) \<Rightarrow> world \<Rightarrow> bool" where
  "bare p B w \<longleftrightarrow> (\<exists>s. heap w p = Some s \<and> sclass s = Raw_socket \<and> sactions s = (\<lambda>_. []) \<and> B (sock_fd s))"

lemma bare_exec:
  assumes "get_action t (class_actions Raw_socket) = Some (t, args_prototype a)"
  shows "triple (bare p B) (X (Socket_obj p) t a) (\<lambda>_. bare p B) (\<lambda>e. e \<noteq> AssertFailed)"
proof -
  have "X (Socket_obj p) t a w = Inr ((), w) \<or> X (Socket_obj p) t a w = Inl OutOfFuel" if "bare p B w" for w
    using that assms by (intro empty_law [where acts = "\<lambda>_. []"]) (auto simp: bare_def)
  then show ?thesis
    by (force simp: triple_def)
qed

lemma bare_error:
  "triple (bare p B) (andThen (reads errno) (\<lambda>e. andThen (X (Socket_obj p) ERROR (A_error f e)) (\<lambda>_. ret b)))
    (\<lambda>r w. r = b \<and> bare p B w) (\<lambda>e. e \<noteq> AssertFailed)"
  by (rule triple_andThen [OF triple_reads [where Q = "\<lambda>_. bare p B"]], assumption,
      rule triple_andThen [OF bare_exec]) (auto simp: action_list_defs intro: triple_ret)

text \<open>A triple may be shown for one object at a time.\<close>

lemma bare_triple:
  assumes "\<And>w s. heap w p = Some s \<Longrightarrow> sclass s = Raw_socket \<Longrightarrow> sactions s = (\<lambda>_. []) \<Longrightarrow> B (sock_fd s) \<Longrightarrow>
    (case m w of Inl e \<Rightarrow> e \<noteq> AssertFailed | Inr (a, w') \<Rightarrow> Q a w')"
  shows "triple (bare p B) m Q (\<lambda>e. e \<noteq> AssertFailed)"
  using assms by (auto simp: triple_def bare_def)

lemma bare_then:
  "triple (bare p B) m Q E \<Longrightarrow> bare p B w \<Longrightarrow> r = m w \<Longrightarrow> (case r of Inl e \<Rightarrow> E e | Inr (a, w') \<Rightarrow> Q a w')"
  by (simp add: triple_def)

lemma bare_open:
  assumes "positive_descriptors K"
  shows "triple (bare p (\<lambda>_. True)) (sock_open K X p d ty pr) (\<lambda>ok. bare p (\<lambda>fd. ok \<longrightarrow> 0 < fd)) (\<lambda>e. e \<noteq> AssertFailed)"
proof (rule bare_triple)
  fix w :: world and s assume s: "heap w p = Some s" "sclass s = Raw_socket" "sactions s = (\<lambda>_. [])"
  let ?c = "Sys_socket d ty pr"
  show "case sock_open K X p d ty pr w of Inl e \<Rightarrow> e \<noteq> AssertFailed | Inr (ok, w') \<Rightarrow> bare p (\<lambda>fd. ok \<longrightarrow> 0 < fd) w'"
  proof (cases "ret_value (reply K ?c w) < 0")
    case True
    let ?w = "(after K ?c w)\<lparr>heap := (heap w)(p \<mapsto> s\<lparr>sock_fd := -1\<rparr>)\<rparr>"
    have "sock_open K X p d ty pr w = andThen (reads errno) (\<lambda>e.
        andThen (X (Socket_obj p) ERROR (A_error ''socket'' e)) (\<lambda>_. ret False)) ?w"
      using s(1) True by (simp add: sock_open_def base_open_def prog_simps)
    moreover have "bare p (\<lambda>_. True) ?w" using s by (simp add: bare_def)
    ultimately show ?thesis
      by (intro bare_then [OF triple_post [OF bare_error]]) simp_all
  next
    case False
    have "opens_descriptor ?c" by simp
    then have "ret_value (reply K ?c w) \<noteq> 0"
      using assms unfolding positive_descriptors_def reply_def by blast
    then show ?thesis
      using s False by (simp add: sock_open_def base_open_def prog_simps handler_add_socket_def bare_def)
  qed
qed

lemma bare_send:
  "triple (bare p (\<lambda>fd. 0 < fd)) (raw_send_to K X p addr msg fl) (\<lambda>_. bare p (\<lambda>_. True)) (\<lambda>e. e \<noteq> AssertFailed)"
proof (rule bare_triple)
  fix w :: world and s assume s: "heap w p = Some s" "sclass s = Raw_socket" "sactions s = (\<lambda>_. [])" "0 < sock_fd s"
  let ?c = "Sys_sendto (sock_fd s) msg fl addr (sa_size addr)"
  have "raw_send_to K X p addr msg fl w = (if ret_value (reply K ?c w) < 0
      then andThen (reads errno) (\<lambda>e. andThen (X (Socket_obj p) ERROR (A_error ''sendto'' e)) (\<lambda>_. ret False)) (after K ?c w)
      else Inr (True, after K ?c w))"
    using s(1,4) by (simp add: raw_send_to_def get_socket_def get_sock_apply andThen_apply sys_apply ret_apply require_apply)
  moreover have "bare p (\<lambda>_. True) (after K ?c w)" using s by (simp add: bare_def)
  ultimately show "case raw_send_to K X p addr msg fl w of Inl e \<Rightarrow> e \<noteq> AssertFailed | Inr (ok, w') \<Rightarrow> bare p (\<lambda>_. True) w'"
  proof (cases "ret_value (reply K ?c w) < 0")
    case True
    then show ?thesis
      using \<open>bare p (\<lambda>_. True) (after K ?c w)\<close> \<open>raw_send_to K X p addr msg fl w = _\<close>
      by (intro bare_then [OF triple_post [OF bare_error]]) simp_all
  qed simp
qed

lemma bare_close:
  "triple (bare p (\<lambda>_. True)) (sock_close K X p) (\<lambda>_. bare p (\<lambda>_. True)) (\<lambda>e. e \<noteq> AssertFailed)"
proof (rule bare_triple)
  fix w :: world and s assume s: "heap w p = Some s" "sclass s = Raw_socket" "sactions s = (\<lambda>_. [])"
  show "case sock_close K X p w of Inl e \<Rightarrow> e \<noteq> AssertFailed | Inr (u, w') \<Rightarrow> bare p (\<lambda>_. True) w'"
  proof (cases "sock_fd s < 0")
    case True
    then show ?thesis using s by (simp add: sock_close_closed bare_def)
  next
    case False
    show ?thesis
    proof (cases "delete_socket (sock_fd s) (handlers w (shandler s))")
      case None
      then show ?thesis using False s by (simp add: sock_close_def prog_simps handler_delete_socket_def)
    next
      case (Some h)
      let ?w = "(after K (Sys_close (sock_fd s)) (set_handler (shandler s) h w))\<lparr>heap := (heap w)(p \<mapsto> s\<lparr>sock_fd := -1\<rparr>)\<rparr>"
      have "sock_close K X p w = X (Socket_obj p) CLOSED A_none ?w"
        using False s(1) Some by (simp add: sock_close_def base_close_def handler_delete_socket_def prog_simps)
      moreover have "bare p (\<lambda>_. True) ?w" using s by (simp add: bare_def)
      ultimately show ?thesis
        by (intro bare_then [OF bare_exec]) (simp_all add: action_list_defs)
    qed
  qed
qed

lemma udp_send_to_asserts:
  assumes "positive_descriptors K"
  shows "udp_send_to K X addr msg fl w \<noteq> Inl AssertFailed"
proof -
  let ?E = "\<lambda>e. e \<noteq> AssertFailed"
  have ctor: "triple (\<lambda>_. True) (raw_socket_ctor None) (\<lambda>p. bare p (\<lambda>_. True)) ?E"
    by (simp add: triple_def raw_socket_ctor_def pollable_entity_def make_handler_def prog_simps Let_def bare_def new_sock_def)
  have free: "triple (bare p B) (andThen (free_sock p) (\<lambda>_. ret b)) (\<lambda>_ _. True) ?E" for p B and b :: bool
    by (simp add: triple_def bare_def prog_simps)
  have rest: "triple (bare p (\<lambda>fd. ok \<longrightarrow> 0 < fd)) (if \<not> ok then andThen (free_sock p) (\<lambda>_. ret False)
      else andThen (raw_send_to K X p addr msg fl) (\<lambda>result.
        andThen (sock_close K X p) (\<lambda>_. andThen (free_sock p) (\<lambda>_. ret result)))) (\<lambda>_ _. True) ?E" for p ok
    using free [of p "\<lambda>_. True" False] triple_andThen [OF bare_send triple_andThen [OF bare_close free]] by (cases ok) simp_all
  have "triple (\<lambda>_. True) (udp_send_to K X addr msg fl) (\<lambda>_ _. True) ?E"
    unfolding udp_send_to_def
    by (rule triple_andThen [OF ctor], rule triple_andThen [OF bare_open [OF assms] rest])
  from tripleD_fault [OF this, of w AssertFailed] show ?thesis by blast
qed

text \<open>The temporary socket is destroyed unopened, or used, closed and destroyed.\<close>

lemma temporary_free:
  assumes a: "sound K U w'" "steps {p} w w'" "heap w' p = Some s" "sock_fd s < 0" "sclass s = Raw_socket"
  shows "ends K U {p} w (andThen (free_sock p) (\<lambda>_. ret b) w') (\<lambda>_ w'. heap w' p = None)"
proof -
  have "sound K U (w'\<lparr>heap := (heap w')(p := None)\<rparr>) \<and> steps {p} w' (w'\<lparr>heap := (heap w')(p := None)\<rparr>)"
    by (rule inv_free_temporary [OF a(1,3,4)]) (simp_all add: a(5))
  then show ?thesis
    using steps_trans [OF a(2)] by (simp add: prog_simps)
qed

lemma temporary_used:
  assumes a: "sound K U w'" "steps {p} w w'" "heap w' p = Some s" "sclass s = Raw_socket" "sactions s = (\<lambda>_. [])"
  shows "ends K U {p} w (andThen (raw_send_to K X p addr msg fl) (\<lambda>result.
      andThen (sock_close K X p) (\<lambda>_. andThen (free_sock p) (\<lambda>_. ret result))) w') (\<lambda>_ w'. heap w' p = None)"
proof (rule ends_call, rule a(2), rule raw_send_safe(2) [OF a(1,3)], simp add: a(4), goal_cases)
  case (1 b w4)
  then have s4: "heap w4 p = Some s" using a(3) by simp
  show ?case
  proof (rule ends_call, rule 1(2), rule close_safe [OF 1(1) s4], goal_cases)
    case (1 u w5)
    then have "heap w5 p = Some (s\<lparr>sock_fd := if 0 \<le> sock_fd s then -1 else sock_fd s\<rparr>)"
      using a(5) by simp
    then show ?case by (rule temporary_free [OF 1(1,2)]) (simp_all add: a(4))
  qed
qed

lemma udp_send_to_safe:
  assumes I: "sound K U w"
  shows "ends K U {} w (udp_send_to K X addr msg fl w) (\<lambda>_ _. True)"
proof -
  let ?p = "next_ptr w" and ?h = "next_handler w"
  let ?w1 = "(set_handler ?h (new_handler (invalid (handlers w ?h))) w)\<lparr>next_handler := Suc ?h\<rparr>"
  let ?s = "new_sock Raw_socket ?h (-1)"
  let ?w2 = "?w1\<lparr>heap := (heap w)(?p \<mapsto> ?s), next_ptr := Suc ?p\<rparr>"
  have I1: "sound K U ?w1" "steps {} w ?w1"
    using inv_new_handler [OF I refl] by auto
  have "sound K U ?w2 \<and> steps {next_ptr ?w1} ?w1 ?w2"
    by (rule inv_alloc [OF I1(1)]) (simp_all add: new_sock_def)
  then have I2: "sound K U ?w2" "steps {?p} w ?w2"
    using steps_trans [OF steps_mono [OF I1(2)], of "{?p}" ?w2] by auto
  have s2: "heap ?w2 ?p = Some ?s" by simp
  have ctor: "udp_send_to K X addr msg fl w = andThen (sock_open K X ?p (uint (sa_family addr)) SOCK_DGRAM 0) (\<lambda>opened.
      if \<not> opened then andThen (free_sock ?p) (\<lambda>_. ret False)
      else andThen (raw_send_to K X ?p addr msg fl) (\<lambda>result.
        andThen (sock_close K X ?p) (\<lambda>_. andThen (free_sock ?p) (\<lambda>_. ret result)))) ?w2"
    by (simp add: udp_send_to_def raw_socket_ctor_def pollable_entity_def make_handler_def prog_simps Let_def)
  have "ends K U {?p} w (udp_send_to K X addr msg fl w) (\<lambda>_ w'. heap w' ?p = None)"
    unfolding ctor
  proof (rule ends_call, rule I2(2), rule open_safe [OF I2(1) s2], goal_cases)
    case (3 opened w3)
    then obtain s3 where s3: "heap w3 ?p = Some s3" "sclass s3 = Raw_socket" "sactions s3 = (\<lambda>_. [])"
        "\<not> opened \<Longrightarrow> sock_fd s3 < 0"
      by (auto simp: new_sock_def)
    show ?case
    proof (rule ends_if)
      assume "\<not> opened"
      then show "ends K U {?p} w (andThen (free_sock ?p) (\<lambda>_. ret False) w3) (\<lambda>_ w'. heap w' ?p = None)"
        using s3 by (intro temporary_free [OF 3(1,2)])
    qed (rule temporary_used [OF 3(1,2) s3(1-3)])
  qed (simp_all add: new_sock_def)
  note outcome = this
  show ?thesis
  proof (cases "udp_send_to K X addr msg fl w = Inl AssertFailed")
    case True
    then have "\<not> positive_descriptors K" using udp_send_to_asserts by blast
    then show ?thesis by (simp add: True steadfast_def)
  next
    case False
    then have "ends K U {} w (udp_send_to K X addr msg fl w) (\<lambda>_ w'. heap w' ?p = None)"
      by (intro ends_drop [OF outcome]) (use dead_beyond [OF I, of ?p] in \<open>simp_all add: harmless_def\<close>)
    then show ?thesis
      by (rule ends_weaken) simp
  qed
qed

section \<open>The loop of a poll\<close>

lemma poll_slot_safe:
  assumes I: "sound K U w" and st: "steps D w0 w" and i: "i < length (socket_ptrs (handlers w h))"
    and t: "t = READABLE \<or> t = WRITEABLE" and calm: "calm U w"
  shows "ends K U D w0 (andThen (socket_ptr_at h i) (\<lambda>p. X (Socket_obj p) t A_none) w) (\<lambda>_ _. True)"
proof -
  let ?p = "socket_ptrs (handlers w h) ! i"
  obtain s where s: "heap w ?p = Some s" "0 \<le> sock_fd s"
    using registered_position [OF I i] by blast
  have "legit U (Socket_obj ?p) t A_none w" "doomed (Socket_obj ?p) t w = {}"
    using s t calm by (cases "sclass s"; auto simp: action_list_defs)+
  then have "ends K U D w0 (X (Socket_obj ?p) t A_none w) (\<lambda>_ _. True)"
    by (intro ends_weaken [OF ends_from [OF st exec_free [OF I]]]) simp_all
  then show ?thesis
    using i by (simp add: socket_ptr_at_def prog_simps)
qed

text \<open>What a slot may cost of the changes that go unnoticed.\<close>

lemma poll_slot_cost:
  assumes "sound K U w" and "counted K U"
  shows "spends (if t = READABLE then 2 else 0) (andThen (socket_ptr_at h i) (\<lambda>p. X (Socket_obj p) t A_none))"
proof -
  have "thrifty (socket_ptr_at h i)"
    unfolding socket_ptr_at_def by (intro thrifty_rules)
  moreover have "disciplined U" "frugal U"
    using soundD(1) [OF assms(1)] assms(2) by (simp_all add: env_ok_def counted_def)
  ultimately show ?thesis
    by (intro then_spends cost_law)
qed

definition costs :: "nat \<Rightarrow> world \<Rightarrow> world \<Rightarrow> bool" where
  "costs n v u \<longleftrightarrow> (counted K U \<longrightarrow> (\<forall>w0 e. ledger w0 e v \<longrightarrow> ledger w0 (e + n) u))"

lemma costsD: "costs n v u \<Longrightarrow> counted K U \<Longrightarrow> ledger w0 e v \<Longrightarrow> ledger w0 (e + n) u"
  by (simp add: costs_def)

lemma poll_part_safe:
  assumes I: "sound K U w" and st: "steps {} w0 w" and i: "i < length (socket_ptrs (handlers w h))" and calm: "calm U w"
  shows "ends K U {} w0 ((if b then andThen (socket_ptr_at h i) (on_readable X) else ret ()) w) (\<lambda>_. costs 2 w)"
    "ends K U {} w0 ((if b then andThen (socket_ptr_at h i) (on_writeable X) else ret ()) w) (\<lambda>_. costs 0 w)"
proof -
  have slot: "ends K U {} w0 ((if b then andThen (socket_ptr_at h i) (\<lambda>p. X (Socket_obj p) t A_none) else ret ()) w)
      (\<lambda>_. costs (if t = READABLE then 2 else 0) w)" if "t = READABLE \<or> t = WRITEABLE" for t
  proof -
    let ?m = "andThen (socket_ptr_at h i) (\<lambda>p. X (Socket_obj p) t A_none)"
    have "ledger w0' (e + (if t = READABLE then 2 else 0)) w'"
      if "counted K U" "ledger w0' e w" "?m w = Inr (a, w')" for w0' e w' a
      using spendsD [OF poll_slot_cost [OF I that(1)] that(2,3)] .
    moreover have "ends K U {} w0 (?m w) (\<lambda>_ _. True)"
      by (rule poll_slot_safe [OF I st i that calm])
    ultimately show ?thesis
      using I st unfolding costs_def ends_def by (auto simp: ret_apply intro: ledger_more split: sum.splits)
  qed
  have "on_readable X = (\<lambda>p. X (Socket_obj p) READABLE A_none)" "on_writeable X = (\<lambda>p. X (Socket_obj p) WRITEABLE A_none)"
    by (simp_all add: fun_eq_iff on_readable_def on_writeable_def)
  then show "ends K U {} w0 ((if b then andThen (socket_ptr_at h i) (on_readable X) else ret ()) w) (\<lambda>_. costs 2 w)"
    "ends K U {} w0 ((if b then andThen (socket_ptr_at h i) (on_writeable X) else ret ()) w) (\<lambda>_. costs 0 w)"
    using slot [of READABLE] slot [of WRITEABLE] by (cases b; simp)+
qed

text \<open>One round on a slot with events: input, the check of the counter, output, the check again, the rest.\<close>

lemma poll_round_safe:
  assumes h: "h < next_handler w1" and calm: "calm U w1" and w: "sound K U w" "steps {} w1 w"
    and i: "i < length (socket_ptrs (handlers w1 h))" and same: "storage (handlers w h) = storage (handlers w1 h)"
    and rest: "\<And>v m. sound K U v \<Longrightarrow> steps {} w1 v \<Longrightarrow> (counted K U \<longrightarrow> storage (handlers v h) = storage (handlers w1 h)) \<Longrightarrow>
      ends K U {} w1 (rest m v) (\<lambda>_ _. True)"
  shows "ends K U {} w1 (andThen (if input then andThen (socket_ptr_at h i) (on_readable X) else ret ()) (\<lambda>_.
       andThen (reads (\<lambda>v. ref_has_changed (get_ref (handlers w h)) (handlers v h))) (\<lambda>changed.
       if changed then ret ()
       else
         andThen (fresh_iterator h (storage (handlers w1 h))) (\<lambda>_.
         andThen (reads (\<lambda>v. sockets (handlers v h) ! i)) (\<lambda>socket.
         andThen (if revents socket AND POLLOUT \<noteq> 0
                  then andThen (socket_ptr_at h i) (on_writeable X) else ret ()) (\<lambda>_.
         andThen (reads (\<lambda>v. ref_has_changed (get_ref (handlers w h)) (handlers v h))) (\<lambda>changed.
         if n - 1 = 0 \<or> changed then ret () else rest (n - 1 :: int))))))) w) (\<lambda>_ _. True)"
proof -
  let ?same = "\<lambda>v. storage (handlers v h) = storage (handlers w1 h)"
  have part: "ends K U {} w1 ((if b then andThen (socket_ptr_at h i) (on_readable X) else ret ()) v) (\<lambda>_. costs 2 v)"
      "ends K U {} w1 ((if b then andThen (socket_ptr_at h i) (on_writeable X) else ret ()) v) (\<lambda>_. costs 0 v)"
    if "sound K U v" "steps {} w1 v" "?same v" for b v
    by (rule poll_part_safe [OF that(1,2) _ calm_steps [OF that(2) calm]]; use that h i in \<open>simp add: steps_def\<close>)+
  have unchanged: "counted K U \<longrightarrow> ?same u"
    if "counted K U \<Longrightarrow> ledger w 2 u" "\<not> ref_has_changed (get_ref (handlers w h)) (handlers u h)" for u
    using dispatch_unchanged [OF w(1), of u h] that same by (simp add: ref_has_changed_def get_ref_def)
  show ?thesis
    unfolding fresh_iterator_def
  proof (rule ends_then, rule part(1) [OF w same], rule ends_reads, rule ends_if, goal_cases)
    case (1 a v)
    then show ?case by (simp add: ends_ret)
  next
    case (2 a v)
    note v = 2(1-3)
    have paid: "counted K U \<Longrightarrow> ledger w 2 v"
      using costsD [OF v(3) _ sound_ledger [OF w(1)]] by (simp add: numeral_2_eq_2)
    show ?case
    proof (rule ends_require, rule ends_reads, rule ends_then, rule part(2) [OF v(1,2)], assumption, rule ends_reads, rule ends_if, goal_cases)
      case (1 b u)
      then show ?case by (simp add: ends_ret)
    next
      case (2 b u)
      have "counted K U \<Longrightarrow> ledger w 2 u"
        using costsD [OF 2(4) _ paid] by simp
      then show ?case
        using unchanged [of u] 2 by (intro rest) simp_all
    next
      case 3
      then show ?case using unchanged [OF paid] 2(4) by simp
    qed
  qed
qed

lemma poll_loop_safe:
  assumes "h < next_handler w1" and "calm U w1"
    and "sound K U w" and "steps {} w1 w" and "\<forall>i \<in> set is. i < length (socket_ptrs (handlers w1 h))"
    and "counted K U \<longrightarrow> storage (handlers w h) = storage (handlers w1 h)"
  shows "ends K U {} w1 (poll_loop X h (storage (handlers w1 h)) n is w) (\<lambda>_ _. True)"
  using assms(3-6)
proof (induction "is" arbitrary: n w)
  case Nil
  then show ?case by (simp add: prog_simps)
next
  case (Cons i "is")
  have rest: "ends K U {} w1 (poll_loop X h (storage (handlers w1 h)) m is v) (\<lambda>_ _. True)"
    if "sound K U v" "steps {} w1 v" "counted K U \<longrightarrow> storage (handlers v h) = storage (handlers w1 h)" for m v
    using Cons.IH [OF that(1,2) _ that(3)] Cons.prems(3) by simp
  show ?case
    unfolding poll_loop.simps
  proof (subst fresh_iterator_def, rule ends_require, rule ends_reads, rule ends_reads, rule ends_if)
    assume same: "storage (handlers w h) = storage (handlers w1 h)"
    show "ends K U {} w1 (poll_loop X h (storage (handlers w1 h)) n is w) (\<lambda>_ _. True)"
      by (rule rest [OF Cons.prems(1,2)]) (simp add: same)
    note round = poll_round_safe [OF assms(1,2) Cons.prems(1,2) _ same rest]
    show "ends K U {} w1 (andThen (if revents (sockets (handlers w h) ! i) AND POLLIN \<noteq> 0
          then andThen (socket_ptr_at h i) (on_readable X) else ret ()) (\<lambda>_.
       andThen (reads (\<lambda>v. ref_has_changed (get_ref (handlers w h)) (handlers v h))) (\<lambda>changed.
       if changed then ret ()
       else
         andThen (fresh_iterator h (storage (handlers w1 h))) (\<lambda>_.
         andThen (reads (\<lambda>v. sockets (handlers v h) ! i)) (\<lambda>socket.
         andThen (if revents socket AND POLLOUT \<noteq> 0
                  then andThen (socket_ptr_at h i) (on_writeable X) else ret ()) (\<lambda>_.
         andThen (reads (\<lambda>v. ref_has_changed (get_ref (handlers w h)) (handlers v h))) (\<lambda>changed.
         if n - 1 = 0 \<or> changed then ret ()
         else poll_loop X h (storage (handlers w1 h)) (n - 1) is)))))) w) (\<lambda>_ _. True)"
      by (rule round) (simp_all add: Cons.prems(3))
  next
    assume "storage (handlers w h) \<noteq> storage (handlers w1 h)"
    then show "blamed K U w1 InvalidatedPollIterator" using Cons.prems(4) by simp
  qed
qed

lemma poll_safe:
  assumes I: "sound K U w" and calm: "calm U w"
  shows "ends K U {} w (events_poll K X h timeout w) (\<lambda>_ _. True)"
proof (cases "sockets (handlers w h) = []")
  case True
  then show ?thesis using I by (simp add: events_poll_def prog_simps impl_empty_def)
next
  case False
  then have h: "h < next_handler w"
    using soundD(3) [OF I, of h] by (meson not_le)
  let ?w1 = "polled K h timeout w"
  let ?c = "Sys_poll (poll_request (handlers w h)) timeout"
  have I1: "sound K U ?w1" "steps {} w ?w1"
    using inv_call [OF I, of ?c] poll_permitted [OF I, of h timeout] inv_revents [of K U "after K ?c w" h "ret_revents (reply K ?c w)"] steps_trans
    by (auto simp: polled_def Let_def)
  have "length (sockets (handlers ?w1 h)) = length (socket_ptrs (handlers w h))"
      "socket_ptrs (handlers ?w1 h) = socket_ptrs (handlers w h)" "next_handler ?w1 = next_handler w"
    using soundD(2) [OF I, of h] by (simp_all add: handler_wf_def polled_def Let_def)
  then have "ends K U {} ?w1 (poll_loop X h (storage (handlers ?w1 h)) n [0..<length (sockets (handlers ?w1 h))] ?w1) (\<lambda>_ _. True)" for n
    using h calm_steps [OF I1(2) calm] by (intro poll_loop_safe [OF _ _ I1(1)]) simp_all
  note loop = ends_from [OF I1(2) this]
  have "ends K U {} w (poll_impl K X h timeout w) (\<lambda>_ _. True)"
    unfolding poll_impl_apply by (rule loop)
  then show ?thesis
    using False by (simp add: events_poll_def impl_empty_def reads_apply andThen_apply [of "reads f" for f] ends_then ends_ret)
qed

end

section \<open>Calls and lambdas\<close>

text \<open>
  When a lambda may be run: the socket it holds exists and its descriptor is in the phase the lambda
  needs, in a timid program no connection is being closed while one is accepted, and the arguments are its action's.  The connection a user's callback is given is alive unless
  an earlier callback of the same action could have destroyed it.
\<close>

fun callable :: "user_program \<Rightarrow> callback \<Rightarrow> args \<Rightarrow> world \<Rightarrow> bool" where
  "callable U (User u) a w \<longleftrightarrow> (solitary w \<longrightarrow> args_live a w)"
| "callable U (Container_erase c k) a w \<longleftrightarrow> False"
| "callable U (Connection_recv p) a w \<longleftrightarrow>
     (\<exists>s. heap w p = Some s \<and> sclass s = Tcp_connection \<and> phases (trace w) (sock_fd s) = Some Connected)"
| "callable U (Connection_send_flush p) a w \<longleftrightarrow> heap w p \<noteq> None"
| "callable U (Server_accept i p) a w \<longleftrightarrow>
     (\<exists>s. heap w p = Some s \<and> phases (trace w) (sock_fd s) = Some Listening) \<and> calm U w"
| "callable U (Server_closed i p) a w \<longleftrightarrow> connection_live p w"
| "callable U (Server_disconnect i p) a w \<longleftrightarrow> connection_live p w"
| "callable U (Client_closed i p) a w \<longleftrightarrow> connection_live p w"
| "callable U (Server_receive i p) a w \<longleftrightarrow> (\<exists>b. a = A_bytes b) \<and> connection_live p w"
| "callable U (Client_receive i p) a w \<longleftrightarrow> (\<exists>b. a = A_bytes b) \<and> connection_live p w"
| "callable U (Udp_recvfrom p) a w \<longleftrightarrow> (\<exists>s. heap w p = Some s \<and> sclass s = Udp_socket)"
| "callable U (Udp_receive p) a w \<longleftrightarrow>
     (\<exists>s. heap w p = Some s \<and> sclass s = Udp_socket) \<and> (\<exists>x b. a = A_address_bytes x b)"
| "callable U (Udp_closed p) a w \<longleftrightarrow> (\<exists>s. heap w p = Some s \<and> sclass s = Udp_socket)"

context executor_contract begin

lemma live_safe:
  assumes "\<And>s. heap w p = Some s \<Longrightarrow> sclass s \<in> set classes \<Longrightarrow> ends K U {} w (k () w) Q"
    and "tidy U w \<Longrightarrow> \<exists>c \<in> set classes. scope_of w p = Some c"
  shows "ends K U {} w (andThen (live classes p) k w) Q"
  unfolding live_def
  by (rule ends_require) (use assms in \<open>auto simp: scope_of_def split: option.splits\<close>)

lemma closed_socket_safe:
  assumes "\<And>s. heap w p = Some s \<Longrightarrow> sock_fd s < 0 \<Longrightarrow> ends K U {} w (k () w) Q" and "\<not> tidy U w"
  shows "ends K U {} w (andThen (closed_socket p) k w) Q"
  unfolding closed_socket_def by (rule ends_require) (use assms in \<open>auto split: option.splits\<close>)

lemma set_address_safe:
  "sound K U w \<Longrightarrow> heap w p = Some s \<Longrightarrow> ends K U {} w (put_sock p (\<lambda>s. s\<lparr>address := a\<rparr>) w) (\<lambda>_ _. True)"
  using inv_put [of K U w p s "s\<lparr>address := a\<rparr>"] by (simp add: prog_simps address_role)

lemma fcntl_safe:
  assumes "sound K U w" and "heap w p = Some s"
  shows "ends K U {} w (andThen (get_socket p) (\<lambda>fd. discard (sys K (Sys_fcntl fd c a))) w) (\<lambda>_ _. True)"
  using inv_call [OF assms(1), of "Sys_fcntl (sock_fd s) c a"] own_opened [OF assms] assms(2)
  by (simp add: get_socket_def discard_def prog_simps)

lemma assign_safe: "sound K U w \<Longrightarrow> ends K U {} w (andThen (reads f) (set_variable x) w) (\<lambda>_ _. True)"
  by (simp add: prog_simps set_variable_def inv_variables)

lemma read_clock_safe:
  assumes "sound K U w"
  shows "ends K U {} w (andThen (sys K Lib_clock) (\<lambda>r. set_variable x (ret_value r)) w) (\<lambda>_ _. True)"
  by (rule ends_sys [OF assms]) (auto simp: prog_simps set_variable_def inv_variables
      intro: steps_trans [OF _ inv_variables [THEN conjunct2]])

lemma set_data_safe:
  assumes "sound K U w" and "heap w p = Some s"
  shows "ends K U {} w (andThen (reads f) (set_data p x) w) (\<lambda>_ _. True)"
proof -
  have "same_role (s\<lparr>data := (data s)(x := f w)\<rparr>) s"
    by (simp add: same_role_def)
  from inv_put [OF assms this] assms(2) show ?thesis
    by (simp add: prog_simps set_data_def)
qed

lemma raw_bind_safe:
  assumes I: "sound K U w" and s: "heap w p = Some s" "sclass s \<noteq> Tcp_connection"
  shows "ends K U {} w (sock_bind K X p w) (\<lambda>_ _. True)"
  by (rule ends_weaken, rule bind_safe [OF I s(1)]) (use datagram_idle [OF I s] s(2) in \<open>simp_all add: allows_def\<close>)

lemma ends_any: "ends K U D w0 r Q \<Longrightarrow> ends K U D w0 r (\<lambda>_ _. True)"
  by (rule ends_weaken) simp_all

lemmas op_safe = ends_any [OF send_safe] recv_safe close_any_safe listen_safe close_all_safe connect_safe want_safe
  raw_recv_safe udp_bind_safe udp_send_to_safe poll_safe set_address_safe
  fcntl_safe assign_safe read_clock_safe set_data_safe ends_any [OF print_safe]
  ends_any [OF raw_send_safe(1)] ends_any [OF raw_send_safe(2)] raw_bind_safe
  ends_any [OF open_safe] ends_any [OF udp_open_safe]

lemma any_class: "scope_of w p = Some y \<Longrightarrow> y = Tcp_connection \<or> y = Raw_socket \<or> y = Udp_socket"
  by (cases y) simp_all

lemma run_cmd_safe:
  assumes "sound K U w" and "callback_cmd c" and "connecting c \<longrightarrow> calm U w" and "tidy U w \<longrightarrow> permits (scope_of w) c"
  shows "ends K U {} w (run_cmd K X n c w) (\<lambda>_ _. True)"
  using assms by (cases c) (auto intro!: live_safe closed_socket_safe ends_discard [OF ends_any] op_safe
      intro: ends_discard [where Q = "\<lambda>_ _. True"] dest: any_class simp: datagram_in_def)

text \<open>Gentle commands keep every object.\<close>

lemma run_cmd_gentle:
  assumes "sound K U w" and "gentle c" and "tidy U w \<longrightarrow> permits (scope_of w) c"
  shows "ends K U {} w (run_cmd K X n c w) (\<lambda>_ w'. scope_of w \<subseteq>\<^sub>m scope_of w')"
proof -
  have send: "ends K U {} w (discard (connection_send K X p msg) w) (\<lambda>_ w'. scope_of w \<subseteq>\<^sub>m scope_of w')"
    if "heap w p = Some s" for p s msg
    unfolding discard_def by (rule ends_then, rule send_safe [OF assms(1) that]) (simp add: ends_ret)
  have print: "ends K U {} w (print K is w) (\<lambda>_ w'. scope_of w \<subseteq>\<^sub>m scope_of w')"
    if "c = Print is" for "is"
    by (rule ends_weaken, rule print_safe [OF assms(1)])
      (use that assms(2,3) in \<open>auto simp: scope_of_def fun_eq_iff map_le_def dest!: echoes_heap\<close>)
  have data: "ends K U {} w (andThen (reads f) (set_data p x) w) (\<lambda>_ w'. scope_of w \<subseteq>\<^sub>m scope_of w')"
    if "heap w p = Some s" for p s f x
    using set_data_safe [OF assms(1) that] that
    by (auto simp: prog_simps set_data_def scope_of_def map_le_def)
  have rest: "ends K U {} w (andThen (reads f) (set_variable x) w) (\<lambda>_ w'. scope_of w \<subseteq>\<^sub>m scope_of w')"
    "ends K U {} w (andThen (sys K Lib_clock) (\<lambda>r. set_variable x (ret_value r)) w) (\<lambda>_ w'. scope_of w \<subseteq>\<^sub>m scope_of w')" for f x
    using assign_safe [OF assms(1)] read_clock_safe [OF assms(1)]
    by (auto simp: prog_simps set_variable_def scope_of_def map_le_def)
  show ?thesis
    using assms(2,3)
    by (cases c) (auto intro!: live_safe send print data rest dest: any_class)
qed

text \<open>A command that names an object that is not in scope may end in \<open>Misuse\<close>, too.\<close>

lemma run_cmd_unusable:
  assumes "sound K U w" and "callback_cmd c" and "\<not> permits (scope_of w) c"
  shows "case run_cmd K X n c w of Inl e \<Rightarrow> e = Misuse \<or> blamed K U w e | Inr (x, w') \<Rightarrow> sound K U w' \<and> steps {} w w'"
proof -
  have miss: "run_cmd K X n c w = Inl Misuse"
    if "live cs p w = Inl Misuse" "run_cmd K X n c = andThen (live cs p) k" for cs p k
    using that by (simp add: andThen_apply)
  have live: "live cs p w = Inl Misuse" if "\<forall>y \<in> set cs. scope_of w p \<noteq> Some y" for cs p
    using that by (auto simp: live_def prog_simps scope_of_def split: option.splits)
  show ?thesis
  proof (cases c)
    case (Socket_open p d ty pr)
    have "ends K U {} w (sock_open K X p d ty pr w) (\<lambda>_ _. True)"
      if "heap w p = Some s" "sclass s = Raw_socket" "sock_fd s < 0" for s
      by (rule ends_any, rule open_safe [OF assms(1) that(1) _ that(3)]) (simp add: that(2))
    then show ?thesis
      by (auto simp: Socket_open live_def closed_socket_def prog_simps discard_def ends_def split: option.splits sum.splits)
  next
    case (Print items)
    have e: "echoing K U w w" using assms(1) by (simp add: echoing_def)
    have t: "triple (echoing K U w) (print K items) (\<lambda>_. echoing K U w) (\<lambda>e. e = Misuse)"
      by (rule print_echoing) (use assms(2) Print in simp_all)
    show ?thesis
      using tripleD [OF t e] tripleD_fault [OF t e] Print
      by (cases "print K items w") (auto simp: echoing_def)
  qed (use assms(2,3) in \<open>simp_all add: andThen_apply live datagram_in_def\<close>)
qed

text \<open>
  The commands of a callback, along its scope: after the commands so far, the objects in scope exist.
\<close>

lemma run_cmd_step:
  assumes I: "sound K U w0" "sound K U w" "steps {} w0 w" and c: "callback_cmd c" "connecting c \<longrightarrow> calm U w"
    and scope: "tidy U w0 \<longrightarrow> permits E c \<and> E \<subseteq>\<^sub>m scope_of w"
  shows "ends K U {} w0 (run_cmd K X n c w) (\<lambda>_ w'. tidy U w0 \<longrightarrow> (if gentle c then E else forget E) \<subseteq>\<^sub>m scope_of w')"
proof (cases "permits (scope_of w) c")
  case True
  show ?thesis
  proof (cases "gentle c")
    case gentle: True
    show ?thesis
      by (rule ends_weaken, rule ends_from [OF I(3) run_cmd_gentle [OF I(2) gentle]])
        (use True scope gentle in \<open>auto intro: map_le_trans\<close>)
  next
    case False
    have "ends K U {} w (run_cmd K X n c w) (\<lambda>_ _. True)"
      by (rule run_cmd_safe [OF I(2) c]) (use True in simp)
    then have "ends K U {} w (run_cmd K X n c w) (\<lambda>_ w'. steps {} w w')"
      by (cases "run_cmd K X n c w") (auto simp: ends_def)
    then have "ends K U {} w0 (run_cmd K X n c w) (\<lambda>_ w'. steps {} w w')"
      by (rule ends_from [OF I(3)])
    moreover have "forget E \<subseteq>\<^sub>m scope_of w'" if "tidy U w0" "steps {} w w'" for w'
    proof -
      have "forget E \<subseteq>\<^sub>m datagrams w"
        using scope that(1) forget_mono by (auto simp: datagrams_def)
      moreover have "datagrams w \<subseteq>\<^sub>m datagrams w'"
        by (rule datagrams_steps [OF that(2)]) simp
      moreover have "datagrams w' \<subseteq>\<^sub>m scope_of w'"
        by (auto simp: datagrams_def forget_def map_le_def)
      ultimately show ?thesis
        by (blast intro: map_le_trans)
    qed
    ultimately show ?thesis
      using False by (auto intro: ends_weaken)
  qed
next
  case False
  then have "\<not> tidy U w0"
    using scope permits_mono by blast
  then show ?thesis
    using run_cmd_unusable [OF I(2) c(1) False, of n] blamed_steps [OF I(3)] steps_trans [OF I(3)]
    by (auto simp: ends_def split: sum.splits)
qed

lemma run_cmds_safe:
  "sound K U w0 \<Longrightarrow> list_all callback_cmd cs \<Longrightarrow> list_all (\<lambda>c. connecting c \<longrightarrow> calm U w0) cs \<Longrightarrow>
   sound K U w \<Longrightarrow> steps {} w0 w \<Longrightarrow>
   tidy U w0 \<longrightarrow> checks E cs \<and> E \<subseteq>\<^sub>m scope_of w \<Longrightarrow>
   ends K U {} w0 (run_all (run_cmd K X n) cs w) (\<lambda>_ _. True)"
proof (induction cs arbitrary: w E)
  case Nil
  then show ?case by (simp add: prog_simps)
next
  case (Cons c cs)
  show ?case
    unfolding run_all.simps
    by (rule ends_then, rule run_cmd_step [OF Cons.prems(1,4,5), where E = E])
      (use Cons calm_steps [OF Cons.prems(5)] in auto)
qed

lemma callback_safe:
  assumes I: "sound K U w" and c: "callable U cb a w"
  shows "ends K U {} w (run_callback K U X n cb a w) (\<lambda>_ _. True)"
proof -
  have U: "list_all callback_cmd (U u a w)" for u
    using I by (simp add: sound_but_def env_ok_def disciplined_def)
  have shy: "list_all (\<lambda>c. connecting c \<longrightarrow> calm U w) (U u a w)" for u
    by (cases "timid U") (auto simp: timid_def calm_def list_all_iff)
  have tcp: "ends K U {} w (X (Server_obj i) t a' w) (\<lambda>_ _. True)"
    if "t \<noteq> ERROR" "get_action t (server_actions_list []) = Some (t, args_prototype a')" "args_live a' w" for i t a'
    by (rule ends_any, rule exec_free [OF I]) (use that in simp_all)
  have client: "ends K U {} w (X (Client_obj i) t a' w) (\<lambda>_ _. True)"
    if "t \<noteq> ERROR" "get_action t (client_actions_list []) = Some (t, args_prototype a')" "args_live a' w" for i t a'
    by (rule ends_any, rule exec_free [OF I]) (use that in simp_all)
  have udp: "ends K U {} w (X (Socket_obj p) t a' w) (\<lambda>_ _. True)"
    if "heap w p = Some s" "sclass s = Udp_socket" "t \<noteq> CLOSED" "t \<noteq> READABLE"
      "get_action t (class_actions Udp_socket) = Some (t, args_prototype a')" for p s t a'
  proof -
    have "doomed (Socket_obj p) t w = {}" using that(3) by (cases t) simp_all
    then show ?thesis
      by (intro ends_any [OF exec_free [OF I]]) (use that in simp_all)
  qed
  show ?thesis
    using c
  proof (cases cb)
    case (User u)
    have "careful U w \<longrightarrow> checks (datagrams w ++ arg_scope a) (U u a w)"
      by (simp add: careful_def)
    moreover have "solitary w \<longrightarrow> datagrams w ++ arg_scope a \<subseteq>\<^sub>m scope_of w"
      using c User by (cases a) (auto simp: datagrams_def forget_def map_le_def map_add_def connection_live_def scope_of_def
          split: option.splits if_splits)
    ultimately show ?thesis
      using User run_cmds_safe [OF I U shy I steps_refl, where E = "datagrams w ++ arg_scope a"]
      by (simp add: tidy_def)
  next
    case (Udp_closed p)
    then show ?thesis
      using c by (auto intro!: ends_get_sock udp simp: action_list_defs)
  qed (use I c in \<open>auto intro!: tcp client udp ends_discard accept_safe op_safe send_flush_safe simp: action_list_defs\<close>)
qed

end

end
