(* ===== verification/Execution_Safety.thy ===== *)
theory Execution_Safety
  imports Contract_Calls
begin

text \<open>
  One level of execution keeps the contract, so the executor of the program has it at every depth.
\<close>

section \<open>Executing an action\<close>

lemma args_of_prototype:
  "args_prototype a = P_bytes \<Longrightarrow> \<exists>b. a = A_bytes b"
  "args_prototype a = P_address_bytes \<Longrightarrow> \<exists>x b. a = A_address_bytes x b"
  "args_prototype a = P_error \<Longrightarrow> \<exists>f e. a = A_error f e"
  by (cases a; simp)+

lemma error_action:
  "get_action ERROR (class_actions c) = Some (ERROR, P_error)"
  "get_action ERROR (server_actions_list []) = Some (ERROR, P_error)"
  "get_action ERROR (client_actions_list []) = Some (ERROR, P_error)"
  by (cases c; simp add: action_list_defs)+

lemma error_prototype: "legit U ob ERROR a w \<Longrightarrow> \<exists>f e. a = A_error f e"
  by (cases ob) (auto intro!: args_of_prototype(3) simp: error_action)

text \<open>The actions of sockets have no connection among their arguments.\<close>

lemma class_args_live: "get_action t (class_actions c) = Some (t, args_prototype a) \<Longrightarrow> args_live a w"
  by (cases a; cases c; cases t) (simp_all add: action_list_defs)

definition is_erase :: "callback \<Rightarrow> bool" where
  "is_erase cb \<longleftrightarrow> (\<exists>c k. cb = Container_erase c k)"

lemma callable_listed:
  assumes I: "sound K U w" and s: "heap w p = Some s" and cb: "cb \<in> exec ` set (sactions s t)"
    and t: "get_action t (class_actions (sclass s)) = Some (t, args_prototype a)" and "\<not> is_erase cb"
    and open_read: "sclass s = Tcp_connection \<Longrightarrow> t = READABLE \<Longrightarrow> 0 \<le> sock_fd s"
      "sclass s = Tcp_connection \<Longrightarrow> t = READABLE \<Longrightarrow> calm U w"
  shows "callable U cb a w"
proof -
  have shape: "sock_shape p s" by (rule soundD(9) [OF I s])
  show ?thesis
  proof (cases "sclass s")
    case Tcp_connection
    show ?thesis
    proof (cases "t = CLOSED")
      case True
      then have "closing_hook p cb"
        using shape cb assms(5) Tcp_connection
        by (auto simp: sock_shape_def tcp_shape_def is_erase_def)
      then show ?thesis using s Tcp_connection by (auto simp: closing_hook_def connection_live_def)
    next
      case False
      then have "tcp_callback p t cb"
        using shape cb Tcp_connection by (auto simp: sock_shape_def tcp_shape_def)
      moreover have "hook_allows cb (the (phases (trace w) (sock_fd s))) \<and> phases (trace w) (sock_fd s) \<noteq> None" if "t = READABLE"
        using fd_fits [OF I s open_read(1) [OF Tcp_connection that]] cb Tcp_connection that by (auto simp: fits_def allows_def)
      ultimately show ?thesis
        using t Tcp_connection s open_read(2)
        by (cases t) (auto simp: action_list_defs connection_live_def dest!: args_of_prototype(1) [OF sym])
    qed
  next
    case Raw_socket
    then have "is_user cb"
      using shape cb by (auto simp: sock_shape_def)
    then show ?thesis using class_args_live [OF t] by (cases cb) simp_all
  next
    case Udp_socket
    then have "datagram_callback p t cb"
      using shape cb by (auto simp: sock_shape_def)
    then show ?thesis
      using t Udp_socket s class_args_live [OF t]
      by (cases cb) (auto simp: action_list_defs dest!: args_of_prototype(2) [OF sym])
  qed
qed

lemma actions_steps:
  assumes "steps {} w0 w" and "sound K U w0"
    and "\<And>p s. ob = Socket_obj p \<Longrightarrow> heap w0 p = Some s \<Longrightarrow> persistent s" and "actions_of ob w0 = Some acts"
  shows "actions_of ob w = Some acts"
proof (cases ob)
  case (Socket_obj p)
  then obtain s where s: "heap w0 p = Some s" "acts = sactions s"
    using assms(4) by auto
  then obtain s' where "heap w p = Some s'" "sactions s' = sactions s"
    using steps_alive [OF assms(1,2) s(1) assms(3) [OF Socket_obj s(1)]] by blast
  then show ?thesis using Socket_obj s(2) by simp
qed (use assms(1,4) in \<open>simp_all add: steps_def\<close>)

text \<open>
  The states in between the callbacks of an execution that began in \<open>w0\<close>, and the callbacks that
  keep them: all but the erasing one.
\<close>

definition executing :: "kernel \<Rightarrow> user_program \<Rightarrow> obj \<Rightarrow> tag \<Rightarrow> args \<Rightarrow> world \<Rightarrow> world \<Rightarrow> bool" where
  "executing K U ob t a w0 w \<longleftrightarrow> sound K U w0 \<and> applicable ob t a w0 \<and> sound K U w \<and> steps {} w0 w \<and>
     (\<forall>p s. ob = Socket_obj p \<longrightarrow> heap w0 p = Some s \<longrightarrow> persistent s) \<and>
     ((\<exists>p. ob = Socket_obj p) \<or> \<not> solitary w0)"

definition listed :: "obj \<Rightarrow> tag \<Rightarrow> world \<Rightarrow> callback set" where
  "listed ob t w = {cb. \<not> is_erase cb \<and> (\<exists>acts. actions_of ob w = Some acts \<and> cb \<in> exec ` set (acts t))}"

lemma callable_executing:
  assumes ex: "executing K U ob t a w0 w" and cb: "cb \<in> listed ob t w0"
  shows "callable U cb a w"
proof -
  have I: "sound K U w0" "applicable ob t a w0" "sound K U w" "steps {} w0 w"
    using ex by (simp_all add: executing_def)
  obtain acts where acts: "actions_of ob w0 = Some acts" "cb \<in> exec ` set (acts t)" "\<not> is_erase cb"
    using cb by (auto simp: listed_def)
  have user: "is_user cb \<Longrightarrow> \<not> solitary w0 \<Longrightarrow> ?thesis"
    using solitary_steps [OF I(4)] by (cases cb) simp_all
  show ?thesis
  proof (cases ob)
    case (Socket_obj p)
    then obtain s where s: "heap w0 p = Some s" "acts = sactions s"
        "get_action t (class_actions (sclass s)) = Some (t, args_prototype a)"
        "sclass s = Tcp_connection \<Longrightarrow> t = READABLE \<Longrightarrow> 0 \<le> sock_fd s"
      using acts(1) I(2) by auto
    have "persistent s" using ex Socket_obj s(1) by (simp add: executing_def)
    then have not_read: "\<not> (sclass s = Tcp_connection \<and> t = READABLE)"
      using s(4) by (auto simp: persistent_def)
    obtain s' where s': "heap w p = Some s'" "sclass s' = sclass s" "sactions s' = sactions s"
      using steps_alive [OF I(4,1) s(1) \<open>persistent s\<close>] by auto
    show ?thesis
      by (rule callable_listed [OF I(3) s'(1), of cb t a]) (use not_read acts(2,3) s s' in auto)
  next
    case (Server_obj i)
    then have "is_user cb"
      using I(1) acts(1,2) by (auto simp: sound_but_def tables_ok_def)
    then show ?thesis using user ex Server_obj by (simp add: executing_def)
  next
    case (Client_obj i)
    then have "is_user cb"
      using I(1) acts(1,2) by (auto simp: sound_but_def tables_ok_def)
    then show ?thesis using user ex Client_obj by (simp add: executing_def)
  qed
qed

lemma ends_triple:
  assumes "triple I m (\<lambda>_. J) (blamed K U w)" and "I w" and "\<And>w'. J w' \<Longrightarrow> sound K U w' \<and> steps D w w' \<and> Q w'"
  shows "ends K U D w (m w) (\<lambda>_. Q)"
  using assms by (auto simp: triple_def ends_def split: sum.splits)

lemma echoes_actions: "echoes w0 w \<Longrightarrow> actions_of ob w = actions_of ob w0"
  by (cases ob) (auto simp: echoes_def)

lemma error_user: "sock_shape p s \<Longrightarrow> cb \<in> set (sactions s ERROR) \<Longrightarrow> is_user (exec cb)"
  by (cases "sclass s"; cases "exec cb") (force simp: sock_shape_def tcp_shape_def)+

lemma not_doomed:
  assumes "sound K U w" and "inert ob t w"
  shows "p \<notin> doomed ob t w"
proof
  assume "p \<in> doomed ob t w"
  then obtain s where s: "ob = Socket_obj p" "t = CLOSED" "heap w p = Some s" "sclass s = Tcp_connection"
    by (auto simp: doomed_iff)
  then have "sactions s CLOSED \<noteq> []"
    using soundD(9) [OF assms(1) s(3)] by (auto simp: sock_shape_def tcp_shape_def)
  then show False
    using assms(2) s by (simp add: inert_def)
qed

lemma user_no_erase: "is_user cb \<Longrightarrow> \<not> is_erase cb"
  by (cases cb) (simp_all add: is_erase_def)

lemma datagram_listed:
  assumes "sock_shape p s" and "sclass s \<noteq> Tcp_connection" and "cb \<in> set (sactions s t)"
  shows "\<not> is_erase (exec cb)"
  using assms by (cases "sclass s"; cases "exec cb") (force simp: sock_shape_def is_erase_def)+

context executor_contract begin

sublocale executions: callback_execution "touch_list ob t (the (actions_of ob w0) t)"
  "\<lambda>cb. run_callback K U X n cb a" "executing K U ob t a w0" "blamed K U w0" "listed ob t w0" for ob t a w0 n
proof
  fix w assume ex: "executing K U ob t a w0 w"
  then obtain acts where "actions_of ob w0 = Some acts"
    by (cases ob) (auto simp: executing_def)
  moreover from this have "actions_of ob w = Some acts"
    using ex by (intro actions_steps [of w0 w K U ob]) (auto simp: executing_def)
  ultimately show "touch_list ob t (the (actions_of ob w0) t) w = Inr ((), w)"
    by (simp add: touch_list_def)
next
  fix cb assume cb: "cb \<in> listed ob t w0"
  show "triple (executing K U ob t a w0) (run_callback K U X n cb a) (\<lambda>_. executing K U ob t a w0) (blamed K U w0)"
    unfolding triple_def
  proof (intro allI impI)
    fix w assume ex: "executing K U ob t a w0 w"
    have "ends K U {} w (run_callback K U X n cb a w) (\<lambda>_ _. True)"
      using callback_safe [OF _ callable_executing [OF ex cb]] ex by (simp add: executing_def)
    moreover have "steps {} w w' \<Longrightarrow> steps {} w0 w'" for w'
      using ex steps_trans by (auto simp: executing_def)
    moreover have "blamed K U w e \<Longrightarrow> blamed K U w0 e" for e
      using ex blamed_steps [of "{}" w0 w] by (simp add: executing_def)
    ultimately show "case run_callback K U X n cb a w of Inl e \<Rightarrow> blamed K U w0 e
        | Inr (u, w') \<Rightarrow> executing K U ob t a w0 w'"
      using ex by (auto simp: ends_def executing_def split: sum.splits)
  qed
qed

text \<open>Callbacks on errors only print.\<close>

sublocale errors: callback_execution "touch_list ob ERROR (the (actions_of ob w0) ERROR)"
  "\<lambda>cb. run_callback K U X n cb (A_error f e)" "\<lambda>w. sound K U w0 \<and> actions_of ob w0 \<noteq> None \<and> echoing K U w0 w" "blamed K U w0"
  "Collect is_user" for ob w0 f e n
proof
  fix w assume "sound K U w0 \<and> actions_of ob w0 \<noteq> None \<and> echoing K U w0 w"
  then obtain acts where "actions_of ob w0 = Some acts" "actions_of ob w = Some acts"
    using echoes_actions [of w0 w ob] by (auto simp: echoing_def)
  then show "touch_list ob ERROR (the (actions_of ob w0) ERROR) w = Inr ((), w)"
    by (simp add: touch_list_def)
next
  fix cb assume "cb \<in> Collect is_user"
  then obtain u where cb: "cb = User u" by (cases cb) simp_all
  have cmds: "triple (echoing K U w0) (run_all (run_cmd K X n) cs) (\<lambda>_. echoing K U w0) (blamed K U w0)"
    if "list_all printing cs" "tidy U w0 \<longrightarrow> checks (scope_of w0) cs" for cs
    using that
  proof (induction cs)
    case Nil
    show ?case by (simp add: triple_ret)
  next
    case (Cons c cs)
    then obtain items where c: "c = Print items" "list_all printable items"
      by (cases c) simp_all
    have "triple (echoing K U w0) (run_cmd K X n c) (\<lambda>_. echoing K U w0) (blamed K U w0)"
      using c Cons.prems(2) by (auto intro: print_echoing)
    moreover have "triple (echoing K U w0) (run_all (run_cmd K X n) cs) (\<lambda>_. echoing K U w0) (blamed K U w0)"
      using c Cons.prems by (intro Cons.IH) auto
    ultimately show ?case
      unfolding run_all.simps by (rule triple_andThen)
  qed
  show "triple (\<lambda>w. sound K U w0 \<and> actions_of ob w0 \<noteq> None \<and> echoing K U w0 w) (run_callback K U X n cb (A_error f e))
      (\<lambda>_ w. sound K U w0 \<and> actions_of ob w0 \<noteq> None \<and> echoing K U w0 w) (blamed K U w0)"
    unfolding triple_def cb run_callback.simps
  proof (intro allI impI)
    fix w assume w: "sound K U w0 \<and> actions_of ob w0 \<noteq> None \<and> echoing K U w0 w"
    then have p: "list_all printing (U u (A_error f e) w)"
      by (simp add: echoing_def sound_but_def env_ok_def disciplined_def)
    have "careful U w0 \<longrightarrow> checks (datagrams w0 ++ arg_scope (A_error f e)) (U u (A_error f e) w)"
      unfolding careful_def by blast
    then have "tidy U w0 \<longrightarrow> checks (scope_of w0) (U u (A_error f e) w)"
      using checks_mono [OF _ forget_le] by (auto simp: tidy_def datagrams_def)
    note run = cmds [OF p this]
    show "case run_all (run_cmd K X n) (U u (A_error f e) w) w of Inl e \<Rightarrow> blamed K U w0 e
        | Inr (a, s') \<Rightarrow> sound K U w0 \<and> actions_of ob w0 \<noteq> None \<and> echoing K U w0 s'"
      using tripleD [OF run, of w] tripleD_fault [OF run, of w] w by (auto split: sum.splits)
  qed
qed

lemma inert_echoes:
  assumes I: "sound K U w" and l: "legit U ob t a w" and "inert ob t w"
  shows "ends K U {} w (execute_action (run_callback K U X n) ob t a w) (\<lambda>_ w'. echoes w w')"
proof -
  obtain acts types where acts: "actions_of ob w = Some acts" "types_of ob w = Some types"
      "get_action t types = Some (t, args_prototype a)"
    using l by (cases ob) auto
  note run = execute_action_apply [OF acts, of "run_callback K U X n"]
  show ?thesis
  proof (cases "acts t = []")
    case True
    then show ?thesis using I by (simp add: run prog_simps)
  next
    case False
    then have t: "t = ERROR"
      using assms(3) acts(1) by (auto simp: inert_def)
    then obtain f e where a: "a = A_error f e"
      using error_prototype l by blast
    have user: "is_user (exec cb)" if cb: "cb \<in> set (acts ERROR)" for cb
    proof (cases ob)
      case (Socket_obj p)
      then obtain s where s: "heap w p = Some s" "acts = sactions s"
        using acts(1) by auto
      then show ?thesis
        using error_user [OF soundD(9) [OF I s(1)]] cb by simp
    qed (use I acts(1) cb in \<open>auto simp: sound_but_def tables_ok_def\<close>)
    then have "exec ` set (acts ERROR) \<subseteq> Collect is_user" by auto
    from errors.execute_triple [OF this, of w ob n f e]
    have tr: "triple (\<lambda>w'. sound K U w \<and> actions_of ob w \<noteq> None \<and> echoing K U w w')
        (execute_list (touch_list ob t (acts t)) (\<lambda>cb. run_callback K U X n cb a) (acts t))
        (\<lambda>_ w'. sound K U w \<and> actions_of ob w \<noteq> None \<and> echoing K U w w') (blamed K U w)"
      using acts(1) by (simp add: t a)
    show ?thesis
      unfolding run using tripleD [OF tr, of w] tripleD_fault [OF tr, of w] I acts(1)
      by (auto simp: ends_def echoing_def split: sum.splits)
  qed
qed

text \<open>
  A list of at most one callback may change under it: connections have no longer ones, but on \<open>CLOSED\<close>.
\<close>

lemma execute_short:
  assumes I: "sound K U w" and acts: "actions_of ob w = Some acts" "types_of ob w = Some types"
      "get_action t types = Some (t, args_prototype a)"
    and short: "length (acts t) \<le> 1" and c: "\<forall>cb \<in> set (acts t). callable U (exec cb) a w"
  shows "ends K U {} w (execute_action (run_callback K U X n) ob t a w) (\<lambda>_ _. True)"
proof -
  note run = execute_action_apply [OF acts, of "run_callback K U X n"]
  show ?thesis
  proof (cases "acts t")
    case Nil
    then show ?thesis using I by (simp add: run prog_simps)
  next
    case (Cons cb cbs)
    then have l: "acts t = [cb]" using short by simp
    have "ends K U {} w (run_callback K U X n (exec cb) a w) (\<lambda>_ _. True)"
      using c l by (intro callback_safe [OF I]) simp
    moreover have "touch_list ob t [cb] w = Inr ((), w)"
      using acts(1) l by (simp add: touch_list_def)
    ultimately show ?thesis
      using I unfolding run l by (auto simp: prog_simps ends_def split: sum.splits)
  qed
qed

lemma execute_single:
  assumes I: "sound K U w" and s: "heap w p = Some s" "sclass s = Tcp_connection" and t: "t \<noteq> CLOSED"
    and l: "legit U (Socket_obj p) t a w"
  shows "ends K U {} w (execute_action (run_callback K U X n) (Socket_obj p) t a w) (\<lambda>_ _. True)"
proof (rule execute_short [OF I])
  have shape: "length (sactions s t) \<le> 1" "\<forall>cb \<in> set (sactions s t). tcp_callback p t (exec cb)"
    using soundD(9) [OF I s(1)] s(2) t by (auto simp: sock_shape_def tcp_shape_def)
  show "actions_of (Socket_obj p) w = Some (sactions s)" "types_of (Socket_obj p) w = Some (class_actions Tcp_connection)"
      "get_action t (class_actions Tcp_connection) = Some (t, args_prototype a)" "length (sactions s t) \<le> 1"
    using s l shape(1) by simp_all
  show "\<forall>cb \<in> set (sactions s t). callable U (exec cb) a w"
  proof
    fix cb assume cb: "cb \<in> set (sactions s t)"
    then have "\<not> is_erase (exec cb)"
      using shape(2) by (cases t) (auto simp: is_erase_def)
    then show "callable U (exec cb) a w"
      using callable_listed [OF I s(1), of "exec cb" t a] cb l s by auto
  qed
qed

text \<open>Actions of servers and clients have user callbacks only.\<close>

lemma execute_solitary:
  assumes I: "sound K U w" and l: "legit U ob t a w" and ob: "ob = Server_obj i \<or> ob = Client_obj i" and "solitary w"
  shows "ends K U {} w (execute_action (run_callback K U X n) ob t a w) (\<lambda>_ _. True)"
proof -
  obtain acts types where acts: "actions_of ob w = Some acts" "types_of ob w = Some types"
      "get_action t types = Some (t, args_prototype a)" "acts = srv_actions (servers w i) \<or> acts = cl_actions (clients w i)"
    using l ob by (elim disjE) auto
  moreover have "callable U (exec cb) a w" if "cb \<in> set (acts t)" for cb
  proof -
    have "is_user (exec cb)"
      using that I acts(4) by (auto simp: sound_but_def tables_ok_def)
    then show ?thesis
      using l ob by (cases "exec cb") auto
  qed
  moreover have "length (acts t) \<le> 1"
    using assms(4) acts(4) by (auto simp: solitary_def)
  ultimately show ?thesis
    by (intro execute_short [OF I]) auto
qed

text \<open>A list of which no callback destroys the socket it belongs to runs to its end.\<close>

lemma execute_listed:
  assumes I: "sound K U w" and l: "legit U ob t a w"
    and acts: "actions_of ob w = Some acts" "exec ` set (acts t) \<subseteq> listed ob t w"
    and old: "\<And>p s. ob = Socket_obj p \<Longrightarrow> heap w p = Some s \<Longrightarrow> persistent s"
    and many: "(\<exists>p. ob = Socket_obj p) \<or> \<not> solitary w"
  shows "ends K U {} w (execute_action (run_callback K U X n) ob t a w) (\<lambda>_ _. True)"
proof -
  obtain types where types: "types_of ob w = Some types" "get_action t types = Some (t, args_prototype a)"
    using l by (cases ob) auto
  have "triple (executing K U ob t a w) (execute_list (touch_list ob t (the (actions_of ob w) t))
      (\<lambda>cb. run_callback K U X n cb a) (acts t)) (\<lambda>_. executing K U ob t a w) (blamed K U w)"
    by (rule executions.execute_triple [OF acts(2)])
  then show ?thesis
    unfolding execute_action_apply [OF acts(1) types] using I l old many acts(1)
    by (intro ends_triple [where I = "executing K U ob t a w" and J = "executing K U ob t a w"])
      (auto simp: executing_def legit_def)
qed

text \<open>Servers and clients: user callbacks, one or many.\<close>

lemma execute_table:
  assumes I: "sound K U w" and l: "legit U ob t a w" and ob: "ob = Server_obj i \<or> ob = Client_obj i"
  shows "ends K U {} w (execute_action (run_callback K U X n) ob t a w) (\<lambda>_ _. True)"
proof (cases "solitary w")
  case True
  then show ?thesis by (rule execute_solitary [OF I l ob])
next
  case False
  obtain acts where acts: "actions_of ob w = Some acts" "acts = srv_actions (servers w i) \<or> acts = cl_actions (clients w i)"
    using l ob by (elim disjE) auto
  then have "\<not> is_erase (exec cb)" if "cb \<in> set (acts t)" for cb
    using that I by (intro user_no_erase) (auto simp: sound_but_def tables_ok_def)
  then have "exec ` set (acts t) \<subseteq> listed ob t w"
    using acts(1) by (auto simp: listed_def)
  then show ?thesis
    using False ob by (intro execute_listed [OF I l acts(1)]) auto
qed

text \<open>The \<open>CLOSED\<close> action of a connection: its hooks leave it alive, the last callback destroys it.\<close>

lemma execute_closing:
  assumes I: "sound K U w" and l: "legit U (Socket_obj p) CLOSED a w"
    and s: "heap w p = Some s" "sclass s = Tcp_connection"
  shows "ends K U {p} w (execute_action (run_callback K U X n) (Socket_obj p) CLOSED a w) (\<lambda>_ w'. heap w' p = None)"
proof -
  let ?ob = "Socket_obj p" and ?gone = "\<lambda>w'. sound K U w' \<and> steps {p} w w' \<and> heap w' p = None"
  have types: "actions_of ?ob w = Some (sactions s)" "types_of ?ob w = Some (class_actions (sclass s))"
      "get_action CLOSED (class_actions (sclass s)) = Some (CLOSED, args_prototype a)" and fd: "sock_fd s < 0"
    using l s by auto
  obtain pre c k where list: "sactions s CLOSED = pre @ [erase_callback c k]"
      "\<forall>cb \<in> set pre. flags cb = 0 \<and> closing_hook p (exec cb)"
    using soundD(9) [OF I s(1)] s(2) by (auto simp: sock_shape_def tcp_shape_def)
  have pre: "exec ` set pre \<subseteq> listed ?ob CLOSED w"
    using list s(1) by (auto simp: listed_def is_erase_def closing_hook_def)
  have erase: "triple (executing K U ?ob CLOSED a w) (run_callback K U X n (exec (erase_callback c k)) a) (\<lambda>_. ?gone) (blamed K U w)"
    unfolding triple_def
  proof (intro allI impI)
    fix w' assume "executing K U ?ob CLOSED a w w'"
    then have I': "sound K U w'" "steps {} w w'" by (simp_all add: executing_def)
    obtain s' where s': "heap w' p = Some s'" "persistent s'" "sclass s' = sclass s" "sactions s' = sactions s"
      using steps_alive [OF I'(2) I s(1)] fd by (auto simp: persistent_def)
    have "home s' = Some (c, k)"
      by (rule home_eq) (simp add: s'(4) list(1))
    then obtain w2 where "container_erase c k w' = Inr ((), w2)" "sound K U w2" "steps {p} w' w2" "heap w2 p = None"
      using inv_erase [OF I'(1) s'(1)] s'(2,3) s(2) by (auto simp: persistent_def)
    then show "case run_callback K U X n (exec (erase_callback c k)) a w' of Inl e \<Rightarrow> blamed K U w e | Inr (u, w2) \<Rightarrow> ?gone w2"
      using steps_trans [OF steps_mono [OF I'(2)]] by simp
  qed
  have "triple (executing K U ?ob CLOSED a w) (execute_list (touch_list ?ob CLOSED (the (actions_of ?ob w) CLOSED))
      (\<lambda>cb. run_callback K U X n cb a) (pre @ [erase_callback c k])) (\<lambda>_. ?gone) (blamed K U w)"
    by (rule executions.execute_last_triple [OF pre _ _ erase]) (use list(2) in \<open>simp_all add: stops_def\<close>)
  moreover have "executing K U ?ob CLOSED a w w"
    using I l s fd by (simp add: executing_def persistent_def)
  ultimately show ?thesis
    unfolding execute_action_apply [OF types] using s(1) list(1)
    by (intro ends_triple [where I = "executing K U ?ob CLOSED a w" and J = ?gone]) simp_all
qed

lemma exec_step:
  assumes I: "sound K U w" and l: "legit U ob t a w"
  shows "ends K U (doomed ob t w) w (execute_action (run_callback K U X n) ob t a w)
    (\<lambda>_ w'. (inert ob t w \<longrightarrow> echoes w w') \<and> (\<forall>p \<in> doomed ob t w. heap w' p = None))"
proof (cases "inert ob t w")
  case True
  have "doomed ob t w = {}"
    using True not_doomed [OF I] by blast
  then show ?thesis
    by (intro ends_weaken [OF ends_widen [OF inert_echoes [OF I l True]]]) simp_all
next
  case False
  have "ends K U (doomed ob t w) w (execute_action (run_callback K U X n) ob t a w)
      (\<lambda>_ w'. \<forall>p \<in> doomed ob t w. heap w' p = None)"
  proof (cases "\<exists>i. ob = Server_obj i \<or> ob = Client_obj i")
    case True
    then have "doomed ob t w = {}" by auto
    then show ?thesis using execute_table [OF I l] True by (auto simp: ends_any)
  next
    case False
    then obtain p where ob: "ob = Socket_obj p" by (cases ob) auto
    then obtain s where s: "heap w p = Some s" using l by auto
    consider (datagram) "sclass s \<noteq> Tcp_connection" | (single) "sclass s = Tcp_connection" "t \<noteq> CLOSED"
      | (closing) "sclass s = Tcp_connection" "t = CLOSED"
      by blast
    then show ?thesis
    proof cases
      case datagram
      have "ends K U {} w (execute_action (run_callback K U X n) ob t a w) (\<lambda>_ _. True)"
        using s datagram datagram_listed [OF soundD(9) [OF I s]] unfolding ob
        by (intro execute_listed [OF I l [unfolded ob]]) (auto simp: listed_def persistent_def)
      moreover have "doomed ob t w = {}" using s datagram by (auto simp: ob doomed_iff)
      ultimately show ?thesis by (simp add: ends_any)
    next
      case single
      then have "doomed ob t w = {}" by (cases t) (simp_all add: ob)
      then show ?thesis
        using execute_single [OF I s single] l ob by (simp add: ends_any)
    next
      case closing
      then have "doomed ob t w = {p}" using s by (auto simp: ob)
      then show ?thesis
        using execute_closing [OF I _ s closing(1)] l closing(2) ob by simp
    qed
  qed
  then show ?thesis using False by (elim ends_weaken) simp
qed

end

section \<open>The executor of the program\<close>

lemma execute_contract: "executor_contract K U (execute K U n)"
proof (induction n)
  case 0
  show ?case by unfold_locales (simp_all add: prog_simps spends_def)
next
  case (Suc n)
  show ?case
  proof
    fix w ob t a assume "sound K U w" "legit U ob t a w"
    then show "ends K U (doomed ob t w) w (execute K U (Suc n) ob t a w)
      (\<lambda>_ w'. (inert ob t w \<longrightarrow> echoes w w') \<and> (\<forall>p \<in> doomed ob t w. heap w' p = None))"
      by (simp add: executor_contract.exec_step [OF Suc.IH])
  next
    fix ob t a w acts assume a: "applicable ob t a w" "actions_of ob w = Some acts" "acts t = []"
    then obtain types where "types_of ob w = Some types" "get_action t types = Some (t, args_prototype a)"
      by (cases ob) auto
    then show "execute K U (Suc n) ob t a w = Inr ((), w) \<or> execute K U (Suc n) ob t a w = Inl OutOfFuel"
      using a by (simp add: execute_action_empty)
  qed (rule execute_cost)
qed

interpretation program: executor_contract K U "execute K U n" for K U n
  by (rule execute_contract)

end
