(* ===== verification/Reachability.thy ===== *)
theory Reachability
  imports Execution_Safety
begin

text \<open>
  The main program: registrations and constructors keep the invariant, and the worlds a program can reach
  by its calls are sound and, between the calls, at rest.
\<close>

section \<open>Registrations and constructors\<close>

text \<open>
  The main program may also register callbacks, on everything but connections (their lists are the
  library's).
\<close>

fun main_cmd :: "cmd \<Rightarrow> bool" where
  "main_cmd (Connection_on p t u fl) = False"
| "main_cmd (Print items) = list_all printable items"
| "main_cmd c = True"

lemma main_cmd_cases: "main_cmd c \<Longrightarrow> callback_cmd c \<or> (\<exists>i t u fl. c = Server_on i t u fl) \<or>
    (\<exists>i t u fl. c = Client_on i t u fl) \<or> (\<exists>p t u fl. c = Socket_on p t u fl)"
  by (cases c) auto

text \<open>Changes of servers and clients that keep the stored sockets and register only user callbacks.\<close>

lemma sound_tables:
  assumes I: "sound K U w"
    and w': "handlers w' = handlers w" "next_handler w' = next_handler w" "heap w' = heap w"
      "next_ptr w' = next_ptr w" "trace w' = trace w"
    and c: "\<And>c k p. stored w' c k p = stored w c k p" "\<And>c. map_wf (c_sockets (get_container c w'))"
      "\<And>c. c_handler (get_container c w') < next_handler w"
      "\<And>c k p. stored w c k p \<Longrightarrow> c_handler (get_container c w') = c_handler (get_container c w)"
    and cb: "\<And>j t cb. cb \<in> set (srv_actions (servers w' j) t) \<Longrightarrow> cb \<in> set (srv_actions (servers w j) t) \<or> is_user (exec cb)"
      "\<And>j t cb. cb \<in> set (cl_actions (clients w' j) t) \<Longrightarrow> cb \<in> set (cl_actions (clients w j) t) \<or> is_user (exec cb)"
  shows "sound K U w'"
proof -
  have "tables_ok w'"
    using I cb unfolding sound_but_def tables_ok_def by blast
  moreover have "containers_ok w'"
    using I c unfolding sound_but_def containers_ok_def by (simp add: w')
  moreover have "registry_ok w' = registry_ok w" "fds_ok w' = fds_ok w" "heap_ok w' = heap_ok w"
      "handlers_ok w' = handlers_ok w"
      "polled_ok w' = polled_ok w" "protocol_ok K w' = protocol_ok K w" "owners_ok {} U w' = owners_ok {} U w"
    by (simp_all add: owners_ok_def registry_ok_def fds_ok_def heap_ok_def handlers_ok_def polled_ok_def protocol_ok_def w')
  moreover have "places_ok w'"
    unfolding places_ok_def w'
  proof (intro allI impI)
    fix p s c' k assume a: "heap w p = Some s" "sclass s = Tcp_connection" "home s = Some (c', k)"
    then have "stored w c' k p"
      using soundD(13) [OF I a(1,2)] by auto
    then show "(0 \<le> sock_fd s \<longrightarrow> sock_fd s = k) \<and> shandler s = c_handler (get_container c' w')"
      using in_place [OF I a] c(4) by simp
  qed
  ultimately show ?thesis
    using I by (simp add: sound_but_def)
qed

lemma table_on_sound:
  assumes I: "sound K U w"
  shows "sound K U (put_actions (Server_obj i) ((srv_actions (servers w i))(t := add_callback (User u) fl (srv_actions (servers w i) t))) w)"
    "sound K U (put_actions (Client_obj i) ((cl_actions (clients w i))(t := add_callback (User u) fl (cl_actions (clients w i) t))) w)"
proof -
  have cont: "get_container c (w\<lparr>servers := (servers w)(i := (servers w i)\<lparr>srv_actions := T\<rparr>)\<rparr>) = get_container c w"
    "get_container c (w\<lparr>clients := (clients w)(i := (clients w i)\<lparr>cl_actions := T\<rparr>)\<rparr>) = get_container c w" for c T
    by (cases c; simp)+
  show "sound K U (put_actions (Server_obj i) ((srv_actions (servers w i))(t := add_callback (User u) fl (srv_actions (servers w i) t))) w)"
    by (rule sound_tables [OF I])
      (auto simp: stored_def cont set_add_callback soundD(10,11) [OF I] split: if_splits)
  show "sound K U (put_actions (Client_obj i) ((cl_actions (clients w i))(t := add_callback (User u) fl (cl_actions (clients w i) t))) w)"
    by (rule sound_tables [OF I])
      (auto simp: stored_def cont set_add_callback soundD(10,11) [OF I] split: if_splits)
qed

lemma socket_on_sound:
  assumes I: "sound K U w" and s: "heap w p = Some s"
    and cb: "sclass s = Udp_socket \<and> datagram_callback p t cb \<or> sclass s = Raw_socket \<and> is_user cb"
  shows "sound K U (w\<lparr>heap := (heap w)(p \<mapsto> s\<lparr>sactions := (sactions s)(t := add_callback cb fl (sactions s t))\<rparr>)\<rparr>)"
proof (rule inv_replace [OF I s])
  let ?s = "s\<lparr>sactions := (sactions s)(t := add_callback cb fl (sactions s t))\<rparr>"
  have "sock_shape p ?s"
    using soundD(9) [OF I s] cb by (auto simp: sock_shape_def set_add_callback)
  then show "same_place p ?s s"
    using cb by (auto simp: same_place_def)
  show "fits (phases (trace w)) ?s" if "0 \<le> sock_fd ?s"
    using that fd_fits [OF I s] cb by (auto simp: fits_def allows_def)
qed

lemma user_datagram: "datagram_callback p t (User u)" "is_user (User u)"
  by simp_all

lemma registration_sound:
  assumes I: "sound K U w" and "run_cmd K X n c w = Inr (x, w')"
    and c: "c = Server_on i t u fl \<or> c = Client_on i t u fl \<or> c = Socket_on p t u fl"
  shows "sound K U w'"
proof -
  have "on (Server_obj i) t (User u) fl w = Inr (x, w') \<Longrightarrow> ?thesis"
    "on (Client_obj i) t (User u) fl w = Inr (x, w') \<Longrightarrow> ?thesis"
    using table_on_sound [OF I] by (auto simp: on_def split: option.splits)
  moreover have "run_cmd K X n (Socket_on p t u fl) w = Inr (x, w') \<Longrightarrow> ?thesis"
  proof -
    assume r: "run_cmd K X n (Socket_on p t u fl) w = Inr (x, w')"
    then obtain s where s: "heap w p = Some s" "sclass s \<noteq> Tcp_connection"
      by (auto simp: live_def prog_simps split: option.splits if_splits sum.splits)
    then have "sclass s = Udp_socket \<and> datagram_callback p t (User u) \<or> sclass s = Raw_socket \<and> is_user (User u)"
      by (cases "sclass s") simp_all
    note shape = socket_on_sound [OF I s(1) this, of fl]
    show ?thesis
      using r s shape by (auto simp: live_def prog_simps on_def split: option.splits if_splits sum.splits)
  qed
  ultimately show ?thesis using assms(2) c by auto
qed

lemma registration_faults:
  assumes "run_cmd K X n c w = Inl e"
    and "c = Server_on i t u fl \<or> c = Client_on i t u fl \<or> c = Socket_on p t u fl"
  shows "e = NoSuchAction \<or> e = Misuse \<and> \<not> permits (scope_of w) c"
proof -
  have "y = Tcp_connection \<or> y = Raw_socket \<or> y = Udp_socket" for y
    by (cases y) simp_all
  then show ?thesis
    using assms by (auto simp: live_def prog_simps on_def scope_of_def datagram_in_def split: option.splits if_splits sum.splits)
qed

text \<open>The constructors.\<close>

lemma make_handler_sound: "sound K U w \<Longrightarrow> make_handler w = Inr (h, w') \<Longrightarrow> sound K U w' \<and> h < next_handler w' \<and> heap w' = heap w"
  using inv_new_handler [of K U w w'] by (auto simp: make_handler_def Let_def)

lemma pollable_sound:
  assumes "sound K U w" and "pollable_entity eh w = Inr (h, w')" and "\<forall>h. eh = Some h \<longrightarrow> h < next_handler w"
  shows "sound K U w' \<and> h < next_handler w' \<and> (\<forall>c. get_container c w' = get_container c w)"
proof (cases eh)
  case None
  then have "make_handler w = Inr (h, w')" using assms(2) by (simp add: pollable_entity_def)
  then show ?thesis
    using make_handler_sound [OF assms(1)] by (auto simp: make_handler_def Let_def intro!: get_container_cong)
next
  case (Some h')
  then show ?thesis using assms by (simp add: pollable_entity_def prog_simps)
qed

lemma server_ctor_sound:
  assumes I: "sound K U w" and free: "c_sockets (get_container (Listeners i) w) = []" "c_sockets (get_container (Clients i) w) = []"
    and eh: "\<forall>h. eh = Some h \<longrightarrow> h < next_handler w" and r: "server_ctor i eh w = Inr (x, w')"
  shows "sound K U w'"
proof -
  obtain h w1 where w1: "pollable_entity eh w = Inr (h, w1)"
      "w' = w1\<lparr>servers := (servers w1)(i := \<lparr>srv_handler = h, srv_actions = (\<lambda>_. []),
        listeners_container = new_container h, clients_container = new_container h\<rparr>)\<rparr>"
    using r by (auto simp: server_ctor_def prog_simps split: sum.splits)
  have s1: "sound K U w1" "h < next_handler w1" "\<And>c. get_container c w1 = get_container c w"
    using pollable_sound [OF I w1(1) eh] by simp_all
  have cont: "get_container c w' = (if c = Listeners i \<or> c = Clients i then new_container h else get_container c w1)" for c
    unfolding w1(2) by (cases c) auto
  show ?thesis
  proof (rule sound_tables [OF s1(1)])
    show "stored w' c k p = stored w1 c k p" for c k p
      using free s1(3) by (auto simp: stored_def cont new_container_def)
    show "map_wf (c_sockets (get_container c w'))" "c_handler (get_container c w') < next_handler w1" for c
      using soundD(10,11) [OF s1(1), of c] s1(2) by (auto simp: cont new_container_def)
    show "c_handler (get_container c w') = c_handler (get_container c w1)" if "stored w1 c k p" for c k p
      using that free s1(3) by (auto simp: stored_def cont)
  qed (auto simp: w1(2) split: if_splits)
qed

lemma client_ctor_sound:
  assumes I: "sound K U w" and free: "c_sockets (get_container (Connections i) w) = []" and h: "h < next_handler w"
    and r: "client_ctor i h w = Inr (x, w')"
  shows "sound K U w'"
proof -
  have w': "w' = w\<lparr>clients := (clients w)(i := \<lparr>cl_handler = h, cl_actions = (\<lambda>_. []), cl_container = new_container h\<rparr>)\<rparr>"
    using r by (simp add: client_ctor_def prog_simps)
  have cont: "get_container c w' = (if c = Connections i then new_container h else get_container c w)" for c
    unfolding w' by (cases c) auto
  show ?thesis
  proof (rule sound_tables [OF I])
    show "stored w' c k p = stored w c k p" for c k p
      using free by (auto simp: stored_def cont new_container_def)
    show "map_wf (c_sockets (get_container c w'))" "c_handler (get_container c w') < next_handler w" for c
      using soundD(10,11) [OF I, of c] h by (auto simp: cont new_container_def)
    show "c_handler (get_container c w') = c_handler (get_container c w)" if "stored w c k p" for c k p
      using that free by (auto simp: stored_def cont)
  qed (auto simp: w' split: if_splits)
qed

lemma raw_ctor_sound:
  assumes I: "sound K U w" and eh: "\<forall>h. eh = Some h \<longrightarrow> h < next_handler w" and r: "raw_socket_ctor eh w = Inr (p, w')"
  shows "sound K U w'"
proof -
  obtain h w1 where w1: "pollable_entity eh w = Inr (h, w1)"
      "w' = w1\<lparr>heap := (heap w1)(next_ptr w1 \<mapsto> new_sock Raw_socket h (-1)), next_ptr := Suc (next_ptr w1)\<rparr>"
    using r by (auto simp: raw_socket_ctor_def prog_simps split: sum.splits)
  have "sound K U w1" "h < next_handler w1"
    using pollable_sound [OF I w1(1) eh] by simp_all
  then show ?thesis
    using inv_alloc [OF _ _ _ _ _ w1(2), of K U] by (simp add: new_sock_def)
qed

lemma udp_ctor_sound:
  assumes I: "sound K U w" and eh: "\<forall>h. eh = Some h \<longrightarrow> h < next_handler w" and r: "udp_socket_ctor eh w = Inr (p, w')"
  shows "sound K U w'"
proof -
  obtain h w1 where w1: "pollable_entity eh w = Inr (h, w1)"
    using r by (auto simp: udp_socket_ctor_def prog_simps split: sum.splits)
  let ?s = "new_sock Udp_socket h (-1)" and ?p = "next_ptr w1"
  let ?w = "w1\<lparr>heap := (heap w1)(?p \<mapsto> ?s), next_ptr := Suc ?p\<rparr>"
  have "sound K U w1" "h < next_handler w1"
    using pollable_sound [OF I w1 eh] by simp_all
  then have s: "sound K U ?w"
    using inv_alloc [of K U w1 ?s ?w] by (simp add: new_sock_def)
  have step: "\<exists>v' s''. on (Socket_obj ?p) t cb fl v = Inr ((), v') \<and> sound K U v' \<and> heap v' ?p = Some s'' \<and> sclass s'' = Udp_socket"
    if "sound K U v" "heap v ?p = Some s'" "sclass s' = Udp_socket" "datagram_callback ?p t cb" "t \<in> {READABLE, RECVFROM, CLOSED}"
    for v s' t cb fl
    using that on_socket_apply [OF that(2), of t cb fl] socket_on_sound [OF that(1,2), of t cb fl]
    by (auto simp: action_list_defs)
  obtain v1 s1 where v1: "on (Socket_obj ?p) READABLE (Udp_recvfrom ?p) (flag_value DEFAULT) ?w = Inr ((), v1)"
      "sound K U v1" "heap v1 ?p = Some s1" "sclass s1 = Udp_socket"
    using step [OF s, of ?s READABLE "Udp_recvfrom ?p" "flag_value DEFAULT"] by (auto simp: new_sock_def)
  obtain v2 s2 where v2: "on (Socket_obj ?p) RECVFROM (Udp_receive ?p) (flag_value DEFAULT) v1 = Inr ((), v2)"
      "sound K U v2" "heap v2 ?p = Some s2" "sclass s2 = Udp_socket"
    using step [OF v1(2-4), of RECVFROM "Udp_receive ?p" "flag_value DEFAULT"] by auto
  obtain v3 where v3: "on (Socket_obj ?p) CLOSED (Udp_closed ?p) (flag_value DEFAULT) v2 = Inr ((), v3)" "sound K U v3"
    using step [OF v2(2-4), of CLOSED "Udp_closed ?p" "flag_value DEFAULT"] by auto
  have "\<exists>v. init_socket ?p ?w = Inr ((), v) \<and> sound K U v"
    using v1(1) v2(1) v3 by (simp add: init_socket_def andThen_apply)
  then show ?thesis
    using r w1 by (auto simp: udp_socket_ctor_def prog_simps)
qed

section \<open>Reachable worlds\<close>

text \<open>
  A program constructs handlers, servers, clients and sockets and calls the library; while a call
  runs, the callbacks of the user program run inside it.
\<close>

inductive reachable :: "kernel \<Rightarrow> user_program \<Rightarrow> world \<Rightarrow> bool" for K U where
  start: "reachable K U empty_world"
| new_handler: "reachable K U w \<Longrightarrow> make_handler w = Inr (h, w') \<Longrightarrow> reachable K U w'"
| new_server: "reachable K U w \<Longrightarrow> c_sockets (get_container (Listeners i) w) = [] \<Longrightarrow>
    c_sockets (get_container (Clients i) w) = [] \<Longrightarrow> \<forall>h. eh = Some h \<longrightarrow> h < next_handler w \<Longrightarrow>
    server_ctor i eh w = Inr (x, w') \<Longrightarrow> reachable K U w'"
| new_client: "reachable K U w \<Longrightarrow> c_sockets (get_container (Connections i) w) = [] \<Longrightarrow> h < next_handler w \<Longrightarrow>
    client_ctor i h w = Inr (x, w') \<Longrightarrow> reachable K U w'"
| new_raw: "reachable K U w \<Longrightarrow> \<forall>h. eh = Some h \<longrightarrow> h < next_handler w \<Longrightarrow>
    raw_socket_ctor eh w = Inr (p, w') \<Longrightarrow> reachable K U w'"
| new_udp: "reachable K U w \<Longrightarrow> \<forall>h. eh = Some h \<longrightarrow> h < next_handler w \<Longrightarrow>
    udp_socket_ctor eh w = Inr (p, w') \<Longrightarrow> reachable K U w'"
| call: "reachable K U w \<Longrightarrow> main_cmd c \<Longrightarrow> run_cmd K (execute K U n) n c w = Inr (x, w') \<Longrightarrow> reachable K U w'"

lemma empty_world_sound: "env_ok K U \<Longrightarrow> sound K U empty_world"
proof -
  assume e: "env_ok K U"
  have c: "get_container c empty_world = \<lparr>c_handler = 0, c_sockets = []\<rparr>" for c
    by (cases c) (simp_all add: empty_world_def)
  have "handlers_ok empty_world" "registry_ok empty_world" "fds_ok empty_world" "heap_ok empty_world" "tables_ok empty_world"
      "polled_ok empty_world" "places_ok empty_world" "protocol_ok K empty_world" "owners_ok {} U empty_world"
    by (simp_all add: owners_ok_def polled_ok_def places_ok_def protocol_ok_def handlers_ok_def registry_ok_def fds_ok_def heap_ok_def tables_ok_def empty_world_def handler_wf_new)
      (simp add: new_handler_def)
  moreover have "containers_ok empty_world"
    by (simp add: containers_ok_def c stored_def) (simp add: empty_world_def)
  ultimately show ?thesis
    using e by (simp add: sound_but_def)
qed

text \<open>Between the calls of the main program no connection is being closed.\<close>

lemma rest_heap: "(\<And>p s'. heap w' p = Some s' \<Longrightarrow> closing s' \<Longrightarrow> \<exists>s. heap w p = Some s \<and> closing s) \<Longrightarrow> at_rest w \<Longrightarrow> at_rest w'"
  unfolding at_rest_def by blast

lemma registration_rest:
  assumes "run_cmd K X n c w = Inr (x, w')" and "c = Server_on i t u fl \<or> c = Client_on i t u fl \<or> c = Socket_on p t u fl"
    and "at_rest w"
  shows "at_rest w'"
proof (rule rest_heap [OF _ assms(3)])
  fix q s' assume "heap w' q = Some s'" "closing s'"
  then show "\<exists>s. heap w q = Some s \<and> closing s"
    using assms(1,2)
    by (cases "q = p") (auto simp: live_def prog_simps on_def closing_def split: option.splits if_splits sum.splits)
qed

lemma call_outcome:
  assumes "sound K U w" and "at_rest w" and "main_cmd c"
  shows "case run_cmd K (execute K U n) n c w of
      Inl e \<Rightarrow> blamed K U w e \<or> e = NoSuchAction \<and> \<not> callback_cmd c \<or> e = Misuse \<and> \<not> permits (scope_of w) c
    | Inr (x, w') \<Rightarrow> sound K U w' \<and> at_rest w'"
proof (cases "callback_cmd c")
  case True
  show ?thesis
  proof (cases "permits (scope_of w) c")
    case permitted: True
    have "ends K U {} w (run_cmd K (execute K U n) n c w) (\<lambda>_ _. True)"
      by (rule program.run_cmd_safe [OF assms(1) True]) (simp_all add: permitted calm_rest [OF assms(2)])
    then show ?thesis using assms(2) by (auto simp: ends_def rest_steps split: sum.splits)
  next
    case False
    then show ?thesis
      using program.run_cmd_unusable [OF assms(1) True False, of n n] assms(2) by (auto simp: rest_steps split: sum.splits)
  qed
next
  case False
  then obtain i p t u fl where c: "c = Server_on i t u fl \<or> c = Client_on i t u fl \<or> c = Socket_on p t u fl"
    using main_cmd_cases [OF assms(3)] by blast
  show ?thesis
    using registration_sound [OF assms(1) _ c] registration_rest [OF _ c assms(2)] registration_faults [OF _ c, of K "execute K U n" n w]
    using False by (cases "run_cmd K (execute K U n) n c w") auto
qed

lemma ctor_rest:
  assumes "at_rest w"
  shows "make_handler w = Inr (h, w') \<Longrightarrow> at_rest w'"
    "server_ctor i eh w = Inr (x, w') \<Longrightarrow> at_rest w'"
    "client_ctor i h w = Inr (x, w') \<Longrightarrow> at_rest w'"
    "raw_socket_ctor eh w = Inr (p, w') \<Longrightarrow> at_rest w'"
    "udp_socket_ctor eh w = Inr (p, w') \<Longrightarrow> at_rest w'"
proof -
  have handler: "at_rest w'" if "pollable_entity eh w = Inr (h, w')" for eh h w'
    using that assms by (cases eh) (auto simp: pollable_entity_def make_handler_def Let_def prog_simps at_rest_def)
  have table: "at_rest (w\<lparr>servers := t\<rparr>) = at_rest w" "at_rest (w\<lparr>clients := t'\<rparr>) = at_rest w" for t t' w
    by (simp_all add: at_rest_def)
  have alloc: "at_rest (w\<lparr>heap := (heap w)(q \<mapsto> s), next_ptr := m\<rparr>)" "at_rest (w\<lparr>heap := (heap w)(q \<mapsto> s)\<rparr>)"
    if "at_rest w" "sclass s \<noteq> Tcp_connection" for w q s m
    using that by (auto simp: at_rest_def closing_def)
  show "make_handler w = Inr (h, w') \<Longrightarrow> at_rest w'"
    using handler [of None] by (simp add: pollable_entity_def)
  show "server_ctor i eh w = Inr (x, w') \<Longrightarrow> at_rest w'"
    using handler by (auto simp: server_ctor_def prog_simps table split: sum.splits)
  show "client_ctor i h w = Inr (x, w') \<Longrightarrow> at_rest w'"
    using assms by (auto simp: client_ctor_def prog_simps table)
  show "raw_socket_ctor eh w = Inr (p, w') \<Longrightarrow> at_rest w'"
    using handler by (auto simp: raw_socket_ctor_def prog_simps alloc new_sock_def split: sum.splits)
  have on: "at_rest v' \<and> (\<exists>s. heap v' q = Some s \<and> sclass s \<noteq> Tcp_connection)"
    if "on (Socket_obj q) t cb fl v = Inr (u, v')" "at_rest v" "heap v q = Some s" "sclass s \<noteq> Tcp_connection" for q t cb fl v v' u s
    using that by (auto simp: on_def alloc split: option.splits)
  assume "udp_socket_ctor eh w = Inr (p, w')"
  then obtain h w1 v1 v2 where w1: "pollable_entity eh w = Inr (h, w1)"
      and v: "on (Socket_obj p) READABLE (Udp_recvfrom p) (flag_value DEFAULT)
        (w1\<lparr>heap := (heap w1)(p \<mapsto> new_sock Udp_socket h (-1)), next_ptr := Suc p\<rparr>) = Inr ((), v1)"
      "on (Socket_obj p) RECVFROM (Udp_receive p) (flag_value DEFAULT) v1 = Inr ((), v2)"
      "on (Socket_obj p) CLOSED (Udp_closed p) (flag_value DEFAULT) v2 = Inr ((), w')"
    by (auto simp: udp_socket_ctor_def init_socket_def prog_simps split: sum.splits)
  have "at_rest (w1\<lparr>heap := (heap w1)(p \<mapsto> new_sock Udp_socket h (-1)), next_ptr := Suc p\<rparr>)"
    using alloc(1) [OF handler [OF w1]] by (simp add: new_sock_def)
  then obtain s1 where "at_rest v1" "heap v1 p = Some s1" "sclass s1 \<noteq> Tcp_connection"
    using on [OF v(1), of "new_sock Udp_socket h (-1)"] by (auto simp: new_sock_def)
  with on [OF v(2)] obtain s2 where "at_rest v2" "heap v2 p = Some s2" "sclass s2 \<noteq> Tcp_connection"
    by blast
  with on [OF v(3)] show "at_rest w'" by blast
qed

lemma reachable_safe: "reachable K U w \<Longrightarrow> env_ok K U \<Longrightarrow> sound K U w \<and> at_rest w"
proof (induction rule: reachable.induct)
  case start
  then show ?case
    using empty_world_sound by (simp add: at_rest_def empty_world_def)
next
  case (new_handler w h w')
  then show ?case using make_handler_sound ctor_rest(1) by blast
next
  case (new_server w i eh x w')
  then show ?case using server_ctor_sound ctor_rest(2) by blast
next
  case (new_client w i h x w')
  then show ?case using client_ctor_sound ctor_rest(3) by blast
next
  case (new_raw w eh p w')
  then show ?case using raw_ctor_sound ctor_rest(4) by blast
next
  case (new_udp w eh p w')
  then show ?case using udp_ctor_sound ctor_rest(5) by blast
next
  case (call w c n x w')
  then show ?case using call_outcome [of K U w c n] by simp
qed

lemma reachable_sound: "reachable K U w \<Longrightarrow> env_ok K U \<Longrightarrow> sound K U w"
  and reachable_rest: "reachable K U w \<Longrightarrow> env_ok K U \<Longrightarrow> at_rest w"
  using reachable_safe by blast+

end
