(* ===== verification/Fuel_Calculus.thy ===== *)
theory Fuel_Calculus
  imports Outcomes Change_Counter
begin

text \<open>
  A calculus for computations that do not run out of fuel: rules for the operations under any state
  predicate that depends on the books of a world only (the locale \<open>bookkeeping\<close>), and without one for the
  operations that open sockets.
\<close>

section \<open>Computations that do not run out of fuel\<close>

definition lasts :: "(world \<Rightarrow> bool) \<Rightarrow> 'a act \<Rightarrow> bool" where
  "lasts P m \<longleftrightarrow> triple P m (\<lambda>_. P) (\<lambda>e. e \<noteq> OutOfFuel)"

named_theorems lasts_rules "computations that do not run out of fuel"

lemma lastsI: "(\<And>w. P w \<Longrightarrow> m w \<noteq> Inl OutOfFuel) \<Longrightarrow> (\<And>w a w'. P w \<Longrightarrow> m w = Inr (a, w') \<Longrightarrow> P w') \<Longrightarrow> lasts P m"
  unfolding lasts_def by (rule tripleI) auto

lemma lastsD: "lasts P m \<Longrightarrow> P w \<Longrightarrow> m w \<noteq> Inl OutOfFuel"
  by (cases "m w") (auto simp: lasts_def triple_def)

lemma lasts_andThen [lasts_rules]: "lasts P m \<Longrightarrow> (\<And>a. lasts P (k a)) \<Longrightarrow> lasts P (andThen m k)"
  unfolding lasts_def by (rule triple_andThen)

lemma lasts_triple: "lasts P m \<Longrightarrow> triple P m (\<lambda>_. P) (\<lambda>e. e \<noteq> OutOfFuel)"
  by (simp add: lasts_def)

lemma lasts_then:
  "lasts P m \<Longrightarrow> (\<And>a. triple P (k a) Q (\<lambda>e. e \<noteq> OutOfFuel)) \<Longrightarrow> triple P (andThen m k) Q (\<lambda>e. e \<noteq> OutOfFuel)"
  by (rule triple_andThen [OF lasts_triple])

lemma lasts_basic [lasts_rules]:
  "lasts P (ret x)" "f \<noteq> OutOfFuel \<Longrightarrow> lasts P (raise f)" "lasts P (reads g)" "f \<noteq> OutOfFuel \<Longrightarrow> lasts P (require f B)"
  by (auto simp: lasts_def triple_def prog_simps)

lemma lasts_cases [lasts_rules]:
  "(b \<Longrightarrow> lasts P m) \<Longrightarrow> (\<not> b \<Longrightarrow> lasts P m') \<Longrightarrow> lasts P (if b then m else m')"
  "lasts P m \<Longrightarrow> (\<And>y. lasts P (k y)) \<Longrightarrow> lasts P (case z of None \<Rightarrow> m | Some y \<Rightarrow> k y)"
  "lasts P m \<Longrightarrow> (\<And>y ys. lasts P (l y ys)) \<Longrightarrow> lasts P (case xs of [] \<Rightarrow> m | y # ys \<Rightarrow> l y ys)"
  "(\<And>x y. lasts P (n x y)) \<Longrightarrow> lasts P (case q of (x, y) \<Rightarrow> n x y)"
  by (simp_all split: option.split list.split prod.split)

lemma lasts_run_all [lasts_rules]: "(\<And>x. x \<in> set xs \<Longrightarrow> lasts P (f x)) \<Longrightarrow> lasts P (run_all f xs)"
  unfolding lasts_def by (rule triple_run_all)

lemma lasts_discard [lasts_rules]: "lasts P m \<Longrightarrow> lasts P (discard m)"
  unfolding discard_def by (intro lasts_rules)

text \<open>
  The operations under a state predicate that depends on the books of a world only: its open sockets and
  its callback lists.
\<close>

locale bookkeeping =
  fixes P :: "world \<Rightarrow> bool"
  assumes same: "P w \<Longrightarrow> same_books w w' \<Longrightarrow> P w'"
begin

lemma lasts_same:
  assumes "\<And>w. m w \<noteq> Inl OutOfFuel" and "\<And>w a w'. m w = Inr (a, w') \<Longrightarrow> same_books w w'"
  shows "lasts P m"
  using assms same by (intro lastsI) auto

lemma external [lasts_rules]:
  "lasts P (sys K c)" "lasts P (external (getnameinfo (world_resolver K) x len room))"
  "lasts P (external (getaddrinfo (world_resolver K) host fam))"
  "lasts P (external (inet_ntop (world_resolver K) fam b room))"
  by (rule lasts_same; auto simp: same_books_def sys_def external_def answer_def world_resolver_def)+

lemma memory [lasts_rules]:
  "lasts P (get_sock p)" "lasts P (get_socket p)" "lasts P (free_sock p)"
  "lasts P (set_variable x v)" "lasts P (update (put_container c cont))" "lasts P (touch_list ob t l)"
  by (rule lasts_same; cases c; auto simp: same_books_def get_socket_def free_sock_def touch_list_def prog_simps set_variable_def
      split: option.splits if_splits)+

lemma field [lasts_rules]:
  assumes "\<And>s. shandler (f s) = shandler s" and "\<And>s. sock_fd (f s) = sock_fd s" and "\<And>s. sactions (f s) = sactions s"
  shows "lasts P (put_sock p f)"
  using assms by (intro lasts_same) (auto simp: same_books_def put_sock_def split: option.splits if_splits)

lemma want [lasts_rules]:
  "lasts P (handler_want_read h fd b)" "lasts P (handler_want_write h fd b)"
  "lasts P (set_want_read p b)" "lasts P (set_want_write p b)"
proof -
  show a: "lasts P (handler_want_read h fd b)" "lasts P (handler_want_write h fd b)" for h fd b
    by (rule lasts_same; auto simp: same_books_def handler_want_read_def handler_want_write_def prog_simps
      impl_socket_want_read_def impl_socket_want_write_def Let_def split: option.splits)+
  show "lasts P (set_want_read p b)" "lasts P (set_want_write p b)"
    unfolding set_want_read_def set_want_write_def by (auto intro!: lasts_rules a)
qed

lemma resolution: "lasts P attempt \<Longrightarrow> lasts P (resolve_loop attempt err n)"
  unfolding lasts_def by (rule resolve_loop_triple)

lemma text_of_address [lasts_rules]:
  "lasts P (get_ip (world_resolver K) a)" "lasts P (to_string (world_resolver K) a)"
  unfolding get_ip_def to_string_def to_string_inet_def to_string_inet6_def describe_host_def nameinfo_of_def nameinfo_def
  by (auto intro!: lasts_rules resolution)

lemma guards [lasts_rules]: "lasts P (live classes p)" "lasts P (closed_socket p)"
  unfolding live_def closed_socket_def by (simp_all add: lasts_basic)

lemma printing_lasts [lasts_rules]: "lasts P (print K items)"
proof -
  have "lasts P (render K i)" for i
    by (cases i) (auto intro!: lasts_rules)
  then have "lasts P (render_all K is)" for "is"
    by (induction "is") (auto intro!: lasts_rules)
  then show ?thesis
    unfolding print_def by (auto intro!: lasts_rules)
qed

lemma erasing [lasts_rules]: "lasts P (container_erase c k)"
  unfolding container_erase_def by (auto intro!: lasts_rules)

text \<open>Operations on one socket: what they execute is the caller's to vouch for.\<close>

lemma sending:
  assumes "\<And>f e. lasts P (X (Socket_obj p) ERROR (A_error f e))"
  shows "lasts P (sock_bind K X p)" "lasts P (raw_sendmsg K X p msg fl)" "lasts P (raw_send_to K X p addr msg fl)"
    "lasts P (connection_send K X p msg)" "lasts P (connection_send_flush K X p)"
  unfolding sock_bind_def raw_sendmsg_def raw_send_to_def connection_send_def connection_send_flush_def Let_def
  by (auto intro!: lasts_rules assms)

lemma receiving:
  assumes "\<And>f e. lasts P (X (Socket_obj p) ERROR (A_error f e))"
  shows "(\<And>b. lasts P (X (Socket_obj p) RECVMSG (A_msghdr b))) \<Longrightarrow> lasts P (raw_recvmsg K X p)"
    "(\<And>a b. lasts P (X (Socket_obj p) RECVFROM (A_address_bytes a b))) \<Longrightarrow> lasts P (raw_recvfrom K X p)"
    "(\<And>b. lasts P (X (Socket_obj p) RECV (A_bytes b))) \<Longrightarrow> lasts P (sock_close K X p) \<Longrightarrow> lasts P (connection_recv K X p)"
  unfolding raw_recvmsg_def raw_recvfrom_def connection_recv_def Let_def
  by (auto intro!: lasts_rules assms)

end

section \<open>Operations that open sockets\<close>

text \<open>Wherever they run, they run out of fuel only if an execution does.\<close>

interpretation anywhere: bookkeeping "\<lambda>_. True"
  by unfold_locales simp

lemma always: "(\<And>w. m w \<noteq> Inl OutOfFuel) \<Longrightarrow> lasts (\<lambda>_. True) m"
  by (rule lastsI)

lemma always_primitive [lasts_rules]:
  "lasts (\<lambda>_. True) (update f)" "lasts (\<lambda>_. True) (alloc_sock s)" "lasts (\<lambda>_. True) (put_sock p g)"
  "lasts (\<lambda>_. True) (on ob t cb fl)" "lasts (\<lambda>_. True) make_handler" "lasts (\<lambda>_. True) (handler_add_socket h fd p)"
  "lasts (\<lambda>_. True) (handler_delete_socket h fd)"
  by (rule always; simp add: prog_simps alloc_sock_def put_sock_def on_def make_handler_def handler_add_socket_def
      handler_delete_socket_def Let_def split: option.split)+

lemma always_port [lasts_rules]: "lasts (\<lambda>_. True) (lift_fault (set_port ty port a))"
  by (rule always) (auto simp: lift_fault_def set_port_def prog_simps split: sum.splits option.splits)

lemma always_address [lasts_rules]: "lasts (\<lambda>_. True) (addrinfo (world_resolver K) a host fam)"
  unfolding addrinfo_def by (intro lasts_rules anywhere.resolution)

lemma always_base [lasts_rules]:
  "lasts (\<lambda>_. True) (base_open K d ty pr s)" "lasts (\<lambda>_. True) (base_close K s)"
  "lasts (\<lambda>_. True) (insert_socket c s)" "lasts (\<lambda>_. True) (make_socket_fd c fd)" "lasts (\<lambda>_. True) (make_socket K c d ty pr)"
  "lasts (\<lambda>_. True) (raw_socket_ctor eh)" "lasts (\<lambda>_. True) (connection_listen K p)" "lasts (\<lambda>_. True) (connection_connect K p)"
  unfolding base_open_def base_close_def insert_socket_def make_socket_fd_def make_socket_def raw_socket_ctor_def pollable_entity_def
    connection_listen_def connection_connect_def
  by (auto intro!: lasts_rules split: prod.split)

lemma always_operations [lasts_rules]:
  assumes X: "\<And>ob t a. lasts (\<lambda>_. True) (X ob t a)"
  shows "lasts (\<lambda>_. True) (sock_close K X p)" "lasts (\<lambda>_. True) (sock_open K X p d ty pr)" "lasts (\<lambda>_. True) (udp_open K X p fam)"
    "lasts (\<lambda>_. True) (listen_failure K X i p func)" "lasts (\<lambda>_. True) (server_listen K X i host port six)"
    "lasts (\<lambda>_. True) (client_connect K X i host port six)" "lasts (\<lambda>_. True) (udp_bind K X p host n six)"
    "lasts (\<lambda>_. True) (udp_send_to K X addr msg fl)"
proof -
  show a: "lasts (\<lambda>_. True) (sock_close K X p)" "lasts (\<lambda>_. True) (sock_open K X p d ty pr)" for p d ty pr
    unfolding sock_close_def sock_open_def by (auto intro!: lasts_rules X)
  show b: "lasts (\<lambda>_. True) (udp_open K X p fam)" "lasts (\<lambda>_. True) (listen_failure K X i p func)" for p fam i func
    unfolding udp_open_def listen_failure_def by (auto intro!: lasts_rules X a)
  note c = anywhere.sending [of X, OF X]
  show "lasts (\<lambda>_. True) (server_listen K X i host port six)" "lasts (\<lambda>_. True) (client_connect K X i host port six)"
    "lasts (\<lambda>_. True) (udp_bind K X p host n six)" "lasts (\<lambda>_. True) (udp_send_to K X addr msg fl)"
    unfolding server_listen_def client_connect_def udp_bind_def udp_send_to_def
    by (auto intro!: lasts_rules X a b c)
qed

lemma always_poll [lasts_rules]:
  assumes X: "\<And>ob t a. lasts (\<lambda>_. True) (X ob t a)"
  shows "lasts (\<lambda>_. True) (events_poll K X h timeout)"
proof -
  have "lasts (\<lambda>_. True) (poll_loop X h st n is)" for st n "is"
    by (induction "is" arbitrary: n)
      (auto intro!: lasts_rules X simp: fresh_iterator_def socket_ptr_at_def on_readable_def on_writeable_def)
  then show ?thesis
    unfolding events_poll_def poll_impl_def by (auto intro!: lasts_rules)
qed

text \<open>Commands that sweep a whole server or client run a loop.\<close>

fun sweeping :: "cmd \<Rightarrow> bool" where
  "sweeping (Server_close i) = True"
| "sweeping (Client_close i) = True"
| "sweeping c = False"

lemma always_cmd:
  assumes X: "\<And>ob t a. lasts (\<lambda>_. True) (X ob t a)" and "\<not> sweeping c"
  shows "lasts (\<lambda>_. True) (run_cmd K X n c)"
  using assms(2) anywhere.sending [of X, OF X] anywhere.receiving [of X, OF X X]
  by (cases c) (auto intro!: lasts_rules X simp: set_data_def)

end
