(* ===== verification/Enough_Fuel.thy ===== *)
theory Enough_Fuel
  imports Reachability Fuel_Calculus
begin

text \<open>
  Calls return.  A program whose callbacks open no socket, ask for datagrams only on plain events
  and leave the closing of whole servers and clients to the main program nests its callbacks to a
  depth that the number of open sockets bounds: the library hands an event on at most three times before
  user code runs, and user code can go on only by closing a socket.
\<close>

section \<open>Modest programs\<close>

fun receiving :: "cmd \<Rightarrow> bool" where
  "receiving (Socket_recvmsg p) = True"
| "receiving (Socket_recvfrom p) = True"
| "receiving c = False"

definition modest :: "user_program \<Rightarrow> bool" where
  "modest U \<longleftrightarrow> (\<forall>u a w. list_all (\<lambda>c. \<not> sweeping c \<and> (receiving c \<longrightarrow> a = A_none)) (U u a w))"

section \<open>Worlds with a bounded number of open sockets\<close>

text \<open>Where the callbacks of the library stand; an action accepts at most once.\<close>

fun belongs :: "tag \<Rightarrow> callback \<Rightarrow> bool" where
  "belongs t (User u) = True"
| "belongs t (Container_erase c k) = True"
| "belongs t (Connection_recv p) = (t = READABLE)"
| "belongs t (Connection_send_flush p) = (t = WRITEABLE)"
| "belongs t (Server_accept i p) = (t = READABLE)"
| "belongs t (Server_closed i p) = (t = CLOSED)"
| "belongs t (Server_disconnect i p) = (t = CLOSED)"
| "belongs t (Server_receive i p) = (t = RECV)"
| "belongs t (Client_closed i p) = (t = CLOSED)"
| "belongs t (Client_receive i p) = (t = RECV)"
| "belongs t (Udp_recvfrom p) = (t = READABLE)"
| "belongs t (Udp_receive p) = (t = RECVFROM)"
| "belongs t (Udp_closed p) = (t = CLOSED)"

definition lists_ok :: "world \<Rightarrow> bool" where
  "lists_ok w \<longleftrightarrow> (\<forall>ob acts t. actions_of ob w = Some acts \<longrightarrow> accepting (acts t) \<le> 1 \<and> (\<forall>cb \<in> set (acts t). belongs t (exec cb)))"

definition ready :: "nat \<Rightarrow> world \<Rightarrow> bool" where
  "ready k w \<longleftrightarrow> lists_ok w \<and> finite (all_open w) \<and> card (all_open w) \<le> k"

lemma ready_mono: "ready j w \<Longrightarrow> j \<le> k \<Longrightarrow> ready k w"
  by (simp add: ready_def)

lemma ready_lists: "ready k w \<Longrightarrow> actions_of ob w = Some acts \<Longrightarrow> accepting (acts t) \<le> 1 \<and> (\<forall>cb \<in> set (acts t). belongs t (exec cb))"
  unfolding ready_def lists_ok_def by blast

lemma ready_step:
  assumes "ready k w" and "\<And>ob acts'. actions_of ob w' = Some acts' \<Longrightarrow> actions_of ob w = Some acts' \<or>
      (\<forall>t. accepting (acts' t) \<le> 1 \<and> (\<forall>cb \<in> set (acts' t). belongs t (exec cb)))"
    and "all_open w' \<subseteq> insert p (all_open w)"
  shows "ready (Suc k) w'" and "all_open w' \<subseteq> all_open w \<Longrightarrow> ready k w'"
proof -
  have lists: "lists_ok w'"
    using assms(1,2) unfolding ready_def lists_ok_def by blast
  have fin: "finite (all_open w)" "card (all_open w) \<le> k"
    using assms(1) by (simp_all add: ready_def)
  have "card (all_open w') \<le> card (insert p (all_open w))"
    using fin(1) assms(3) by (intro card_mono) simp_all
  also have "\<dots> \<le> Suc k"
    using fin by (simp add: card_insert_if)
  finally show "ready (Suc k) w'"
    using lists finite_subset [OF assms(3)] fin(1) by (simp add: ready_def)
  show "ready k w'" if "all_open w' \<subseteq> all_open w"
    using that lists fin card_mono [OF fin(1) that] finite_subset [OF that] by (simp add: ready_def)
qed

interpretation books: bookkeeping "ready k" for k
proof
  fix w w' assume w: "ready k w" "same_books w w'"
  have "all_open w' \<subseteq> all_open w"
    using w(2) unfolding same_books_def all_open_def by fastforce
  moreover have "actions_of ob w = Some acts'" if "actions_of ob w' = Some acts'" for ob acts'
    using w(2) that unfolding same_books_def by (cases ob) fastforce+
  ultimately show "ready k w'"
    by (intro ready_step(2) [OF w(1)]) blast+
qed

text \<open>Closing an open socket leaves one fewer.\<close>

lemma ready_close:
  assumes "ready (Suc k) w" and s: "heap w p = Some s" "0 \<le> sock_fd s"
    and w': "heap w' = (heap w)(p \<mapsto> s\<lparr>sock_fd := -1\<rparr>)" "servers w' = servers w" "clients w' = clients w"
  shows "ready k w'"
proof -
  have "all_open w' = all_open w - {p}"
    by (auto simp: all_open_def w' split: if_splits)
  moreover have "p \<in> all_open w"
    using s by (simp add: all_open_def)
  moreover have "actions_of ob w' = actions_of ob w" for ob
    using s by (cases ob) (simp_all add: w')
  ultimately show ?thesis
    using assms(1) card.remove [of "all_open w" p] by (auto simp: ready_def lists_ok_def)
qed

lemma close_ready:
  assumes X: "lasts (ready k) (X (Socket_obj p) CLOSED A_none)"
    and w: "ready (Suc k) w" "heap w p = Some s" "0 \<le> sock_fd s"
  shows "case sock_close K X p w of Inl e \<Rightarrow> e \<noteq> OutOfFuel | Inr (u, w') \<Rightarrow> ready k w'"
proof (cases rule: sock_close_world [OF w(2,3), of K X])
  case (2 h')
  let ?v = "(after K (Sys_close (sock_fd s)) (set_handler (shandler s) h' w))\<lparr>heap := (heap w)(p \<mapsto> s\<lparr>sock_fd := -1\<rparr>)\<rparr>"
  have "ready k ?v"
    by (rule ready_close [OF w]) simp_all
  then show ?thesis
    using X unfolding 2(2) lasts_def triple_def by simp
qed simp

lemma close_lasts:
  assumes "\<And>j. j < k \<Longrightarrow> lasts (ready j) (X (Socket_obj p) CLOSED A_none)"
  shows "lasts (ready k) (sock_close K X p)"
  unfolding lasts_def triple_def
proof (intro allI impI)
  fix w assume w: "ready k w"
  show "case sock_close K X p w of Inl e \<Rightarrow> e \<noteq> OutOfFuel | Inr (u, w') \<Rightarrow> ready k w'"
  proof (cases "\<exists>s. heap w p = Some s \<and> 0 \<le> sock_fd s")
    case True
    then obtain s where s: "heap w p = Some s" "0 \<le> sock_fd s" by blast
    then have "p \<in> all_open w" by (auto simp: all_open_def)
    then have "0 < k"
      using w card_gt_0_iff [of "all_open w"] by (auto simp: ready_def)
    then obtain j where j: "k = Suc j" by (cases k) simp_all
    show ?thesis
      using close_ready [OF _ _ s, of j X K] assms [of j] w j ready_mono [of j _ k] by (fastforce split: sum.splits)
  next
    case False
    then show ?thesis
      using w by (auto simp: sock_close_def prog_simps split: option.splits)
  qed
qed

text \<open>Accepting leaves one more.\<close>

lemma on_lasts:
  assumes "\<not> is_accept cb" and "belongs t cb"
  shows "lasts (ready k) (on ob t cb fl)"
proof (rule lastsI)
  fix w u w' assume w: "ready k w" and "on ob t cb fl w = Inr (u, w')"
  then obtain acts where acts: "actions_of ob w = Some acts" "w' = put_actions ob (acts(t := add_callback cb fl (acts t))) w"
    by (auto simp: on_def split: option.splits)
  have "accepting (add_callback cb fl (acts t)) \<le> 1 \<and> (\<forall>c \<in> set (add_callback cb fl (acts t)). belongs t (exec c))"
    using ready_lists [OF w acts(1), of t] assms by (auto simp: accepting_add set_add_callback)
  then have "accepting ((acts(t := add_callback cb fl (acts t))) t') \<le> 1 \<and>
      (\<forall>c \<in> set ((acts(t := add_callback cb fl (acts t))) t'). belongs t' (exec c))" for t'
    using ready_lists [OF w acts(1), of t'] by simp
  moreover have "actions_of ob' w = Some acts' \<or> acts' = acts(t := add_callback cb fl (acts t))"
    if "actions_of ob' w' = Some acts'" for ob' acts'
    using that acts by (cases ob; cases ob') (auto split: if_splits option.splits)
  ultimately have "actions_of ob' w = Some acts' \<or> (\<forall>t. accepting (acts' t) \<le> 1 \<and> (\<forall>cb \<in> set (acts' t). belongs t (exec cb)))"
    if "actions_of ob' w' = Some acts'" for ob' acts'
    using that by blast
  moreover have "all_open w' \<subseteq> all_open w"
    using acts by (cases ob) (auto simp: all_open_def split: option.splits if_splits)
  ultimately show "ready k w'"
    by (intro ready_step(2) [OF w]) blast+
qed (simp add: on_def split: option.split)

lemma make_socket_ready: "triple (ready k) (make_socket_fd c fd) (\<lambda>_. ready (Suc k)) (\<lambda>e. e \<noteq> OutOfFuel)"
proof (rule tripleI)
  fix w made w' assume w: "ready k w" and r: "make_socket_fd c fd w = Inr (made, w')"
  have "actions_of ob w = Some acts' \<or> (\<forall>t. accepting (acts' t) \<le> 1 \<and> (\<forall>cb \<in> set (acts' t). belongs t (exec cb)))"
    if "actions_of ob (with_socket c fd w) = Some acts'" for ob acts'
    using that by (cases ob) (auto simp: stored_sock_def accepting_def erase_callback_def split: if_splits)
  moreover have "all_open (with_socket c fd w) \<subseteq> insert (next_ptr w) (all_open w)"
    by (auto simp: all_open_def split: if_splits)
  ultimately have "ready (Suc k) (with_socket c fd w)"
    by (rule ready_step(1) [OF w])
  then show "ready (Suc k) w'"
    using make_socket_world [OF r] w ready_mono [of k w "Suc k"] by auto
qed (use lastsD [OF always_base(4)] in blast)

lemma accept_ready:
  assumes E: "\<And>j f e. j \<le> Suc k \<Longrightarrow> lasts (ready j) (X (Server_obj i) ERROR (A_error f e))"
    and A: "\<And>q. lasts (ready (Suc k)) (X (Server_obj i) ACCEPT (A_connection q))"
  shows "triple (ready k) (server_accept K X i p) (\<lambda>_. ready (Suc k)) (\<lambda>e. e \<noteq> OutOfFuel)"
proof -
  have up: "triple (ready k) m (\<lambda>_. ready (Suc k)) (\<lambda>e. e \<noteq> OutOfFuel)" if "lasts (ready k) m" for m :: "unit act"
    using that unfolding lasts_def by (elim triple_post) (auto elim: ready_mono)
  have error: "lasts (ready k) (andThen (reads errno) (\<lambda>e. X (Server_obj i) ERROR (A_error f e)))" for f
    by (intro lasts_rules E) simp
  show ?thesis
    unfolding server_accept_def Let_def
    apply (rule lasts_then, intro lasts_rules)
    apply (rule lasts_then, intro lasts_rules, simp)
    apply (rule lasts_then, intro lasts_rules)
    apply (rule triple_if, rule up, rule error)
    apply (rule triple_andThen [OF make_socket_ready], rule lasts_triple)
    apply (auto intro!: lasts_rules on_lasts E A)
    done
qed

section \<open>Executions return\<close>

text \<open>
  How deep the library nests executions below an action before user code that may close a socket; each
  socket that is closed starts this anew.
\<close>

fun level :: "tag \<Rightarrow> nat" where
  "level ERROR = 1"
| "level READABLE = 4"
| "level WRITEABLE = 4"
| "level CLOSED = 4"
| "level RECV = 3"
| "level RECVFROM = 3"
| "level t = 2"

lemma level_prototype:
  assumes "types_of ob w = Some types" and "get_action t types = Some (t, q)"
  shows "(q = P_error) = (t = ERROR) \<and> (t \<noteq> ERROR \<longrightarrow> 2 \<le> level t) \<and> (q = P_void \<longrightarrow> level t = 4)"
proof -
  have "(q = P_error) = (t = ERROR) \<and> (t \<noteq> ERROR \<longrightarrow> 2 \<le> level t) \<and> (q = P_void \<longrightarrow> level t = 4)"
    if "get_action t (class_actions c) = Some (t, q)" for c
    using that by (cases c; cases t) (auto simp: action_list_defs)
  moreover have "(q = P_error) = (t = ERROR) \<and> (t \<noteq> ERROR \<longrightarrow> 2 \<le> level t) \<and> (q = P_void \<longrightarrow> level t = 4)"
    if "get_action t (server_actions_list []) = Some (t, q) \<or> get_action t (client_actions_list []) = Some (t, q)"
    using that by (cases t) (auto simp: action_list_defs)
  ultimately show ?thesis
    using assms by (cases ob) auto
qed

lemma level_fits:
  assumes "types_of ob w = Some types" and "get_action t types = Some (t, args_prototype a)"
  shows "(\<exists>f e. a = A_error f e) \<longleftrightarrow> t = ERROR" and "t \<noteq> ERROR \<Longrightarrow> 2 \<le> level t" and "a = A_none \<Longrightarrow> level t = 4"
  using level_prototype [OF assms] by (cases a; simp)+

lemma cmd_lasts:
  assumes E: "\<And>p f e. lasts (ready k) (X (Socket_obj p) ERROR (A_error f e))" and C: "\<And>p. lasts (ready k) (sock_close K X p)"
    and R: "\<And>p b. receiving c \<Longrightarrow> lasts (ready k) (X (Socket_obj p) RECVMSG (A_msghdr b))"
      "\<And>p a b. receiving c \<Longrightarrow> lasts (ready k) (X (Socket_obj p) RECVFROM (A_address_bytes a b))"
    and c: "callback_cmd c" "\<not> adding c" "\<not> sweeping c"
  shows "lasts (ready k) (run_cmd K X m c)"
  using c R by (cases c) (auto intro!: lasts_rules C books.sending books.receiving(1,2) E simp: set_data_def)

lemma callback_lasts:
  assumes X: "\<And>ob t a j. t \<noteq> READABLE \<Longrightarrow> level t + 3 * j \<le> n \<Longrightarrow> lasts (ready j) (X ob t a)"
    and U: "disciplined U" "frugal U" "modest U"
    and fits: "types_of ob w = Some types" "get_action t types = Some (t, args_prototype a)" "belongs t cb" "\<not> is_accept cb"
    and fuel: "level t + 3 * k \<le> Suc n"
  shows "lasts (ready k) (run_callback K U X m cb a)"
proof -
  note level = level_fits [OF fits(1,2)]
  have lv: "level t' < level t \<Longrightarrow> t' \<noteq> READABLE \<Longrightarrow> lasts (ready k) (X ob t' a')" for t' ob a'
    using fuel by (intro X) simp_all
  have close: "lasts (ready k) (sock_close K X p)" if "t \<noteq> ERROR" for p
    by (intro close_lasts X) (use level(2) [OF that] fuel in simp_all)
  show ?thesis
  proof (cases cb)
    case (User u)
    have "lasts (ready k) (run_cmd K X m c)" if c: "c \<in> set (U u a w)" for c w
    proof (cases "t = ERROR")
      case True
      then have "printing c"
        using level(1) U(1) c by (auto simp: disciplined_def list_all_iff)
      then show ?thesis by (cases c) (auto intro!: lasts_rules)
    next
      case False
      have "callback_cmd c" "\<not> adding c" "\<not> sweeping c" "receiving c \<longrightarrow> level t = 4"
        using U c level(3) by (auto simp: disciplined_def frugal_def modest_def list_all_iff)
      then show ?thesis
        using level(2) [OF False] by (intro cmd_lasts close False lv) simp_all
    qed
    then have "lasts (ready k) (run_all (run_cmd K X m) (U u a w))" for w
      by (rule lasts_run_all)
    then show ?thesis
      unfolding User run_callback.simps lasts_def triple_def by blast
  next
    case (Connection_recv p)
    then show ?thesis
      using fits by (auto intro!: lasts_rules books.receiving lv close)
  next
    case (Connection_send_flush p)
    then show ?thesis
      using fits by (auto intro!: books.sending lv)
  next
    case (Udp_recvfrom p)
    then show ?thesis
      using fits by (auto intro!: lasts_rules books.receiving lv)
  qed (use fits in \<open>cases a; auto intro!: lasts_rules lv\<close>)+
qed

lemma list_lasts:
  assumes "\<And>c j. c \<in> set cs \<Longrightarrow> \<not> is_accept (exec c) \<Longrightarrow> j \<le> k \<Longrightarrow> lasts (ready j) (run (exec c))"
    and "\<And>c j. c \<in> set cs \<Longrightarrow> is_accept (exec c) \<Longrightarrow> j < k \<Longrightarrow> triple (ready j) (run (exec c)) (\<lambda>_. ready (Suc j)) (\<lambda>e. e \<noteq> OutOfFuel)"
    and touch: "\<And>j. lasts (ready j) touch" and "j + accepting cs \<le> k"
  shows "triple (ready j) (execute_list touch run cs) (\<lambda>_. ready (j + accepting cs)) (\<lambda>e. e \<noteq> OutOfFuel)"
  using assms(1,2,4)
proof (induction cs arbitrary: j)
  case Nil
  show ?case by (simp add: triple_ret accepting_def)
next
  case (Cons c cs)
  let ?i = "if is_accept (exec c) then 1 else 0"
  have n: "accepting (c # cs) = ?i + accepting cs"
    by (simp add: accepting_def)
  have rest: "triple (ready j') (execute_list touch run cs) (\<lambda>_. ready (j' + accepting cs)) (\<lambda>e. e \<noteq> OutOfFuel)"
    if "j' + accepting cs \<le> k" for j'
    using Cons.prems that by (intro Cons.IH) auto
  have head: "triple (ready j) (run (exec c)) (\<lambda>_. ready (j + ?i)) (\<lambda>e. e \<noteq> OutOfFuel)"
    using Cons.prems(1) [of c j, THEN lasts_triple] Cons.prems(2) [of c j] Cons.prems(3) n by (auto split: if_splits)
  show ?case
    unfolding execute_list.simps n
  proof (rule lasts_then [OF touch], intro triple_if)
    show "triple (ready j) (execute_list touch run cs) (\<lambda>_. ready (j + (?i + accepting cs))) (\<lambda>e. e \<noteq> OutOfFuel)"
      by (rule triple_post [OF rest]) (use Cons.prems(3) n in \<open>auto elim: ready_mono\<close>)
    show "triple (ready j) (run (exec c)) (\<lambda>_. ready (j + (?i + accepting cs))) (\<lambda>e. e \<noteq> OutOfFuel)"
      by (rule triple_post [OF head]) (auto elim: ready_mono)
    show "triple (ready j) (andThen (run (exec c)) (\<lambda>_. execute_list touch run cs)) (\<lambda>_. ready (j + (?i + accepting cs)))
        (\<lambda>e. e \<noteq> OutOfFuel)"
      using rest [of "j + ?i"] Cons.prems(3) n by (intro triple_andThen [OF head]) (simp add: add.assoc)
  qed
qed

text \<open>One level of execution; only \<open>READABLE\<close> may leave a socket more.\<close>

definition gains :: "tag \<Rightarrow> nat" where
  "gains t = (if t = READABLE then 1 else 0)"

lemma action_lasts:
  assumes X: "\<And>ob t a j. t \<noteq> READABLE \<Longrightarrow> level t + 3 * j \<le> n \<Longrightarrow> lasts (ready j) (X ob t a)"
    and U: "disciplined U" "frugal U" "modest U" and fuel: "level t + 3 * (k + gains t) \<le> Suc n"
  shows "triple (ready k) (execute_action (run_callback K U X m) ob t a) (\<lambda>_. ready (k + gains t)) (\<lambda>e. e \<noteq> OutOfFuel)"
  unfolding triple_def
proof (intro allI impI)
  fix w assume w: "ready k w"
  show "case execute_action (run_callback K U X m) ob t a w of Inl e \<Rightarrow> e \<noteq> OutOfFuel | Inr (x, w') \<Rightarrow> ready (k + gains t) w'"
  proof (cases "\<exists>acts types. actions_of ob w = Some acts \<and> types_of ob w = Some types \<and> get_action t types = Some (t, args_prototype a)")
    case False
    then show ?thesis by (auto simp: execute_action_def split: option.split)
  next
    case True
    then obtain acts types where acts: "actions_of ob w = Some acts" "types_of ob w = Some types"
        "get_action t types = Some (t, args_prototype a)" by blast
    note list = ready_lists [OF w acts(1), of t]
    have "accepting (acts t) = 0" if "t \<noteq> READABLE"
      using list that by (intro accepting_none) (metis belongs.simps(5) is_accept.elims(2))
    then have accepts: "accepting (acts t) \<le> gains t"
      using list by (auto simp: gains_def)
    have "triple (ready k) (execute_list (touch_list ob t (acts t)) (\<lambda>cb. run_callback K U X m cb a) (acts t))
        (\<lambda>_. ready (k + accepting (acts t))) (\<lambda>e. e \<noteq> OutOfFuel)"
    proof (rule list_lasts [where k = "k + gains t"], goal_cases)
      case (1 c j)
      then show ?case
        using fuel list by (intro callback_lasts [OF X U acts(2,3)]) auto
    next
      case (2 c j)
      then obtain i p where c: "exec c = Server_accept i p" by (cases "exec c") simp_all
      then have t: "t = READABLE"
        using list 2(1) by auto
      then show ?case
        unfolding c run_callback.simps using fuel 2(3) by (intro accept_ready X) (simp_all add: gains_def)
    qed (use accepts in \<open>auto intro: lasts_rules\<close>)
    from triple_post [OF this, of "\<lambda>_. ready (k + gains t)"] accepts show ?thesis
      unfolding execute_action_apply [OF acts] using w ready_mono [of "k + accepting (acts t)" _ "k + gains t"]
      by (simp add: triple_def)
  qed
qed

lemma execute_lasts:
  assumes U: "disciplined U" "frugal U" "modest U"
  shows "level t + 3 * (k + gains t) \<le> n \<Longrightarrow>
    triple (ready k) (execute K U n ob t a) (\<lambda>_. ready (k + gains t)) (\<lambda>e. e \<noteq> OutOfFuel)"
proof (induction n arbitrary: ob t a k)
  case 0
  then show ?case by (cases t) simp_all
next
  case (Suc n)
  have "lasts (ready j) (execute K U n ob t a)" if "t \<noteq> READABLE" "level t + 3 * j \<le> n" for ob t a j
    using Suc.IH [of t j ob a] that by (simp add: gains_def lasts_def)
  then show ?case
    unfolding execute.simps by (rule action_lasts [OF _ U Suc.prems])
qed

section \<open>Good worlds are ready\<close>

lemma shape_belongs:
  assumes "sock_shape p s" and "cb \<in> set (sactions s t)"
  shows "belongs t (exec cb)"
proof (cases "sclass s")
  case Tcp_connection
  then have shape: "tcp_shape p s" using assms(1) by (simp add: sock_shape_def)
  show ?thesis
  proof (cases "t = CLOSED")
    case True
    moreover have "closing_hook p cb' \<Longrightarrow> belongs CLOSED cb'" for cb'
      by (auto simp: closing_hook_def)
    ultimately show ?thesis using shape assms(2) by (auto simp: tcp_shape_def)
  next
    case False
    then have "tcp_callback p t (exec cb)" using shape assms(2) by (auto simp: tcp_shape_def)
    then show ?thesis by (cases t) auto
  qed
next
  case Raw_socket
  then have "is_user (exec cb)" using assms by (simp add: sock_shape_def)
  then show ?thesis by (cases "exec cb") simp_all
next
  case Udp_socket
  then have "datagram_callback p t (exec cb)" using assms by (simp add: sock_shape_def)
  then show ?thesis by (cases "exec cb") simp_all
qed

lemma sound_lists:
  assumes "sound K U w"
  shows "lists_ok w"
  unfolding lists_ok_def
proof (intro allI impI conjI ballI)
  fix ob acts t assume acts: "actions_of ob w = Some acts"
  show "accepting (acts t) \<le> 1"
  proof -
    have "accepting (acts t) \<le> (if t = READABLE then 1 else 0)"
      using sound_accepts [OF assms] acts unfolding accepts_ok_def by blast
    then show ?thesis by (simp split: if_splits)
  qed
  fix cb assume cb: "cb \<in> set (acts t)"
  show "belongs t (exec cb)"
  proof (cases "\<exists>p. ob = Socket_obj p")
    case True
    then obtain p s where "heap w p = Some s" "acts = sactions s"
      using acts by (auto split: option.splits)
    then show ?thesis using shape_belongs soundD(9) [OF assms] cb by blast
  next
    case False
    then have "is_user (exec cb)"
      using assms acts cb by (cases ob) (auto simp: sound_but_def tables_ok_def)
    then show ?thesis by (cases "exec cb") simp_all
  qed
qed

lemma sound_ready: "sound K U w \<Longrightarrow> few_descriptors K \<Longrightarrow> ready 65533 w"
  using all_open_few sound_lists by (simp add: ready_def)

end
