(* ===== verification/Returning_Calls.thy ===== *)
theory Returning_Calls
  imports Enough_Fuel
begin

text \<open>
  Total correctness of the calls of a main program: with enough fuel no call of a modest program runs out
  of it.
\<close>

section \<open>An executor that is only asked for what it owes\<close>

text \<open>
  The executor with a guard: asked for an execution that the contract says nothing about, it stops with a
  fault that the contract excludes.
\<close>

definition vouched :: "kernel \<Rightarrow> user_program \<Rightarrow> executor \<Rightarrow> executor" where
  "vouched K U X ob t a = (\<lambda>w.
     if sound K U w \<and> legit U ob t a w \<or> applicable ob t a w \<and> (\<exists>acts. actions_of ob w = Some acts \<and> acts t = [])
     then X ob t a w else Inl NoSuchAction)"

lemma vouched_approx: "approx NoSuchAction (vouched K U X ob t a) (X ob t a)"
  by (simp add: approx_def vouched_def)

lemma vouched_contract:
  assumes "executor_contract K U X"
  shows "executor_contract K U (vouched K U X)"
proof
  fix w ob t a assume "sound K U w" "legit U ob t a w"
  then show "ends K U (doomed ob t w) w (vouched K U X ob t a w)
      (\<lambda>_ w'. (inert ob t w \<longrightarrow> echoes w w') \<and> (\<forall>p \<in> doomed ob t w. heap w' p = None))"
    using executor_contract.exec_law [OF assms] by (simp add: vouched_def)
next
  fix ob t a w acts assume "applicable ob t a w" "actions_of ob w = Some acts" "acts t = []"
  then show "vouched K U X ob t a w = Inr ((), w) \<or> vouched K U X ob t a w = Inl OutOfFuel"
    using executor_contract.empty_law [OF assms] by (auto simp: vouched_def)
next
  fix ob t a assume "frugal U" "disciplined U"
  then have "spends (if t = READABLE then 2 else 0) (X ob t a)"
    by (rule executor_contract.cost_law [OF assms])
  then show "spends (if t = READABLE then 2 else 0) (vouched K U X ob t a)"
    unfolding spends_def vouched_def by (simp split: if_splits)
qed

interpretation vouched: executor_contract K U "vouched K U (execute K U n)" for K U n
  by (rule vouched_contract [OF execute_contract])

text \<open>The programs and the fuel for which calls return.\<close>

definition returning :: "kernel \<Rightarrow> user_program \<Rightarrow> nat \<Rightarrow> bool" where
  "returning K U n \<longleftrightarrow> env_ok K U \<and> counted K U \<and> modest U \<and> 196608 \<le> n"

lemma level_le: "level t \<le> 4"
  by (cases t) simp_all

lemma returning_execute:
  assumes "returning K U n" and "k \<le> 65533"
  shows "triple (ready k) (execute K U n ob t a) (\<lambda>_. ready (k + gains t)) (\<lambda>e. e \<noteq> OutOfFuel)"
  using assms level_le [of t]
  by (intro execute_lasts) (simp_all add: returning_def counted_def env_ok_def gains_def)

lemma vouched_lasts:
  assumes R: "returning K U n"
  shows "lasts (\<lambda>_. True) (vouched K U (execute K U n) ob t a)"
proof (rule always)
  fix w
  have "execute K U n ob t a w \<noteq> Inl OutOfFuel" if "sound K U w"
    using tripleD_fault [OF returning_execute [OF R order_refl], of w ob t a] sound_ready [OF that] R
    by (auto simp: returning_def counted_def)
  moreover have "execute K U n ob t a w \<noteq> Inl OutOfFuel"
    if a: "applicable ob t a w" "actions_of ob w = Some acts" "acts t = []" for acts
  proof -
    obtain m where "n = Suc m" using R by (cases n) (simp_all add: returning_def)
    moreover obtain types where "types_of ob w = Some types" "get_action t types = Some (t, args_prototype a)"
      using a by (cases ob) auto
    ultimately show ?thesis
      using a by (simp add: execute_action_empty)
  qed
  ultimately show "vouched K U (execute K U n) ob t a w \<noteq> Inl OutOfFuel"
    by (auto simp: vouched_def)
qed

section \<open>Calls return\<close>

lemma plain_call_returns:
  assumes R: "returning K U n" and I: "sound K U w" "at_rest w" and c: "callback_cmd c" "\<not> sweeping c"
  shows "run_cmd K (execute K U n) n c w \<noteq> Inl OutOfFuel"
proof -
  let ?r = "run_cmd K (vouched K U (execute K U n)) n c w"
  have "?r \<noteq> Inl NoSuchAction"
  proof (cases "permits (scope_of w) c")
    case True
    have "ends K U {} w ?r (\<lambda>_ _. True)"
      by (rule vouched.run_cmd_safe [OF I(1) c(1)]) (simp_all add: True calm_rest [OF I(2)])
    then show ?thesis by (auto simp: ends_def blamed_def allowed_def harmless_def fresh_objects_def)
  next
    case False
    then show ?thesis
      using vouched.run_cmd_unusable [OF I(1) c(1) False, of n n] by (auto simp: blamed_def allowed_def)
  qed
  moreover have "approx NoSuchAction (run_cmd K (vouched K U (execute K U n)) n c) (run_cmd K (execute K U n) n c)"
    by (intro approx_run_cmd vouched_approx) simp
  ultimately have "run_cmd K (execute K U n) n c w = ?r"
    by (intro approxD)
  moreover have "?r \<noteq> Inl OutOfFuel"
    by (rule lastsD [OF always_cmd [OF vouched_lasts [OF R] c(2)]]) simp
  ultimately show ?thesis by simp
qed

text \<open>Each round of a closing loop closes a socket that was open.\<close>

lemma first_stored:
  assumes I: "sound K U w" "at_rest w" and "map_begin (c_sockets (get_container c w)) = Some e"
  obtains s where "heap w (snd e) = Some s" "0 \<le> sock_fd s"
proof -
  have "stored w c (fst e) (snd e)"
    using assms(3) std_map.begin_Some [OF soundD(10) [OF I(1)], of c "fst e" "snd e"] by (simp add: stored_def)
  then obtain s where "heap w (snd e) = Some s" "sclass s = Tcp_connection"
    using soundD(12) [OF I(1)] by blast
  moreover from this have "0 \<le> sock_fd s"
    using I(2) unfolding at_rest_def closing_def by (meson not_less)
  ultimately show thesis using that by blast
qed

lemma container_close_returns:
  assumes R: "returning K U n"
  shows "k \<le> m \<Longrightarrow> k \<le> 65533 \<Longrightarrow> sound K U w \<Longrightarrow> at_rest w \<Longrightarrow> ready k w \<Longrightarrow>
    container_close K (execute K U n) m c w \<noteq> Inl OutOfFuel"
proof (induction m arbitrary: k w)
  case 0
  have "map_begin (c_sockets (get_container c w)) = None"
  proof (rule ccontr)
    assume "map_begin (c_sockets (get_container c w)) \<noteq> None"
    then obtain e where e: "map_begin (c_sockets (get_container c w)) = Some e" by blast
    obtain s where "heap w (snd e) = Some s" "0 \<le> sock_fd s"
      by (rule first_stored [OF 0(3,4) e])
    then have "snd e \<in> all_open w" by (simp add: all_open_def)
    then show False using 0(1,5) by (auto simp: ready_def)
  qed
  then show ?case by (simp add: prog_simps)
next
  case (Suc m)
  show ?case
  proof (cases "map_begin (c_sockets (get_container c w))")
    case None
    then show ?thesis by (simp add: prog_simps)
  next
    case (Some e)
    obtain s where s: "heap w (snd e) = Some s" "0 \<le> sock_fd s"
      by (rule first_stored [OF Suc.prems(3,4) Some])
    then have "snd e \<in> all_open w" by (simp add: all_open_def)
    then have "0 < k" using Suc.prems(5) card_gt_0_iff [of "all_open w"] by (auto simp: ready_def)
    then obtain j where j: "k = Suc j" by (cases k) simp_all
    have close: "case sock_close K (execute K U n) (snd e) w of Inl e \<Rightarrow> e \<noteq> OutOfFuel | Inr (u, w') \<Rightarrow> ready j w'"
      using returning_execute [OF R, of j "Socket_obj (snd e)" CLOSED A_none] Suc.prems(2,5) s
      by (intro close_ready) (simp_all add: j lasts_def gains_def)
    have "ends K U {} w (sock_close K (execute K U n) (snd e) w) (\<lambda>_ _. True)"
      by (rule ends_weaken [OF program.close_safe [OF Suc.prems(3) s(1)]]) simp
    then have "sock_close K (execute K U n) (snd e) w = Inr (u, w') \<Longrightarrow> sound K U w' \<and> at_rest w'" for u w'
      using rest_steps [OF _ Suc.prems(4)] by (auto simp: ends_def)
    then show ?thesis
      using close Some Suc.IH [of j] Suc.prems(1,2) by (auto simp: prog_simps j split: sum.splits)
  qed
qed

lemma sweeping_call_returns:
  assumes R: "returning K U n" and I: "sound K U w" "at_rest w" and c: "sweeping c"
  shows "run_cmd K (execute K U n) n c w \<noteq> Inl OutOfFuel"
proof -
  have loop: "container_close K (execute K U n) n c w \<noteq> Inl OutOfFuel" if "sound K U w" "at_rest w" for c w
    using R sound_ready [OF that(1)] by (intro container_close_returns [OF R _ order_refl that]) (simp_all add: returning_def counted_def)
  have next_rest: "sound K U w' \<and> at_rest w'" if "container_close K (execute K U n) n c w = Inr (u, w')" for c u w'
    using program.container_close_safe [OF I(1), of n n c] that rest_steps [OF _ I(2)] by auto
  show ?thesis
    using c loop [OF I] loop next_rest
    by (cases c) (fastforce simp: server_close_def client_close_def andThen_apply split: sum.splits)+
qed

lemma call_returns:
  assumes "returning K U n" and "sound K U w" and "at_rest w" and "main_cmd c"
  shows "run_cmd K (execute K U n) n c w \<noteq> Inl OutOfFuel"
proof (cases "callback_cmd c")
  case True
  then show ?thesis
    using plain_call_returns sweeping_call_returns assms by blast
next
  case False
  then obtain i p t u fl where c: "c = Server_on i t u fl \<or> c = Client_on i t u fl \<or> c = Socket_on p t u fl"
    using main_cmd_cases [OF assms(4)] by blast
  show ?thesis
    using registration_faults [OF _ c, of K "execute K U n" n w OutOfFuel] by blast
qed

end
