(* ===== verification/Lifecycle.thy ===== *)
theory Lifecycle
  imports Dispatcher
begin

text \<open>
  Behaviour of the composed program, with the executor of theory \<open>Dispatcher\<close> in place of the
  parameter: closing containers (emptied with quiet hooks, never returning from a hook that closes
  its own server), events without a callback, the life of the temporary socket of
  \<^verbatim>\<open>udp::send_to\<close>, and the irrelevance of fuel.
\<close>

section \<open>Closing with quiet hooks\<close>

text \<open>
  A library lambda on \<open>CLOSED\<close> is quiet when the action it forwards to has no callback; a stored
  socket closes quietly when its \<open>CLOSED\<close> list is quiet lambdas followed by the erasing callback.
\<close>

fun quiet_hook :: "world \<Rightarrow> callback \<Rightarrow> bool" where
  "quiet_hook w (Server_closed i p) = (srv_actions (servers w i) TCP_CLOSED = [])"
| "quiet_hook w (Server_disconnect i p) = (srv_actions (servers w i) DISCONNECT = [])"
| "quiet_hook w (Client_closed i p) = (cl_actions (clients w i) TCP_CLOSED = [])"
| "quiet_hook w cb = False"

definition quiet_close :: "container_ref \<Rightarrow> int \<Rightarrow> sock \<Rightarrow> world \<Rightarrow> bool" where
  "quiet_close c k s w \<longleftrightarrow> (\<exists>pre. sactions s CLOSED = pre @ [erase_callback c k] \<and>
     (\<forall>cb \<in> set pre. flags cb = 0 \<and> quiet_hook w (exec cb)))"

lemma quiet_hook_cong:
  "(\<And>i. srv_actions (servers w' i) = srv_actions (servers w i)) \<Longrightarrow>
   (\<And>i. cl_actions (clients w' i) = cl_actions (clients w i)) \<Longrightarrow> quiet_hook w' cb = quiet_hook w cb"
  by (cases cb) simp_all

lemma quiet_close_cong:
  "(\<And>i. srv_actions (servers w' i) = srv_actions (servers w i)) \<Longrightarrow>
   (\<And>i. cl_actions (clients w' i) = cl_actions (clients w i)) \<Longrightarrow> quiet_close c k s w' = quiet_close c k s w"
  unfolding quiet_close_def using quiet_hook_cong [of w' w] by simp

lemma quiet_close_fd [simp]: "quiet_close c k (s\<lparr>sock_fd := fd\<rparr>) w = quiet_close c k s w"
  by (simp add: quiet_close_def)

lemma execute_server_empty:
  "get_action t (server_actions_list []) = Some (t, args_prototype a) \<Longrightarrow> srv_actions (servers w i) t = [] \<Longrightarrow>
   execute K U (Suc n) (Server_obj i) t a w = Inr ((), w)"
  unfolding execute.simps by (rule execute_action_empty [where acts = "srv_actions (servers w i)"]) simp_all

lemma execute_client_empty:
  "get_action t (client_actions_list []) = Some (t, args_prototype a) \<Longrightarrow> cl_actions (clients w i) t = [] \<Longrightarrow>
   execute K U (Suc n) (Client_obj i) t a w = Inr ((), w)"
  unfolding execute.simps by (rule execute_action_empty [where acts = "cl_actions (clients w i)"]) simp_all

lemma run_quiet_hook:
  "quiet_hook w cb \<Longrightarrow> run_callback K U (execute K U (Suc n)) m cb A_none w = Inr ((), w)"
  by (cases cb) (simp_all add: execute_server_empty execute_client_empty action_list_defs del: execute.simps)

lemma execute_list_quiet:
  assumes "touch w = Inr ((), w)" and "\<forall>cb \<in> set pre. flags cb = 0 \<and> run (exec cb) w = Inr ((), w)"
  shows "execute_list touch run (pre @ [erase_callback c k]) w = run (Container_erase c k) w"
  using assms(2) by (induction pre) (auto simp: prog_simps assms(1))

lemma execute_quiet_close:
  assumes "heap w p = Some s" and "sclass s = Tcp_connection" and "quiet_close c k s w"
  shows "execute K U (Suc (Suc n)) (Socket_obj p) CLOSED A_none w = container_erase c k w"
proof -
  obtain pre where pre: "sactions s CLOSED = pre @ [erase_callback c k]"
      "\<forall>cb \<in> set pre. flags cb = 0 \<and> quiet_hook w (exec cb)"
    using assms(3) by (auto simp: quiet_close_def)
  have "execute K U (Suc (Suc n)) (Socket_obj p) CLOSED A_none w =
      execute_list (touch_list (Socket_obj p) CLOSED (sactions s CLOSED))
        (\<lambda>cb. run_callback K U (execute K U (Suc n)) (Suc n) cb A_none) (sactions s CLOSED) w"
    using execute_action_apply [of "Socket_obj p" w "sactions s" "class_actions Tcp_connection" CLOSED A_none]
      assms(1,2) by (simp add: action_list_defs del: execute.simps) (simp add: action_list_defs)
  also have "\<dots> = run_callback K U (execute K U (Suc n)) (Suc n) (Container_erase c k) A_none w"
    unfolding pre(1) using assms(1) pre
    by (intro execute_list_quiet) (simp_all add: touch_list_def run_quiet_hook del: execute.simps)
  finally show ?thesis by simp
qed

text \<open>One round of \<^verbatim>\<open>close\<close>: the first stored socket is closed, erased and destroyed.\<close>

lemma container_close_round:
  assumes cs: "c_sockets (get_container c w) = (k, p) # m"
    and s: "heap w p = Some s" "sclass s = Tcp_connection" "sock_fd s = k" "0 \<le> k" "quiet_close c k s w"
    and wf: "handler_wf (handlers w (shandler s))"
  obtains w' where "container_close K (execute K U (Suc (Suc n))) (Suc f) c w = container_close K (execute K U (Suc (Suc n))) f c w'"
    "c_sockets (get_container c w') = m" "heap w' = (heap w)(p := None)"
    "open_fds (trace w') = open_fds (trace w) - {k}" "handler_wf (handlers w' (shandler s))"
    "registry (handlers w' (shandler s)) = (registry (handlers w (shandler s)))(k := None)"
    "\<And>c' k' s'. quiet_close c' k' s' w' = quiet_close c' k' s' w"
proof -
  let ?X = "execute K U (Suc (Suc n))"
  obtain h' w1 where w1: "sock_close K ?X p w = ?X (Socket_obj p) CLOSED A_none w1"
      "w1 = (after K (Sys_close k) (set_handler (shandler s) h' w))\<lparr>heap := (heap w)(p \<mapsto> s\<lparr>sock_fd := -1\<rparr>)\<rparr>"
      "handler_wf h'" "registry h' = (registry (handlers w (shandler s)))(k := None)"
    using sock_close_law [of w p s K ?X] s wf by metis
  let ?w2 = "put_container c ((get_container c w)\<lparr>c_sockets := m\<rparr>) (w1\<lparr>heap := (heap w)(p := None)\<rparr>)"
  have keep: "quiet_close c' k' s' w1 = quiet_close c' k' s' w" "quiet_close c' k' s' ?w2 = quiet_close c' k' s' w" for c' k' s'
    by (rule quiet_close_cong; simp add: w1(2))+
  have "?X (Socket_obj p) CLOSED A_none w1 = container_erase c k w1"
    by (rule execute_quiet_close [of _ _ "s\<lparr>sock_fd := -1\<rparr>"])
      (simp_all add: s(2,5) keep(1), simp add: w1(2))
  also have "\<dots> = Inr ((), ?w2)"
    using cs w1(2) by (simp add: container_erase_def prog_simps)
  finally have "container_close K ?X (Suc f) c w = container_close K ?X f c ?w2"
    using cs w1(1) by (simp add: prog_simps del: execute.simps)
  then show ?thesis
    by (rule that) (use w1(2-4) keep(2) in simp_all)
qed

text \<open>
  C13. A container of open sockets that close quietly is emptied by \<^verbatim>\<open>close\<close> in as many rounds as it has
  sockets: every stored object is destroyed, its descriptor closed and removed from the handler, and
  nothing else is.
\<close>

theorem container_close_empties:
  assumes "handler_wf (handlers w h)"
    and "\<forall>(k, p) \<in> set (c_sockets (get_container c w)). \<exists>s. heap w p = Some s \<and>
      sclass s = Tcp_connection \<and> sock_fd s = k \<and> 0 \<le> k \<and> shandler s = h \<and> quiet_close c k s w"
    and "distinct (map snd (c_sockets (get_container c w)))"
    and "length (c_sockets (get_container c w)) \<le> fuel"
  shows "\<exists>w'. container_close K (execute K U (Suc (Suc n))) fuel c w = Inr ((), w') \<and>
    c_sockets (get_container c w') = [] \<and>
    heap w' = heap w |` (- snd ` set (c_sockets (get_container c w))) \<and>
    open_fds (trace w') = open_fds (trace w) - fst ` set (c_sockets (get_container c w)) \<and>
    registry (handlers w' h) = registry (handlers w h) |` (- fst ` set (c_sockets (get_container c w)))"
  using assms
proof (induction "c_sockets (get_container c w)" arbitrary: w fuel)
  case Nil
  then show ?case
    by (cases fuel) (simp_all add: prog_simps restrict_map_def)
next
  case (Cons e m)
  obtain k p where cs: "c_sockets (get_container c w) = (k, p) # m"
    using Cons.hyps(2) by (metis surj_pair)
  obtain s where s: "heap w p = Some s" "sclass s = Tcp_connection" "sock_fd s = k" "0 \<le> k" "quiet_close c k s w"
      and h: "shandler s = h"
    using Cons.prems(2) cs by auto
  obtain f where f: "fuel = Suc f" "length m \<le> f"
    using Cons.prems(4) cs by (cases fuel) auto
  from container_close_round [OF cs s, of K U n f] Cons.prems(1) obtain w2 where
      w2: "container_close K (execute K U (Suc (Suc n))) fuel c w = container_close K (execute K U (Suc (Suc n))) f c w2"
        "c_sockets (get_container c w2) = m" "heap w2 = (heap w)(p := None)" "open_fds (trace w2) = open_fds (trace w) - {k}"
        "handler_wf (handlers w2 h)" "registry (handlers w2 h) = (registry (handlers w h))(k := None)"
      and keep: "\<And>c' k' s'. quiet_close c' k' s' w2 = quiet_close c' k' s' w"
    unfolding h f(1) by metis
  have "q \<noteq> p" if "(k', q) \<in> set m" for k' q
    using Cons.prems(3) cs that by force
  then have "\<forall>(k, q) \<in> set m. \<exists>s. heap w2 q = Some s \<and>
      sclass s = Tcp_connection \<and> sock_fd s = k \<and> 0 \<le> k \<and> shandler s = h \<and> quiet_close c k s w2"
    using Cons.prems(2) cs unfolding keep by (fastforce simp: w2(3))
  with Cons.hyps(1) [of w2 f] show ?case
    using Cons.prems(3) cs f(2) w2 by (auto simp: restrict_map_def fun_eq_iff)
qed

section \<open>Closing from a hook\<close>

text \<open>A hook that closes the server meets the closed, still stored client for ever.\<close>

lemma closing_hook_loops:
  assumes first: "map_begin (c_sockets (clients_container (servers w i))) = Some (k, p)" "heap w p = Some s" "sock_fd s < 0"
    and hook: "srv_actions (servers w i) DISCONNECT = [\<lparr>exec = User u, flags = 0\<rparr>]" "U u (A_connection p) w = [Server_close i]"
  shows "execute K U n (Server_obj i) DISCONNECT (A_connection p) w = Inl OutOfFuel"
proof (cases n)
  case 0
  then show ?thesis by (simp add: prog_simps)
next
  case (Suc j)
  have loop: "container_close K X fuel (Clients i) w = Inl OutOfFuel" for X fuel
    using first by (induction fuel) (simp_all add: prog_simps sock_close_def)
  have "execute K U (Suc j) (Server_obj i) DISCONNECT (A_connection p) w =
      execute_list (touch_list (Server_obj i) DISCONNECT [\<lparr>exec = User u, flags = 0\<rparr>])
        (\<lambda>cb. run_callback K U (execute K U j) j cb (A_connection p)) [\<lparr>exec = User u, flags = 0\<rparr>] w"
    using execute_action_apply [of "Server_obj i" w "srv_actions (servers w i)" "server_actions_list []"
        DISCONNECT "A_connection p"] hook(1)
    by (simp add: action_list_defs)
  also have "\<dots> = Inl OutOfFuel"
    using hook loop [of "execute K U j" j] by (simp add: touch_list_def prog_simps server_close_def)
  finally show ?thesis using Suc by simp
qed

text \<open>
  C14. A server whose \<open>DISCONNECT\<close> hook closes the server itself never finishes closing a client that is
  first in its container: while the hook runs, the client has its descriptor \<open>-1\<close> but is still
  stored, so the loop of \<^verbatim>\<open>close\<close> meets it for ever, whatever the bound on rounds and nesting.
\<close>

theorem close_in_disconnect_hook_never_returns:
  assumes "heap w p = Some s" and "sclass s = Tcp_connection" and "0 \<le> sock_fd s"
    and "handler_wf (handlers w (shandler s))"
    and "sactions s CLOSED = [\<lparr>exec = Server_disconnect i p, flags = 0\<rparr>, erase_callback (Clients i) k]"
    and "map_begin (c_sockets (clients_container (servers w i))) = Some (k, p)"
    and "srv_actions (servers w i) DISCONNECT = [\<lparr>exec = User u, flags = 0\<rparr>]"
    and "\<And>w'. U u (A_connection p) w' = [Server_close i]"
  shows "sock_close K (execute K U n) p w = Inl OutOfFuel"
proof -
  let ?X = "execute K U n"
  obtain h' w1 where w1: "sock_close K ?X p w = ?X (Socket_obj p) CLOSED A_none w1"
      "w1 = (after K (Sys_close (sock_fd s)) (set_handler (shandler s) h' w))
        \<lparr>heap := (heap w)(p \<mapsto> s\<lparr>sock_fd := -1\<rparr>)\<rparr>"
    by (rule sock_close_law [OF assms(1,4,3)])
  have hook: "execute K U m (Server_obj i) DISCONNECT (A_connection p) w1 = Inl OutOfFuel" for m
    by (rule closing_hook_loops [where s = "s\<lparr>sock_fd := -1\<rparr>" and k = k]) (use assms(6-8) w1(2) in simp_all)
  show ?thesis
  proof (cases n)
    case 0
    then show ?thesis using w1(1) by (simp add: prog_simps)
  next
    case (Suc m)
    have "execute K U (Suc m) (Socket_obj p) CLOSED A_none w1 =
        execute_list (touch_list (Socket_obj p) CLOSED (sactions s CLOSED))
          (\<lambda>cb. run_callback K U (execute K U m) m cb A_none) (sactions s CLOSED) w1"
      using execute_action_apply [of "Socket_obj p" w1 "sactions s" "class_actions Tcp_connection" CLOSED A_none]
        assms(2) w1(2)
      by (simp add: action_list_defs del: execute.simps) (simp add: action_list_defs)
    also have "\<dots> = Inl OutOfFuel"
      using hook [of m] w1(2) by (simp add: assms(5) touch_list_def prog_simps)
    finally show ?thesis using w1(1) Suc by simp
  qed
qed

section \<open>Unhandled events\<close>

lemma execute_tcp_empty:
  "heap w p = Some s \<Longrightarrow> sclass s = Tcp_connection \<Longrightarrow> sactions s t = [] \<Longrightarrow>
   get_action t (class_actions Tcp_connection) = Some (t, args_prototype a) \<Longrightarrow>
   execute K U (Suc n) (Socket_obj p) t a w = Inr ((), w)"
  unfolding execute.simps by (rule execute_action_empty [where acts = "sactions s"]) simp_all

lemma execute_raw_empty:
  "heap w p = Some s \<Longrightarrow> sclass s = Raw_socket \<Longrightarrow> sactions s t = [] \<Longrightarrow>
   get_action t (class_actions Raw_socket) = Some (t, args_prototype a) \<Longrightarrow>
   execute K U (Suc n) (Socket_obj p) t a w = Inr ((), w)"
  unfolding execute.simps by (rule execute_action_empty [where acts = "sactions s"]) simp_all

lemma poll_loop_output:
  assumes "\<forall>i \<in> set is. i < length (socket_ptrs (handlers v h)) \<and>
      (revents (sockets (handlers v h) ! i) = 0 \<or> revents (sockets (handlers v h) ! i) = POLLOUT)"
    and "\<And>p. p \<in> set (socket_ptrs (handlers v h)) \<Longrightarrow> X (Socket_obj p) WRITEABLE A_none v = Inr ((), v)"
  shows "poll_loop X h (storage (handlers v h)) n is v = Inr ((), v)"
  using assms(1)
proof (induction "is" arbitrary: n)
  case Nil
  then show ?case by (simp add: prog_simps)
next
  case (Cons i "is")
  have "POLLOUT AND POLLIN = 0"
    by (simp add: POLLIN_def POLLOUT_def)
  then show ?case
    using Cons assms(2) [of "socket_ptrs (handlers v h) ! i"]
    by (auto simp: fresh_iterator_def prog_simps ref_has_changed_def socket_ptr_at_def on_writeable_def)
qed



section \<open>Sending a single datagram\<close>

text \<open>A raw socket without callbacks that sends one datagram and closes.\<close>

lemma silent_raw:
  "heap v p = Some (new_sock Raw_socket h f) \<Longrightarrow> (t, args_prototype a) \<in> {(ERROR, P_error), (CLOSED, P_void)} \<Longrightarrow>
   execute K U (Suc n) (Socket_obj p) t a v = Inr ((), v)"
  by (rule execute_raw_empty) (auto simp: new_sock_def action_list_defs)

lemma raw_send_and_close:
  fixes K v addr message flgs fd
  defines "r \<equiv> Sys_sendto fd message flgs addr (sa_size addr)"
  assumes s: "heap v p = Some (new_sock Raw_socket h fd)" "0 < fd" and wf: "handler_wf (handlers v h)"
  obtains z where "raw_send_to K (execute K U (Suc n)) p addr message flgs v = Inr (0 \<le> ret_value (reply K r v), after K r v)"
    "sock_close K (execute K U (Suc n)) p (after K r v) = Inr ((), z)"
    "heap z = (heap v)(p \<mapsto> new_sock Raw_socket h (-1))" "open_fds (trace z) = open_fds (trace v) - {fd}"
    "\<And>h'. h' \<noteq> h \<Longrightarrow> handlers z h' = handlers v h'"
proof -
  let ?X = "execute K U (Suc n)" and ?u = "after K r v"
  have u: "heap ?u p = Some (new_sock Raw_socket h fd)" using s(1) by simp
  have sent: "raw_send_to K ?X p addr message flgs v = Inr (0 \<le> ret_value (reply K r v), ?u)"
    using s silent_raw [OF u, of ERROR "A_error ''sendto'' (errno ?u)" K U n]
    by (simp add: r_def raw_send_to_def get_socket_def prog_simps new_sock_def del: execute.simps)
  have f: "shandler (new_sock Raw_socket h fd) = h" "sock_fd (new_sock Raw_socket h fd) = fd"
      "(new_sock Raw_socket h fd)\<lparr>sock_fd := -1\<rparr> = new_sock Raw_socket h (-1)"
    by (simp_all add: new_sock_def)
  have "handler_wf (handlers ?u (shandler (new_sock Raw_socket h fd)))" "0 \<le> sock_fd (new_sock Raw_socket h fd)"
    using wf s(2) by (simp_all add: f)
  from sock_close_law [OF u this, of K ?X] obtain g z where z: "sock_close K ?X p ?u = ?X (Socket_obj p) CLOSED A_none z"
      "z = (after K (Sys_close fd) (set_handler h g ?u))\<lparr>heap := (heap ?u)(p \<mapsto> new_sock Raw_socket h (-1))\<rparr>"
    unfolding f by metis
  then have "sock_close K ?X p ?u = Inr ((), z)"
    using silent_raw [of z p h "-1" CLOSED A_none K U n] by (simp del: execute.simps)
  then show ?thesis
    by (rule that [OF sent]) (use z(2) in \<open>simp_all add: r_def open_fds_def\<close>)
qed

text \<open>Opening the temporary socket, which the kernel refuses or grants.\<close>

lemma raw_open:
  fixes K v d ty pr
  defines "c \<equiv> Sys_socket d ty pr"
  assumes s: "heap v p = Some (new_sock Raw_socket h (-1))"
  shows "ret_value (reply K c v) < 0 \<Longrightarrow> sock_open K (execute K U (Suc n)) p d ty pr v = Inr (False, after K c v)"
    and "0 \<le> ret_value (reply K c v) \<Longrightarrow> sock_open K (execute K U (Suc n)) p d ty pr v =
      Inr (True, set_handler h (add_socket (ret_value (reply K c v)) p (handlers v h))
        ((after K c v)\<lparr>heap := (heap v)(p \<mapsto> new_sock Raw_socket h (ret_value (reply K c v)))\<rparr>))"
proof -
  have idem: "(after K c v)\<lparr>heap := (heap v)(p \<mapsto> new_sock Raw_socket h (-1))\<rparr> = after K c v"
    using s by (simp add: fun_upd_idem)
  show "ret_value (reply K c v) < 0 \<Longrightarrow> sock_open K (execute K U (Suc n)) p d ty pr v = Inr (False, after K c v)"
    using s idem silent_raw [of "after K c v" p h "-1" ERROR "A_error ''socket'' (errno (after K c v))" K U n]
    by (simp add: c_def sock_open_def base_open_def prog_simps new_sock_def del: execute.simps)
  show "0 \<le> ret_value (reply K c v) \<Longrightarrow> sock_open K (execute K U (Suc n)) p d ty pr v =
      Inr (True, set_handler h (add_socket (ret_value (reply K c v)) p (handlers v h))
        ((after K c v)\<lparr>heap := (heap v)(p \<mapsto> new_sock Raw_socket h (ret_value (reply K c v)))\<rparr>))"
    using s by (simp add: c_def sock_open_def base_open_def prog_simps new_sock_def handler_add_socket_def del: execute.simps)
qed

text \<open>
  C34. \<^verbatim>\<open>udp::send_to\<close> leaves nothing behind: its temporary socket is closed and destroyed and its
  descriptor is given back whether or not the message could be sent, and it returns true exactly
  if the kernel opened the socket and took the message.
\<close>

theorem udp_send_to_leaves_nothing:
  fixes K w addr
  defines "fd \<equiv> ret_value (reply K (Sys_socket (uint (sa_family addr)) SOCK_DGRAM 0) w)"
  assumes "fd \<noteq> 0" and "fd \<notin> open_fds (trace w)" and "heap w (next_ptr w) = None"
  shows "\<exists>w' ok. udp_send_to K (execute K U (Suc n)) addr message flgs w = Inr (ok, w') \<and>
    heap w' = heap w \<and> open_fds (trace w') = open_fds (trace w) \<and>
    (\<forall>h. h \<noteq> next_handler w \<longrightarrow> handlers w' h = handlers w h) \<and>
    (ok \<longleftrightarrow> 0 \<le> fd \<and> 0 \<le> ret_value (reply K (Sys_sendto fd message flgs addr (sa_size addr))
       (after K (Sys_socket (uint (sa_family addr)) SOCK_DGRAM 0) w)))"
proof -
  let ?c = "Sys_socket (uint (sa_family addr)) SOCK_DGRAM 0"
  let ?p = "next_ptr w" and ?h = "next_handler w"
  let ?X = "execute K U (Suc n)"
  let ?s = "new_sock Raw_socket ?h"
  obtain w1 where w1: "raw_socket_ctor None w = Inr (?p, w1)" "heap w1 = (heap w)(?p \<mapsto> ?s (-1))"
      "handlers w1 = (handlers w)(?h := new_handler (invalid (handlers w ?h)))" "trace w1 = trace w"
    by (simp add: raw_socket_ctor_def pollable_entity_def make_handler_def prog_simps Let_def)
  have fd: "ret_value (reply K ?c w1) = fd"
    by (simp add: fd_def reply_def w1(4))
  have freed: "(heap w)(?p := None) = heap w"
    using assms(4) by auto
  show ?thesis
  proof (cases "fd < 0")
    case True
    have "sock_open K ?X ?p (uint (sa_family addr)) SOCK_DGRAM 0 w1 = Inr (False, after K ?c w1)"
      using True w1(2) fd by (intro raw_open(1)) simp_all
    then show ?thesis
      using True w1 freed fd
      by (auto simp: udp_send_to_def prog_simps simp del: execute.simps)
  next
    case False
    then have pos: "0 < fd" using assms(2) by simp
    let ?g = "add_socket fd ?p (new_handler (invalid (handlers w ?h)))"
    let ?v = "set_handler ?h ?g ((after K ?c w1)\<lparr>heap := (heap w)(?p \<mapsto> ?s fd)\<rparr>)"
    let ?r = "Sys_sendto fd message flgs addr (sa_size addr)"
    have opened: "sock_open K ?X ?p (uint (sa_family addr)) SOCK_DGRAM 0 w1 = Inr (True, ?v)"
      using raw_open(2) [of w1 ?p ?h K "uint (sa_family addr)" SOCK_DGRAM 0 U n] pos w1(2,3) fd by (simp del: execute.simps)
    have "handler_wf (handlers ?v ?h)"
      using poll.add_law [of "new_handler (invalid (handlers w ?h))" fd ?p] by (simp add: handler_wf_new)
    then obtain z where z: "raw_send_to K ?X ?p addr message flgs ?v = Inr (0 \<le> ret_value (reply K ?r ?v), after K ?r ?v)"
        "sock_close K ?X ?p (after K ?r ?v) = Inr ((), z)" "heap z = (heap ?v)(?p \<mapsto> ?s (-1))"
        "open_fds (trace z) = open_fds (trace ?v) - {fd}" "\<And>h'. h' \<noteq> ?h \<Longrightarrow> handlers z h' = handlers ?v h'"
      using raw_send_and_close [where v = ?v and p = ?p and h = ?h and K = K and addr = addr and message = message and
          flgs = flgs and fd = fd and U = U and n = n] pos by auto
    have "udp_send_to K ?X addr message flgs w =
        Inr (0 \<le> ret_value (reply K ?r ?v), z\<lparr>heap := (heap z)(?p := None)\<rparr>)"
      using w1(1) opened z(1-3) by (simp add: udp_send_to_def prog_simps del: execute.simps)
    moreover have "reply K ?r ?v = reply K ?r (after K ?c w)"
      by (simp add: reply_def w1(4))
    moreover have "open_fds (trace z) = open_fds (trace w)"
      using pos assms(3) fd w1(4) z(4) by (simp add: open_fds_def)
    ultimately show ?thesis
      using pos freed w1(3) z(3,5)
      by (intro exI [of _ "z\<lparr>heap := (heap z)(?p := None)\<rparr>"] exI [of _ "0 \<le> ret_value (reply K ?r ?v)"]) simp
  qed
qed

section \<open>Witnesses\<close>

text \<open>A server with one accepted client, object 0 with descriptor 3, and the given callbacks.\<close>

definition served_world :: "action_table \<Rightarrow> world" where
  "served_world acts = (one_socket Tcp_connection)\<lparr>
     heap := [0 \<mapsto> accepted_sock 0 0 0 3 new_address],
     servers := (\<lambda>_. \<lparr>srv_handler = 0, srv_actions = acts,
       listeners_container = \<lparr>c_handler = 0, c_sockets = []\<rparr>,
       clients_container = \<lparr>c_handler = 0, c_sockets = [(3, 0)]\<rparr>\<rparr>)\<rparr>"

lemma served_world_simps [simp]:
  "heap (served_world acts) = [0 \<mapsto> accepted_sock 0 0 0 3 new_address]"
  "srv_actions (servers (served_world acts) i) = acts"
  "clients_container (servers (served_world acts) i) = \<lparr>c_handler = 0, c_sockets = [(3, 0)]\<rparr>"
  "handlers (served_world acts) = handlers (one_socket Tcp_connection)"
  "trace (served_world acts) = [(Sys_socket 2 1 0, plain_ret 3)]"
  by (simp_all add: served_world_def) (simp add: one_socket_def)

lemma served_open_fds: "open_fds [(Sys_socket 2 1 0, plain_ret 3)] = {3}"
  by (simp add: open_fds_def plain_ret_def)

lemma accepted_sock_simps [simp]:
  "sclass (accepted_sock i p h fd a) = Tcp_connection" "sock_fd (accepted_sock i p h fd a) = fd"
  "shandler (accepted_sock i p h fd a) = h"
  "sactions (accepted_sock i p h fd a) CLOSED =
     [\<lparr>exec = Server_disconnect i p, flags = 0\<rparr>, erase_callback (Clients i) fd]"
  by (simp_all add: accepted_sock_def new_sock_def)

theorem container_close_empties_witness:
  "\<exists>w'. container_close (demo_kernel (\<lambda>_ _. None)) (execute (demo_kernel (\<lambda>_ _. None)) (\<lambda>_ _ _. []) 2) 1
      (Clients 0) (served_world (\<lambda>_. [])) = Inr ((), w') \<and>
    c_sockets (clients_container (servers w' 0)) = [] \<and> heap w' = Map.empty \<and> open_fds (trace w') = {}"
proof -
  have "quiet_close (Clients 0) 3 (accepted_sock 0 0 0 3 new_address) (served_world (\<lambda>_. []))"
    by (simp add: quiet_close_def)
  then show ?thesis
    using container_close_empties [of "served_world (\<lambda>_. [])" 0 "Clients 0" 1 "demo_kernel (\<lambda>_ _. None)"
        "\<lambda>_ _ _. []" 0]
    by (auto simp: one_socket_registry served_open_fds numeral_2_eq_2 simp del: execute.simps)
qed

theorem close_in_disconnect_hook_never_returns_witness:
  "\<forall>n. sock_close (demo_kernel (\<lambda>_ _. None)) (execute (demo_kernel (\<lambda>_ _. None)) (\<lambda>_ _ _. [Server_close 0]) n) 0
     (served_world (\<lambda>t. if t = DISCONNECT then [\<lparr>exec = User 0, flags = 0\<rparr>] else [])) = Inl OutOfFuel"
  by (intro allI close_in_disconnect_hook_never_returns [where s = "accepted_sock 0 0 0 3 new_address"
        and i = 0 and k = 3 and u = 0])
    (simp_all add: one_socket_registry)


definition output_world :: world where
  "output_world = (one_socket Tcp_connection)\<lparr>heap := [0 \<mapsto> connected_sock 0 0 0 3 new_address]\<rparr>"


theorem udp_send_to_leaves_nothing_witness:
  "\<exists>w'. udp_send_to (demo_kernel (\<lambda>_ _. None)) (execute (demo_kernel (\<lambda>_ _. None)) (\<lambda>_ _ _. []) 1)
      new_address [1, 2] 0 listener_world = Inr (True, w') \<and> heap w' = heap listener_world \<and>
    open_fds (trace w') = {}"
  using udp_send_to_leaves_nothing [of "demo_kernel (\<lambda>_ _. None)" new_address listener_world "\<lambda>_ _ _. []" 0
      "[1, 2]" 0]
  by (auto simp: plain_ret_def demo_nonneg reply_def [of _ "Sys_sendto fd b fl a n" for fd b fl a n]
      simp del: execute.simps)

end
