(* ===== verification/Safety.thy ===== *)
theory Safety
  imports Returning_Calls Lifecycle
begin

text \<open>
  Memory safety of the composed program: what calls may end in, which descriptors they name, and what
  handlers and containers hold in every world that a program can reach, for every kernel that hands out
  fresh descriptors and resolves names to the family asked for, and every user program whose callbacks
  register nothing and whose \<open>ERROR\<close> hooks only print.
\<close>

section \<open>A concrete program\<close>

text \<open>
  A kernel that hands out descriptors no history has seen, while there are any, and a program without
  callbacks.
\<close>

definition highest :: "history \<Rightarrow> int" where
  "highest h = fold (\<lambda>e m. max m (ret_value (snd e))) h 2"

definition next_descriptor :: "history \<Rightarrow> int" where
  "next_descriptor h = (if highest h < 65532 then highest h + 1 else -1)"

definition fresh_kernel :: kernel where
  "fresh_kernel = demo_kernel (\<lambda>h c. if opens_descriptor c then Some (plain_ret (next_descriptor h)) else None)"

lemma open_fds_highest: "fd \<in> open_fds h \<Longrightarrow> fd \<le> highest h"
proof (induction h rule: rev_induct)
  case Nil
  then show ?case by simp
next
  case (snoc e h)
  obtain c r where e: "e = (c, r)" by (cases e)
  have "fd \<in> open_fds h \<or> fd = ret_value r"
    using snoc.prems by (cases c) (auto simp: e split: if_splits)
  then show ?case
    using snoc.IH by (auto simp: highest_def e)
qed

lemma next_descriptor_unused: "next_descriptor h \<notin> open_fds h"
  using open_fds_highest [of "highest h + 1" h] open_nonneg [of "-1" h] by (auto simp: next_descriptor_def)

lemma fresh_kernel_ok: "fresh_descriptors fresh_kernel" "resolves_family fresh_kernel"
proof -
  show "fresh_descriptors fresh_kernel"
    using next_descriptor_unused by (simp add: fresh_descriptors_def fresh_kernel_def demo_kernel_def plain_ret_def)
  show "resolves_family fresh_kernel"
    by (auto simp: resolves_family_def fresh_kernel_def demo_kernel_def plain_ret_def)
qed

lemma fresh_kernel_positive: "positive_descriptors fresh_kernel"
proof -
  have low: "2 \<le> highest h" for h
    by (induction h rule: rev_induct) (simp_all add: highest_def max.coboundedI1)
  have "next_descriptor h \<noteq> 0" for h
    unfolding next_descriptor_def using low [of h] by auto
  then show ?thesis
    by (simp add: positive_descriptors_def fresh_kernel_def demo_kernel_def plain_ret_def)
qed

lemma fresh_kernel_few: "few_descriptors fresh_kernel"
  by (simp add: few_descriptors_def fresh_kernel_def demo_kernel_def plain_ret_def next_descriptor_def)

abbreviation silent :: user_program where
  "silent \<equiv> \<lambda>_ _ _. []"

lemma silent_disciplined: "disciplined silent"
  by (simp add: disciplined_def)

lemma silent_frugal: "frugal silent"
  by (simp add: frugal_def)

lemma fresh_kernel_answers:
  "0 \<le> ret_value (respond fresh_kernel h (Sys_connect fd a n))" "resolves_at_once fresh_kernel host fam"
  "ret_value (reply fresh_kernel (Sys_socket d ty pr) empty_world) = 3"
  by (simp_all add: resolves_at_once_def reply_def fresh_kernel_def demo_kernel_def plain_ret_def next_descriptor_def highest_def empty_world_def)

text \<open>A world with one connection, made by \<^verbatim>\<open>connect\<close>.\<close>

lemma connected_world:
  "\<exists>addr w. reachable fresh_kernel silent w \<and> heap w 0 = Some (connected_sock 0 0 0 3 addr) \<and>
     handlers w 0 = add_socket 3 0 (new_handler 0) \<and>
     map_find (c_sockets (get_container (Connections 0) w)) 3 = Some 0 \<and> cl_actions (clients w 0) = (\<lambda>_. [])"
proof -
  let ?K = fresh_kernel and ?c = "Connections 0"
  let ?w1 = "with_socket ?c 3 (after ?K (Sys_socket (uint (inet_family False)) SOCK_STREAM 0) empty_world)"
  have e: "get_container ?c empty_world = \<lparr>c_handler = 0, c_sockets = []\<rparr>" "next_ptr empty_world = 0"
      "handlers empty_world h = new_handler 0" "cl_actions (clients empty_world i) = (\<lambda>_. [])" for h i
    by (simp_all add: empty_world_def)
  obtain addr w2 where w2: "client_connect ?K (execute ?K silent 1) 0 ''localhost'' 80 False empty_world =
      andThen (execute ?K silent 1 (Client_obj 0) CONNECT (A_connection 0)) (\<lambda>_. ret True) w2"
      "heap w2 = (heap empty_world)(0 \<mapsto> connected_sock 0 0 0 3 addr)"
      "handlers w2 = handlers ?w1" "get_container ?c w2 = get_container ?c ?w1"
      "\<forall>j. cl_actions (clients w2 j) = cl_actions (clients empty_world j)"
    using connect_wiring [of ?K False empty_world 3 0 "''localhost''" "execute ?K silent 1" 80]
      fresh_kernel_answers e by (auto simp: map_find_map_of)
  have "execute ?K silent 1 (Client_obj 0) CONNECT (A_connection 0) w2 = Inr ((), w2)"
    using execute_client_empty [of CONNECT "A_connection 0" w2 0 ?K silent 0] w2(5) e(4)
    by (simp add: action_list_defs)
  then have "run_cmd ?K (execute ?K silent 1) 1 (Client_connect 0 ''localhost'' 80 False) empty_world = Inr ((), w2)"
    using w2(1) by (simp add: discard_def prog_simps del: execute.simps)
  then have "reachable ?K silent w2"
    by (rule reachable.call [OF reachable.start, rotated]) simp
  moreover have "handlers w2 0 = add_socket 3 0 (new_handler 0)"
    using w2(3) e by simp
  moreover have "map_find (c_sockets (get_container ?c w2)) 3 = Some 0"
    using w2(4) e by simp
  ultimately show ?thesis
    using w2(2,5) e(4) by (intro exI [of _ addr] exI [of _ w2]) (auto simp: empty_world_def)
qed

section \<open>Properties\<close>

text \<open>
  C1. No call of a disciplined program ever touches a destroyed object, a callback list that has
  changed while it runs, memory outside a vector, a null pointer or an uninitialised object, and none
  throws: from every reachable world a call returns to a sound world or stops for want of fuel.  It
  stops for an action the object does not have only if it is a registration, and on a poll iterator
  whose invalidation the change counter did not reveal only if the callbacks open sockets or the kernel
  hands out descriptors of 65533 and more.  It names a dead object only if the program does: if a
  callback keeps an object beyond a call that may destroy it, if a server or client has two callbacks on
  one action, or if the call itself names one.  It stops in an assertion only if there are raw or udp
  sockets or the kernel hands out descriptor 0.
\<close>

theorem calls_never_corrupt:
  assumes "fresh_descriptors K" and "resolves_family K" and "disciplined U"
    and "reachable K U w" and "main_cmd c"
  shows "case run_cmd K (execute K U n) n c w of
      Inl e \<Rightarrow> e = OutOfFuel \<or> e = NoSuchAction \<and> \<not> callback_cmd c \<or>
        e = InvalidatedPollIterator \<and> \<not> (few_descriptors K \<and> frugal U) \<or>
        e = Misuse \<and> \<not> (careful U w \<and> solitary w \<and> permits (scope_of w) c) \<or>
        e = AssertFailed \<and> \<not> (positive_descriptors K \<and> datagrams w = Map.empty)
    | Inr (x, w') \<Rightarrow> sound K U w'"
proof -
  have "sound K U w" "at_rest w"
    using reachable_safe [OF assms(4)] assms(1-3) by (simp_all add: env_ok_def)
  from call_outcome [OF this assms(5), of n] show ?thesis
    by (auto simp: blamed_def allowed_def counted_def tidy_def steadfast_def split: sum.splits)
qed

theorem calls_never_corrupt_witness:
  "\<forall>n. case run_cmd fresh_kernel (execute fresh_kernel silent n) n (Server_listen 0 ''localhost'' 80 False) empty_world of
      Inl e \<Rightarrow> e = OutOfFuel
    | Inr (x, w') \<Rightarrow> sound fresh_kernel silent w'"
proof
  fix n
  have "careful silent empty_world" "solitary empty_world" "datagrams empty_world = Map.empty"
    by (simp_all add: careful_def solitary_def datagrams_def forget_def scope_of_def empty_world_def fun_eq_iff)
  then show "case run_cmd fresh_kernel (execute fresh_kernel silent n) n (Server_listen 0 ''localhost'' 80 False) empty_world of
      Inl e \<Rightarrow> e = OutOfFuel
    | Inr (x, w') \<Rightarrow> sound fresh_kernel silent w'"
    using calls_never_corrupt [OF fresh_kernel_ok silent_disciplined reachable.start, of "Server_listen 0 ''localhost'' 80 False" n]
      fresh_kernel_positive fresh_kernel_few silent_frugal
    by (auto split: sum.splits simp del: execute.simps run_cmd.simps)
qed

text \<open>
  C3. Calls return.  If the callbacks open no socket, receive datagrams only on plain events and leave
  \<^verbatim>\<open>close\<close> of whole servers and clients to the main program, and the kernel keeps descriptors below 65533,
  then no call from a reachable world nests callbacks or repeats a round of a loop for ever: a fuel of 3
  times 65536 is enough for every call, whatever the kernel answers.  A call of a careful program that uses streams
  only, other than a registration, returns, and to a sound world.
\<close>

theorem calls_return:
  assumes "fresh_descriptors K" and "resolves_family K" and "few_descriptors K"
    and "disciplined U" and "frugal U" and "modest U"
    and "reachable K U w" and "main_cmd c" and "196608 \<le> n"
  shows "run_cmd K (execute K U n) n c w \<noteq> Inl OutOfFuel \<and>
    (callback_cmd c \<and> careful U w \<and> solitary w \<and> permits (scope_of w) c \<and> positive_descriptors K \<and> datagrams w = Map.empty \<longrightarrow>
      (\<exists>w'. run_cmd K (execute K U n) n c w = Inr ((), w') \<and> sound K U w'))"
proof -
  have I: "sound K U w" "at_rest w"
    using reachable_safe [OF assms(7)] assms(1,2,4) by (simp_all add: env_ok_def)
  have fuel: "run_cmd K (execute K U n) n c w \<noteq> Inl OutOfFuel"
    using assms by (intro call_returns [OF _ I]) (simp_all add: returning_def env_ok_def counted_def)
  then show ?thesis
    using call_outcome [OF I assms(8), of n] assms(3,5)
    by (auto simp: blamed_def allowed_def counted_def tidy_def steadfast_def split: sum.splits)
qed

theorem calls_return_witness:
  "\<exists>w'. run_cmd fresh_kernel (execute fresh_kernel silent 196608) 196608 (Server_listen 0 ''localhost'' 80 False) empty_world =
      Inr ((), w') \<and> sound fresh_kernel silent w'"
proof -
  have "careful silent empty_world" "solitary empty_world" "datagrams empty_world = Map.empty" "modest silent"
    by (simp_all add: careful_def solitary_def datagrams_def forget_def scope_of_def empty_world_def fun_eq_iff modest_def)
  then show ?thesis
    using calls_return [OF fresh_kernel_ok fresh_kernel_few silent_disciplined silent_frugal _ reachable.start,
        of "Server_listen 0 ''localhost'' 80 False" 196608] fresh_kernel_positive
    by (simp del: execute.simps run_cmd.simps)
qed

text \<open>
  C2. The library keeps to the protocol of descriptors, whatever the callbacks call and whatever the
  kernel answers: every system call in the history of a reachable world names descriptors in the phase
  it needs.  In particular nothing is closed twice, polled, received from or accepted on after its close.
\<close>

theorem calls_follow_protocol:
  assumes "fresh_descriptors K" and "resolves_family K" and "disciplined U" and "reachable K U w"
    and "trace w = h @ (c, r) # h'"
  shows "permitted (phases h) c"
proof -
  have "protocol_ok K w"
    using reachable_sound [OF assms(4)] assms(1-3) by (simp add: env_ok_def sound_but_def)
  then show ?thesis
    using assms(5) by (auto simp: protocol_ok_def intro: obeys_at)
qed

text \<open>
  C5. In every reachable world the two vectors of a handler are in step, no descriptor occurs twice, and
  the handler polls exactly its live open sockets: a pointer stands in the vectors with a descriptor iff
  it is a live socket of this handler that has this descriptor.  That descriptor is open and belongs to
  no other socket, so a poll never dispatches to a destroyed socket and misses none.
\<close>

theorem handlers_poll_live_sockets:
  assumes "fresh_descriptors K" and "resolves_family K" and "disciplined U" and "reachable K U w"
  shows "length (socket_ptrs (handlers w h)) = length (sockets (handlers w h)) \<and> distinct (map pfd (sockets (handlers w h))) \<and>
    ((\<exists>i < length (sockets (handlers w h)). socket_ptrs (handlers w h) ! i = p \<and> pfd (sockets (handlers w h) ! i) = fd) \<longleftrightarrow>
      (\<exists>s. heap w p = Some s \<and> shandler s = h \<and> sock_fd s = fd \<and> 0 \<le> fd)) \<and>
    (heap w p = Some s \<and> 0 \<le> sock_fd s \<longrightarrow>
      sock_fd s \<in> open_fds (trace w) \<and> (\<forall>q t. heap w q = Some t \<and> sock_fd t = sock_fd s \<longrightarrow> q = p))"
proof -
  have I: "sound K U w"
    using reachable_sound [OF assms(4)] assms(1-3) by (simp add: env_ok_def)
  then have wf: "handler_wf (handlers w h)" by (rule soundD(2))
  have polled: "(\<exists>i < length (sockets (handlers w h)). socket_ptrs (handlers w h) ! i = p \<and> pfd (sockets (handlers w h) ! i) = fd) \<longleftrightarrow>
      (\<exists>s. heap w p = Some s \<and> shandler s = h \<and> sock_fd s = fd \<and> 0 \<le> fd)" (is "?in \<longleftrightarrow> ?live")
  proof
    assume ?in
    then show ?live
      using registered_position [OF I, of _ h] wf unfolding handler_wf_def by metis
  next
    assume ?live
    then obtain r b where "registry (handlers w h) fd = Some (p, r, b)"
      using is_polled [OF I, of p] by blast
    then show ?in
      using registry_position [OF wf] by metis
  qed
  have "q = p" if "heap w p = Some s" "0 \<le> sock_fd s" "heap w q = Some t" "sock_fd t = sock_fd s" for q t
    using soundD(6) [OF I that(1,3,2)] that(4) by simp
  then show ?thesis
    using wf polled soundD(5) [OF I] by (simp add: handler_wf_def) blast
qed

text \<open>In particular every position of the vectors names such a socket.\<close>

theorem vectors_name_live_sockets:
  assumes "fresh_descriptors K" and "resolves_family K" and "disciplined U"
    and "reachable K U w" and "i < length (sockets (handlers w h))"
  shows "length (socket_ptrs (handlers w h)) = length (sockets (handlers w h)) \<and>
    (\<exists>s. heap w (socket_ptrs (handlers w h) ! i) = Some s \<and> shandler s = h \<and>
       sock_fd s = pfd (sockets (handlers w h) ! i) \<and> 0 \<le> sock_fd s \<and> sock_fd s \<in> open_fds (trace w) \<and>
       (\<forall>q t. heap w q = Some t \<and> sock_fd t = sock_fd s \<longrightarrow> q = socket_ptrs (handlers w h) ! i))"
proof -
  have I: "sound K U w"
    using reachable_sound [OF assms(4)] assms(1-3) by (simp add: env_ok_def)
  have len: "length (socket_ptrs (handlers w h)) = length (sockets (handlers w h))"
    using soundD(2) [OF I, of h] by (simp add: handler_wf_def)
  obtain s where s: "heap w (socket_ptrs (handlers w h) ! i) = Some s" "0 \<le> sock_fd s" "shandler s = h"
      "sock_fd s = pfd (sockets (handlers w h) ! i)"
    using registered_position [OF I, of i h] assms(5) len by auto
  have "q = socket_ptrs (handlers w h) ! i" if "heap w q = Some t" "sock_fd t = sock_fd s" for q t
    using soundD(6) [OF I s(1) that(1) s(2)] that(2) by simp
  then show ?thesis
    using len s soundD(5) [OF I s(1,2)] by blast
qed

text \<open>
  C7. No descriptor leaks: if the callbacks neither listen nor connect nor poll, the open descriptors of
  a reachable world are exactly those of its live sockets, each of one socket.
\<close>

theorem no_descriptor_leaks:
  assumes "fresh_descriptors K" and "resolves_family K" and "disciplined U" and "timid U" and "reachable K U w"
  shows "fd \<in> open_fds (trace w) \<longleftrightarrow> 0 \<le> fd \<and> (\<exists>!p. \<exists>s. heap w p = Some s \<and> sock_fd s = fd)"
proof -
  have I: "sound K U w"
    using reachable_sound [OF assms(5)] assms(1-3) by (simp add: env_ok_def)
  show ?thesis
  proof
    assume fd: "fd \<in> open_fds (trace w)"
    then obtain p s where s: "heap w p = Some s" "sock_fd s = fd"
      using owned [OF I assms(4)] by blast
    moreover have "0 \<le> fd"
      using fd by (rule open_nonneg)
    moreover have "q = p" if "heap w q = Some t" "sock_fd t = fd" for q t
      using soundD(6) [OF I that(1) s(1)] that(2) s(2) \<open>0 \<le> fd\<close> by simp
    ultimately show "0 \<le> fd \<and> (\<exists>!p. \<exists>s. heap w p = Some s \<and> sock_fd s = fd)"
      by blast
  next
    assume "0 \<le> fd \<and> (\<exists>!p. \<exists>s. heap w p = Some s \<and> sock_fd s = fd)"
    then show "fd \<in> open_fds (trace w)"
      using soundD(5) [OF I] by blast
  qed
qed

text \<open>
  C6. In every reachable world the containers own exactly the live connections: a container stores only
  live connections, each open, under its descriptor and registered with the handler of the container,
  and every connection is stored once, in one container.
\<close>

theorem containers_own_connections:
  assumes "fresh_descriptors K" and "resolves_family K" and "disciplined U" and "reachable K U w"
  shows "(map_find (c_sockets (get_container c w)) k = Some p \<longrightarrow>
      (\<exists>s r b. heap w p = Some s \<and> sclass s = Tcp_connection \<and> sock_fd s = k \<and> 0 \<le> k \<and> k \<in> open_fds (trace w) \<and>
        shandler s = c_handler (get_container c w) \<and> registry (handlers w (shandler s)) k = Some (p, r, b))) \<and>
    (heap w p = Some s \<and> sclass s = Tcp_connection \<longrightarrow>
      (\<exists>!ck. map_find (c_sockets (get_container (fst ck) w)) (snd ck) = Some p))"
proof -
  have I: "sound K U w" and R: "at_rest w"
    using reachable_safe [OF assms(4)] assms(1-3) by (simp_all add: env_ok_def)
  have st: "map_find (c_sockets (get_container c w)) k = Some p \<longleftrightarrow> stored w c k p" for c k
    by (simp add: stored_def)
  have place: "\<exists>s r b. heap w p = Some s \<and> sclass s = Tcp_connection \<and> sock_fd s = k \<and> 0 \<le> k \<and> k \<in> open_fds (trace w) \<and>
        shandler s = c_handler (get_container c w) \<and> registry (handlers w (shandler s)) k = Some (p, r, b)"
    if at: "stored w c k p"
  proof -
    obtain s where s: "heap w p = Some s" "sclass s = Tcp_connection" "home s = Some (c, k)"
      by (rule stored_connection [OF I at])
    then have fd: "0 \<le> sock_fd s"
      using R by (auto simp: at_rest_def closing_def not_less)
    show ?thesis
      using s fd in_place [OF I s] is_polled [OF I s(1) fd] soundD(5) [OF I s(1) fd] by auto
  qed
  have "\<exists>!ck. stored w (fst ck) (snd ck) p" if s: "heap w p = Some s" "sclass s = Tcp_connection"
  proof -
    obtain c k where "home s = Some (c, k)" "stored w c k p"
      by (rule connection_stored [OF I s])
    moreover have "(c', k') = (c, k)" if "stored w c' k' p" for c' k'
      using soundD(12) [OF I that] s(1) calculation(1) by auto
    ultimately show ?thesis
      by (metis fst_conv snd_conv prod.collapse)
  qed
  with place show ?thesis
    unfolding st by blast
qed

text \<open>
  C4. Closing an open connection in a reachable world destroys it, whatever its hooks call: when
  \<^verbatim>\<open>close\<close> returns, the object is gone and no container and no handler knows it.
\<close>

theorem close_destroys_connection:
  assumes "fresh_descriptors K" and "resolves_family K" and "disciplined U" and "reachable K U w"
    and "heap w p = Some s" and "sclass s = Tcp_connection" and "0 \<le> sock_fd s"
    and "sock_close K (execute K U n) p w = Inr (x, w')"
  shows "heap w' p = None \<and> (\<forall>c k. map_find (c_sockets (get_container c w')) k \<noteq> Some p) \<and>
    (\<forall>h fd e. registry (handlers w' h) fd = Some e \<longrightarrow> fst e \<noteq> p)"
proof -
  have I: "sound K U w"
    using reachable_sound [OF assms(4)] assms(1-3) by (simp add: env_ok_def)
  have r: "sound K U w'" "heap w' p = None"
    using program.close_safe [OF I assms(5), of n] assms(6-8) by simp_all
  have "\<not> stored w' c k p" for c k
    using soundD(12) [OF r(1), of c k p] r(2) by auto
  moreover have "fst e \<noteq> p" if "registry (handlers w' h) fd = Some e" for h fd e
    using soundD(4) [OF r(1), of h fd "fst e" "fst (snd e)" "snd (snd e)"] that r(2) by auto
  ultimately show ?thesis
    using r(2) by (auto simp: stored_def)
qed

text \<open>
  C17. An action of a server in a reachable world runs exactly the callbacks that their flags schedule,
  in the order of the list, even though the callbacks call the library: nothing they do changes the list.
\<close>

theorem server_actions_run_as_scheduled:
  assumes "fresh_descriptors K" and "resolves_family K" and "disciplined U" and "reachable K U w"
    and "get_action t (server_actions_list []) = Some (t, args_prototype a)"
  shows "execute K U (Suc n) (Server_obj i) t a w =
    run_all (\<lambda>cb. run_callback K U (execute K U n) n cb a) (executed (srv_actions (servers w i) t)) w"
proof -
  have I: "sound K U w"
    using reachable_sound [OF assms(4)] assms(1-3) by (simp add: env_ok_def)
  let ?run = "\<lambda>cb. run_callback K U (execute K U n) n cb a"
  let ?touch = "touch_list (Server_obj i) t (the (actions_of (Server_obj i) w) t)"
  have "execute K U (Suc n) (Server_obj i) t a w = execute_list ?touch ?run (srv_actions (servers w i) t) w"
    using assms(5) by (simp add: execute_action_def)
  also have "\<dots> = run_all ?run (executed (srv_actions (servers w i) t)) w"
  proof (cases "solitary w")
    case True
    then have "length (srv_actions (servers w i) t) \<le> 1"
      by (simp add: solitary_def)
    then show ?thesis
      by (cases "srv_actions (servers w i) t") (auto simp: touch_list_def prog_simps split: sum.splits)
  next
    case False
    have "\<not> is_erase (exec cb)" if "cb \<in> set (srv_actions (servers w i) t)" for cb
      using that I by (intro user_no_erase) (auto simp: sound_but_def tables_ok_def)
    then have "exec ` set (srv_actions (servers w i) t) \<subseteq> listed (Server_obj i) t w"
      by (auto simp: listed_def)
    moreover have "executing K U (Server_obj i) t a w w"
      using I assms(5) False by (simp add: executing_def)
    ultimately show ?thesis
      by (intro program.executions.execute_as_scheduled)
  qed
  finally show ?thesis .
qed

text \<open>
  C10. While an action runs, whatever its callbacks call, short of opening sockets, a handler changes at
  most as often as it has open sockets, and twice more for a connection accepted by \<open>READABLE\<close>: every
  change is a socket that is closed, once, or that one connection.  With descriptors below 65533 the 16-bit
  counter therefore cannot come round to its old value: equal readings mean that the vectors are the same
  and stand where they stood.
\<close>

theorem dispatch_changes_counted:
  assumes "fresh_descriptors K" and "resolves_family K" and "disciplined U" and "frugal U" and "reachable K U w"
    and "execute K U n ob t a w = Inr (x, w')"
  shows "(\<exists>k. invalid (handlers w' h) = invalid (handlers w h) + of_nat k \<and>
      k + card (opens w' h) \<le> card (opens w h) + (if t = READABLE then 2 else 0)) \<and>
    (few_descriptors K \<and> \<not> ref_has_changed (get_ref (handlers w h)) (handlers w' h) \<longrightarrow>
      storage (handlers w' h) = storage (handlers w h) \<and> socket_ptrs (handlers w' h) = socket_ptrs (handlers w h))"
proof -
  have I: "sound K U w"
    using reachable_sound [OF assms(5)] assms(1-3) by (simp add: env_ok_def)
  have l: "ledger w (if t = READABLE then 2 else 0) w'"
    using spendsD [OF execute_cost [OF assms(4,3)] sound_ledger [OF I] assms(6)] by simp
  then obtain k where "balance w (if t = READABLE then 2 else 0) w' h k"
    unfolding ledger_def by blast
  moreover have "ledger w 2 w'"
    using l by (rule ledger_more) simp
  from dispatch_unchanged [OF I _ this, of h]
  have "counted K U \<and> invalid (handlers w' h) = invalid (handlers w h) \<Longrightarrow>
      storage (handlers w' h) = storage (handlers w h) \<and> socket_ptrs (handlers w' h) = socket_ptrs (handlers w h)"
    by blast
  ultimately show ?thesis
    using assms(4) by (auto simp: balance_def counted_def ref_has_changed_def get_ref_def)
qed

section \<open>Witnesses\<close>

lemma container_erase_returns: "\<exists>w'. container_erase c k w = Inr ((), w')"
  by (cases "map_find (c_sockets (get_container c w)) k") (simp_all add: container_erase_def prog_simps)

theorem vectors_name_live_sockets_witness:
  "\<exists>w s. reachable fresh_kernel silent w \<and> heap w (socket_ptrs (handlers w 0) ! 0) = Some s \<and>
     sock_fd s = pfd (sockets (handlers w 0) ! 0) \<and> sock_fd s \<in> open_fds (trace w)"
proof -
  obtain addr w where w: "reachable fresh_kernel silent w" "handlers w 0 = add_socket 3 0 (new_handler 0)"
    using connected_world by blast
  then have "0 < length (sockets (handlers w 0))"
    by (simp add: add_socket_def impl_add_socket_def Let_def)
  from vectors_name_live_sockets [OF fresh_kernel_ok silent_disciplined w(1) this] w(1)
  show ?thesis by blast
qed

theorem containers_own_connections_witness:
  "\<exists>w s. reachable fresh_kernel silent w \<and> map_find (c_sockets (get_container (Connections 0) w)) 3 = Some 0 \<and>
     heap w 0 = Some s \<and> sclass s = Tcp_connection \<and> sock_fd s = 3 \<and> 3 \<in> open_fds (trace w)"
proof -
  obtain addr w where w: "reachable fresh_kernel silent w"
      "map_find (c_sockets (get_container (Connections 0) w)) 3 = Some 0"
    using connected_world by blast
  from containers_own_connections [OF fresh_kernel_ok silent_disciplined w(1), of "Connections 0" 3 0] w
  show ?thesis by blast
qed

theorem handlers_poll_live_sockets_witness:
  "\<exists>w i. reachable fresh_kernel silent w \<and> i < length (sockets (handlers w 0)) \<and>
     socket_ptrs (handlers w 0) ! i = 0 \<and> pfd (sockets (handlers w 0) ! i) = 3"
proof -
  obtain addr w where w: "reachable fresh_kernel silent w" "heap w 0 = Some (connected_sock 0 0 0 3 addr)"
    using connected_world by blast
  have "shandler (connected_sock 0 0 0 3 addr) = 0" "sock_fd (connected_sock 0 0 0 3 addr) = 3"
    by (simp_all add: connected_sock_def new_sock_def)
  with handlers_poll_live_sockets [OF fresh_kernel_ok silent_disciplined w(1), of 0 0 3] w
  show ?thesis by auto
qed

theorem no_descriptor_leaks_witness:
  "\<exists>w. reachable fresh_kernel silent w \<and> 3 \<in> open_fds (trace w) \<and> (\<exists>!p. \<exists>s. heap w p = Some s \<and> sock_fd s = 3)"
proof -
  obtain addr w where w: "reachable fresh_kernel silent w" "heap w 0 = Some (connected_sock 0 0 0 3 addr)"
    using connected_world by blast
  have "timid silent" by (simp add: timid_def)
  note leaks = no_descriptor_leaks [OF fresh_kernel_ok silent_disciplined this w(1), of 3]
  have "3 \<in> open_fds (trace w)"
    using soundD(5) [OF reachable_sound [OF w(1)] w(2)] fresh_kernel_ok silent_disciplined
    by (simp add: env_ok_def connected_sock_def new_sock_def)
  then show ?thesis
    using leaks w(1) by blast
qed

lemma case_returns: "(case r of Inl e \<Rightarrow> False | Inr (x, w) \<Rightarrow> P x w) \<Longrightarrow> \<exists>x w. r = Inr (x, w) \<and> P x w"
  by (cases r) auto

theorem calls_follow_protocol_witness:
  "\<exists>w h r. reachable fresh_kernel silent w \<and> trace w = h @ [(Sys_close 3, r)] \<and> permitted (phases h) (Sys_close 3)"
proof -
  let ?run = "run_cmd fresh_kernel (execute fresh_kernel silent 1) 1"
  have "case raw_socket_ctor None empty_world of Inl e \<Rightarrow> False
    | Inr (p, w) \<Rightarrow> (case ?run (Socket_open p 2 SOCK_DGRAM 0) w of Inl e \<Rightarrow> False
    | Inr (x, w) \<Rightarrow> (case ?run (Socket_close p) w of Inl e \<Rightarrow> False
    | Inr (x, w) \<Rightarrow> trace w = butlast (trace w) @ [(Sys_close 3, plain_ret 0)]))"
    by code_simp
  then obtain p w w1 w2 where w: "raw_socket_ctor None empty_world = Inr (p, w)"
      "?run (Socket_open p 2 SOCK_DGRAM 0) w = Inr ((), w1)" "?run (Socket_close p) w1 = Inr ((), w2)"
      "trace w2 = butlast (trace w2) @ [(Sys_close 3, plain_ret 0)]"
    by (auto dest!: case_returns simp del: execute.simps run_cmd.simps)
  have "reachable fresh_kernel silent w"
    by (rule reachable.new_raw [OF reachable.start _ w(1)]) simp
  then have "reachable fresh_kernel silent w1"
    by (rule reachable.call [OF _ _ w(2)]) simp
  then have r: "reachable fresh_kernel silent w2"
    by (rule reachable.call [OF _ _ w(3)]) simp
  from calls_follow_protocol [OF fresh_kernel_ok silent_disciplined r w(4)] r w(4) show ?thesis
    by blast
qed

text \<open>A raw socket whose \<open>READABLE\<close> callback closes it.\<close>

fun closes_itself :: user_program where
  "closes_itself u A_none w = [Socket_close 0]"
| "closes_itself u _ w = []"

lemma closes_itself_ok: "disciplined closes_itself" "frugal closes_itself"
proof -
  have "list_all callback_cmd (closes_itself u a w)" "list_all (\<lambda>c. \<not> adding c) (closes_itself u a w)" for u a w
    by (cases a; simp)+
  then show "disciplined closes_itself" "frugal closes_itself"
    by (simp_all add: disciplined_def frugal_def)
qed

theorem dispatch_changes_counted_witness:
  "\<exists>w w'. reachable fresh_kernel closes_itself w \<and>
     execute fresh_kernel closes_itself 3 (Socket_obj 0) READABLE A_none w = Inr ((), w') \<and>
     (\<exists>k. invalid (handlers w' 1) = invalid (handlers w 1) + of_nat k \<and> k + card (opens w' 1) \<le> card (opens w 1) + 2) \<and>
     ref_has_changed (get_ref (handlers w 1)) (handlers w' 1)"
proof -
  let ?run = "run_cmd fresh_kernel (execute fresh_kernel closes_itself 1) 1"
  have "case raw_socket_ctor None empty_world of Inl e \<Rightarrow> False
    | Inr (p, w) \<Rightarrow> (case ?run (Socket_open 0 2 SOCK_DGRAM 0) w of Inl e \<Rightarrow> False
    | Inr (x, w) \<Rightarrow> (case ?run (Socket_on 0 READABLE 0 0) w of Inl e \<Rightarrow> False
    | Inr (x, w) \<Rightarrow> (case execute fresh_kernel closes_itself 3 (Socket_obj 0) READABLE A_none w of Inl e \<Rightarrow> False
    | Inr (x, w') \<Rightarrow> ref_has_changed (get_ref (handlers w 1)) (handlers w' 1))))"
    by code_simp
  then obtain p v v1 w w' where w: "raw_socket_ctor None empty_world = Inr (p, v)"
      "?run (Socket_open 0 2 SOCK_DGRAM 0) v = Inr ((), v1)" "?run (Socket_on 0 READABLE 0 0) v1 = Inr ((), w)"
      "execute fresh_kernel closes_itself 3 (Socket_obj 0) READABLE A_none w = Inr ((), w')"
      "ref_has_changed (get_ref (handlers w 1)) (handlers w' 1)"
    by (auto dest!: case_returns simp del: execute.simps run_cmd.simps)
  have "reachable fresh_kernel closes_itself v"
    by (rule reachable.new_raw [OF reachable.start _ w(1)]) simp
  then have "reachable fresh_kernel closes_itself v1"
    by (rule reachable.call [OF _ _ w(2)]) simp
  then have r: "reachable fresh_kernel closes_itself w"
    by (rule reachable.call [OF _ _ w(3)]) simp
  from dispatch_changes_counted [OF fresh_kernel_ok closes_itself_ok r w(4), of 1] r w(4,5) show ?thesis
    by auto
qed

theorem close_destroys_connection_witness:
  "\<exists>w w'. sock_close fresh_kernel (execute fresh_kernel silent 2) 0 w = Inr ((), w') \<and> heap w 0 \<noteq> None \<and> heap w' 0 = None"
proof -
  obtain addr w where w: "reachable fresh_kernel silent w" "heap w 0 = Some (connected_sock 0 0 0 3 addr)"
      "handlers w 0 = add_socket 3 0 (new_handler 0)" "map_find (c_sockets (get_container (Connections 0) w)) 3 = Some 0"
      "cl_actions (clients w 0) = (\<lambda>_. [])"
    using connected_world by blast
  let ?s = "connected_sock 0 0 0 3 addr" and ?X = "execute fresh_kernel silent (Suc (Suc 0))"
  have s: "sock_fd ?s = 3" "shandler ?s = 0" "sclass ?s = Tcp_connection" "quiet_close (Connections 0) 3 ?s w"
    using w(5) by (auto simp: connected_sock_def new_sock_def quiet_close_def intro!: exI [of _ "[_]"])
  have wf: "handler_wf (handlers w (shandler ?s))" "0 \<le> sock_fd ?s"
    using s(1,2) poll.add_law [of "new_handler 0 :: nat handler" 3 0] by (simp_all add: w(3) handler_wf_new)
  obtain h' w1 where w1: "sock_close fresh_kernel ?X 0 w = ?X (Socket_obj 0) CLOSED A_none w1"
      "w1 = (after fresh_kernel (Sys_close (sock_fd ?s)) (set_handler (shandler ?s) h' w))
        \<lparr>heap := (heap w)(0 \<mapsto> ?s\<lparr>sock_fd := -1\<rparr>)\<rparr>"
    by (rule sock_close_law [OF w(2) wf])
  have "quiet_close (Connections 0) 3 (?s\<lparr>sock_fd := -1\<rparr>) w1"
    using s(4) quiet_close_cong [of w1 w] w1(2) by simp
  then have "?X (Socket_obj 0) CLOSED A_none w1 = container_erase (Connections 0) 3 w1"
    using w1(2) s(3) by (intro execute_quiet_close [of _ _ "?s\<lparr>sock_fd := -1\<rparr>"]) simp_all
  moreover obtain w' where "container_erase (Connections 0) 3 w1 = Inr ((), w')"
    using container_erase_returns by blast
  ultimately have c: "sock_close fresh_kernel (execute fresh_kernel silent 2) 0 w = Inr ((), w')"
    using w1(1) by (simp add: numeral_2_eq_2 del: execute.simps)
  from close_destroys_connection [OF fresh_kernel_ok silent_disciplined w(1,2) s(3) _ c] s(1) w(2) c
  show ?thesis by auto
qed

theorem server_actions_run_as_scheduled_witness:
  "execute fresh_kernel silent 3 (Server_obj 0) LISTEN (A_connection 0) empty_world = Inr ((), empty_world)"
proof -
  have "srv_actions (servers empty_world 0) LISTEN = []"
    by (simp add: empty_world_def)
  then show ?thesis
    using server_actions_run_as_scheduled [OF fresh_kernel_ok silent_disciplined reachable.start, of LISTEN "A_connection 0" 2 0]
    by (simp add: action_list_defs numeral_3_eq_3 prog_simps del: execute.simps)
qed

end
