(* ===== verification/Example_Programs.thy ===== *)
theory Example_Programs
  imports Safety "HOL-Library.Signed_Division"
begin

text \<open>
  The programs under \<^verbatim>\<open>examples/\<close>: their callbacks as user programs and their mains as computations.
  Callbacks have numbers, in the order of their registration.  A number bounds the nesting of
  executions and the rounds of the loops around \<^verbatim>\<open>events::poll\<close>.
\<close>

section \<open>Parts the programs share\<close>

text \<open>
  \<^verbatim>\<open>while (events::poll(handler)) body;\<close> with a bound on the rounds.
\<close>

fun poll_while :: "kernel \<Rightarrow> executor \<Rightarrow> unit act \<Rightarrow> nat \<Rightarrow> hid \<Rightarrow> unit act" where
  "poll_while K X body 0 h = raise OutOfFuel"
| "poll_while K X body (Suc rounds) h =
     andThen (events_poll K X h (-1)) (\<lambda>polled.
       if polled then andThen body (\<lambda>_. poll_while K X body rounds h) else ret ())"

definition text_of :: "bytes \<Rightarrow> string" where
  "text_of b = map (\<lambda>x. char_of (unat x)) b"

definition bytes_of :: "string \<Rightarrow> bytes" where
  "bytes_of s = map (\<lambda>c. word_of_nat (of_char c)) s"

text \<open>\<^verbatim>\<open>int\<close> of a 64-bit value, and \<^verbatim>\<open>std::atoi\<close> (what it does when the number does not fit is undefined).\<close>

fun decimal :: "int \<Rightarrow> string \<Rightarrow> int" where
  "decimal v [] = v"
| "decimal v (c # cs) = (if 48 \<le> (of_char c :: int) \<and> (of_char c :: int) \<le> 57 then decimal (10 * v + (of_char c - 48)) cs else v)"

definition atoi :: "string \<Rightarrow> int" where
  "atoi s = (case dropWhile (\<lambda>c. c = CHR '' '' \<or> 9 \<le> (of_char c :: nat) \<and> (of_char c :: nat) \<le> 13) s of
       [] \<Rightarrow> 0
     | c # cs \<Rightarrow> to_int32 (if c = CHR ''-'' then - decimal 0 cs else if c = CHR ''+'' then decimal 0 cs else decimal 0 (c # cs)))"

definition print_error :: "kernel \<Rightarrow> string \<Rightarrow> int \<Rightarrow> cmd list" where
  "print_error K func err = [Print [Text (''error: '' @ func @ '': '' @ error_text K err @ nl)]]"

section \<open>tcp-server\<close>

fun tcp_server_callbacks :: "kernel \<Rightarrow> user_program" where
  "tcp_server_callbacks K u (A_connection conn) w =
     (if u = 0 then [Print [Text ''server listening on '', Ip_of conn, Text '' on socket '', Fd_of conn, Text nl]]
      else if u = 1 then [Print [Text ''server connection closed: '', Ip_of conn, Text nl]]
      else if u = 3 then [Print [Text ''client connected from '', Ip_of conn, Text nl]]
      else [Print [Text ''client disconnected from '', Ip_of conn, Text nl]])"
| "tcp_server_callbacks K u (A_connection_bytes conn message) w =
     Print [Text ''received from '', Ip_of conn, Text '': '', Text (text_of message), Text nl] #
     (if text_of message = ''close'' @ nl then [Print [Text (''closing'' @ nl)], Server_close 0] else [])"
| "tcp_server_callbacks K u (A_error func err) w = print_error K func err"
| "tcp_server_callbacks K u _ w = []"

definition tcp_server_setup :: "cmd list" where
  "tcp_server_setup =
     [Server_on 0 LISTEN 0 (flag_value DEFAULT),
      Server_on 0 TCP_CLOSED 1 (flag_value DEFAULT),
      Server_on 0 TCP_RECEIVE 2 (flag_value DEFAULT),
      Server_on 0 ACCEPT 3 (flag_value DEFAULT),
      Server_on 0 DISCONNECT 4 (flag_value DEFAULT),
      Server_on 0 ERROR 5 (flag_value DEFAULT),
      Server_listen 0 ''127.0.0.1'' 8000 False,
      Server_listen 0 ''::1'' 8000 True,
      Server_listen 0 ''::1'' 8001 True]"

text \<open>The mains of the servers differ in their callbacks and calls.\<close>

definition server_main :: "kernel \<Rightarrow> user_program \<Rightarrow> cmd list \<Rightarrow> nat \<Rightarrow> unit act" where
  "server_main K U setup n =
     andThen (server_ctor 0 None) (\<lambda>_.
     andThen (run_program K U n setup) (\<lambda>_.
     andThen (reads (\<lambda>w. srv_handler (servers w 0))) (\<lambda>h.
     andThen (poll_while K (execute K U n) (ret ()) n h) (\<lambda>_.
     run_program K U n [Server_close 0]))))"

definition tcp_server_main :: "kernel \<Rightarrow> nat \<Rightarrow> unit act" where
  "tcp_server_main K = server_main K (tcp_server_callbacks K) tcp_server_setup"

section \<open>tcp-connection-speed-test (server)\<close>

fun speed_server_callbacks :: "kernel \<Rightarrow> user_program" where
  "speed_server_callbacks K u (A_connection conn) w =
     (if u = 0 then [Print [Text ''server listening on '', Ip_of conn, Text '' on socket '', Fd_of conn, Text nl,
         Text ''server will send + or - when connections are accepted/disconnected'', Text nl]]
      else if u = 1 then [Print [Text ''+'']]
      else [Print [Text ''-'']])"
| "speed_server_callbacks K u (A_error func err) w =
     [Print [Text (nl @ ''error: '' @ func @ '': '' @ error_text K err @ nl)]]"
| "speed_server_callbacks K u _ w = []"

definition speed_server_setup :: "cmd list" where
  "speed_server_setup =
     [Server_on 0 LISTEN 0 (flag_value DEFAULT),
      Server_on 0 ACCEPT 1 (flag_value DEFAULT),
      Server_on 0 DISCONNECT 2 (flag_value DEFAULT),
      Server_on 0 ERROR 3 (flag_value DEFAULT),
      Server_listen 0 ''127.0.0.1'' 8000 False]"

definition speed_server_main :: "kernel \<Rightarrow> nat \<Rightarrow> unit act" where
  "speed_server_main K = server_main K (speed_server_callbacks K) speed_server_setup"

section \<open>tcp-client\<close>

text \<open>\<open>pointer_text\<close> is how the stream prints the address of a handler.\<close>

fun tcp_client_callbacks :: "kernel \<Rightarrow> user_program" where
  "tcp_client_callbacks K u (A_connection connection) w =
     (if u = 0 then [Print [Text ''connected to '', Ip_of connection, Text nl],
         Connection_send connection (bytes_of ''hello world'')]
      else [Print [Text ''closed connection to '', Ip_of connection, Text nl]])"
| "tcp_client_callbacks K u (A_connection_bytes connection message) w =
     [Print [Text ''received from connection '', Ip_of connection, Text '': '', Text (text_of message), Text nl]]"
| "tcp_client_callbacks K u (A_error func err) w = print_error K func err"
| "tcp_client_callbacks K u _ w = []"

definition tcp_client_main :: "kernel \<Rightarrow> (hid \<Rightarrow> string) \<Rightarrow> nat \<Rightarrow> unit act" where
  "tcp_client_main K pointer_text n =
     (let U = tcp_client_callbacks K in
      andThen make_handler (\<lambda>handler.
      andThen (run_program K U n [Print [Text (''handler:     '' @ pointer_text handler @ nl)]]) (\<lambda>_.
      andThen (client_ctor 0 handler) (\<lambda>_.
      andThen (run_program K U n
        [Client_on 0 CONNECT 0 (flag_value DEFAULT),
         Client_on 0 TCP_CLOSED 1 (flag_value DEFAULT),
         Client_on 0 TCP_RECEIVE 2 (flag_value DEFAULT),
         Client_on 0 ERROR 3 (flag_value DEFAULT),
         Client_connect 0 ''127.0.0.1'' 8000 False]) (\<lambda>_.
      andThen (reads (\<lambda>w. cl_handler (clients w 0))) (\<lambda>h.
      andThen (run_program K U n [Print [Text (''handlers:    '' @ pointer_text h @ nl)]]) (\<lambda>_.
      andThen (poll_while K (execute K U n) (ret ()) n handler) (\<lambda>_.
      run_program K U n [Client_close 0]))))))))"

section \<open>udp-server\<close>

text \<open>The lambda for received datagrams holds a reference to the server; the answer includes the terminator.\<close>

fun udp_server_callbacks :: "kernel \<Rightarrow> ptr \<Rightarrow> user_program" where
  "udp_server_callbacks K server u (A_address_bytes addr message) w =
     [Print [Text ''received from '', Ip addr, Text '' on endpoint listening on '', Ip_of server, Text '':'', Text nl],
      Print [Text (text_of message), Text nl],
      Socket_send_to server addr (bytes_of ''received msg'' @ [0]) 0]"
| "udp_server_callbacks K server u (A_address addr) w =
     (if u = 1 then [Print [Text ''server bound to '', Ip addr, Text nl]]
      else [Print [Text ''server endpoint closed: '', Ip addr, Text nl]])"
| "udp_server_callbacks K server u (A_error func err) w = print_error K func err"
| "udp_server_callbacks K server u _ w = []"

definition udp_server_main :: "kernel \<Rightarrow> nat \<Rightarrow> unit act" where
  "udp_server_main K n =
     andThen (udp_socket_ctor None) (\<lambda>server.
     let U = udp_server_callbacks K server in
     andThen (run_program K U n
       [Socket_on server UDP_RECEIVE 0 (flag_value DEFAULT),
        Socket_on server UDP_BIND 1 (flag_value DEFAULT),
        Socket_on server UDP_CLOSED 2 (flag_value DEFAULT),
        Socket_on server ERROR 3 (flag_value DEFAULT),
        Udp_bind server ''127.0.0.1'' 8000 False]) (\<lambda>_.
     andThen (get_sock server) (\<lambda>s.
     andThen (poll_while K (execute K U n) (ret ()) n (shandler s)) (\<lambda>_.
     run_program K U n [Socket_close server]))))"

section \<open>udp-client\<close>

definition F_SETFL :: int where "F_SETFL = 4"

text \<open>The third argument of \<^verbatim>\<open>fcntl\<close> is the only optional one the call reads (\<^verbatim>\<open>O_NONBLOCK\<close>).\<close>

definition O_NONBLOCK :: int where "O_NONBLOCK = 4"

fun udp_client_callbacks :: "kernel \<Rightarrow> user_program" where
  "udp_client_callbacks K u (A_address_bytes addr message) w =
     [Print [Text ''received from '', Ip addr, Text '':'', Text nl], Print [Text (text_of message), Text nl]]"
| "udp_client_callbacks K u (A_address addr) w = [Print [Text ''client endpoint closed: '', Ip addr, Text nl]]"
| "udp_client_callbacks K u (A_error func err) w = print_error K func err"
| "udp_client_callbacks K u _ w = []"

definition udp_client_main :: "kernel \<Rightarrow> nat \<Rightarrow> unit act" where
  "udp_client_main K n =
     (let U = udp_client_callbacks K in
      andThen (udp_socket_ctor None) (\<lambda>client.
      andThen (address_from_port (world_resolver K) ''127.0.0.1'' 8000 AF_INET) (\<lambda>serv_address.
      andThen (run_program K U n
        [Socket_on client UDP_RECEIVE 0 (flag_value DEFAULT),
         Socket_on client UDP_CLOSED 1 (flag_value DEFAULT),
         Socket_on client ERROR 2 (flag_value DEFAULT),
         Udp_open client AF_INET,
         Socket_fcntl client F_SETFL O_NONBLOCK,
         Socket_send_to client serv_address (bytes_of ''BEGIN'' @ [0]) 0]) (\<lambda>_.
      andThen (get_sock client) (\<lambda>s.
      andThen (poll_while K (execute K U n)
        (run_program K U n [Socket_send_to client serv_address (bytes_of ''hello world'' @ [0]) 0]) n (shandler s)) (\<lambda>_.
      run_program K U n [Socket_close client]))))))"

section \<open>raw-listener\<close>

fun raw_listener_callbacks :: "kernel \<Rightarrow> ptr \<Rightarrow> user_program" where
  "raw_listener_callbacks K socket u A_none w = [Socket_recvfrom socket]"
| "raw_listener_callbacks K socket u (A_address_bytes addr message) w =
     [Print [Text ''received message from '', Describe addr, Text '': '', Text (text_of message), Text nl]]"
| "raw_listener_callbacks K socket u (A_error func err) w =
     [Print [Text (''error: '' @ func @ '': '' @ int_to_string err @ nl)]]"
| "raw_listener_callbacks K socket u _ w = []"

text \<open>The result is the exit status.\<close>

definition raw_listener_main :: "kernel \<Rightarrow> nat \<Rightarrow> int act" where
  "raw_listener_main K n =
     andThen (raw_socket_ctor None) (\<lambda>socket.
     let U = raw_listener_callbacks K socket; X = execute K U n in
     andThen (run_program K U n
       [Socket_on socket READABLE 0 (flag_value DEFAULT),
        Socket_on socket RECVFROM 1 (flag_value DEFAULT),
        Socket_on socket ERROR 2 (flag_value DEFAULT),
        Socket_open socket (uint AF_INET) SOCK_DGRAM 0]) (\<lambda>_.
     andThen (address_from_port (world_resolver K) ''127.0.0.1'' 8000 AF_INET) (\<lambda>a.
     andThen (run_program K U n [Socket_set_address socket a]) (\<lambda>_.
     andThen (sock_bind K X socket) (\<lambda>bound.
     if \<not> bound then ret 1
     else
       andThen (get_sock socket) (\<lambda>s.
       andThen (poll_while K X (ret ()) n (shandler s)) (\<lambda>_.
       andThen (run_program K U n [Socket_close socket]) (\<lambda>_. ret 0))))))))"

section \<open>tcp-connection-speed-test (client)\<close>

text \<open>
  The local variables of the program are variables of the world, assigned in the order of the code;
  an assignment under a condition keeps the old value otherwise.  \<open>float_text\<close> is how the stream prints
  a \<^verbatim>\<open>float\<close> quotient.
\<close>

abbreviation elapsed :: "string \<Rightarrow> string \<Rightarrow> world \<Rightarrow> int" where
  "elapsed before after' w \<equiv> variables w after' - variables w before"

definition assign_if :: "(world \<Rightarrow> bool) \<Rightarrow> string \<Rightarrow> (world \<Rightarrow> int) \<Rightarrow> cmd" where
  "assign_if b x f = Assign x (\<lambda>w. if b w then f w else variables w x)"

text \<open>
  The statistics of a measurement.  The condition is on the value that the last statement of its branch
  overwrites, so the index goes first.
\<close>

definition record_time :: "string \<Rightarrow> string \<Rightarrow> string \<Rightarrow> string \<Rightarrow> string \<Rightarrow> string \<Rightarrow> int \<Rightarrow> int \<Rightarrow> cmd list" where
  "record_time t mn mn_idx mx mx_idx av i n_clients =
     [assign_if (\<lambda>w. variables w t < variables w mn) mn_idx (\<lambda>_. i),
      assign_if (\<lambda>w. variables w t < variables w mn) mn (\<lambda>w. to_int32 (variables w t)),
      assign_if (\<lambda>w. variables w t > variables w mx) mx_idx (\<lambda>_. i),
      assign_if (\<lambda>w. variables w t > variables w mx) mx (\<lambda>w. to_int32 (variables w t)),
      Assign av (\<lambda>w. to_int32 (variables w av + variables w t sdiv n_clients))]"

definition print_now :: "kernel \<Rightarrow> (world \<Rightarrow> string) \<Rightarrow> unit act" where
  "print_now K f = andThen (reads f) (\<lambda>t. print K [Text t])"

definition usage :: "kernel \<Rightarrow> string list \<Rightarrow> int act" where
  "usage K argv = andThen (case argv of [] \<Rightarrow> raise NullPointer
     | program # _ \<Rightarrow> print K [Text (''usage '' @ program @ '' <n_connections>'' @ nl)]) (\<lambda>_. ret 1)"

fun speed_client_callbacks :: "kernel \<Rightarrow> user_program" where
  "speed_client_callbacks K u (A_connection connection) w = [Print [Text ''+'']]"
| "speed_client_callbacks K u (A_error func err) w =
     [Print [Text (nl @ ''error: '' @ func @ '': '' @ error_text K err @ nl)]]"
| "speed_client_callbacks K u _ w = []"

definition speed_connect :: "int \<Rightarrow> nat \<Rightarrow> cmd list" where
  "speed_connect n_clients i =
     [Read_clock ''before_client'',
      Client_connect i ''127.0.0.1'' 8000 False,
      Read_clock ''after_client'',
      Assign ''time_ms'' (elapsed ''before_client'' ''after_client'')]
     @ record_time ''time_ms'' ''min_time'' ''min_idx'' ''max_time'' ''max_idx'' ''avg_time'' (int i) n_clients"

definition speed_results :: "(int \<Rightarrow> int \<Rightarrow> string) \<Rightarrow> int \<Rightarrow> world \<Rightarrow> string" where
  "speed_results float_text n_clients w =
     (let total_time = elapsed ''before_connect'' ''after_connect'' w; v = variables w in
      ''*************************************'' @ nl
      @ ''results for '' @ int_to_string n_clients @ '' connections'' @ nl
      @ ''total connection time: '' @ float_text total_time 1000000000 @ ''s ('' @ float_text total_time 1000000 @ ''ms)'' @ nl
      @ ''max connection time: '' @ float_text (v ''max_time'') 1000000 @ ''ms (by client['' @ int_to_string (v ''max_idx'') @ ''])'' @ nl
      @ ''min connection time: '' @ float_text (v ''min_time'') 1000000 @ ''ms (by client['' @ int_to_string (v ''min_idx'') @ ''])'' @ nl
      @ ''avg connection time: '' @ float_text (v ''avg_time'') 1000000 @ ''ms'' @ nl)"

text \<open>
  Client number \<open>i\<close> of the vector is client \<open>i\<close> of the world.  The clients a growing vector copies have
  no connection yet.
\<close>

definition new_clients :: "kernel \<Rightarrow> user_program \<Rightarrow> nat \<Rightarrow> hid \<Rightarrow> (nat \<Rightarrow> cmd list) \<Rightarrow> nat list \<Rightarrow> unit act" where
  "new_clients K U n handler registrations is =
     run_all (\<lambda>i. andThen (client_ctor i handler) (\<lambda>_. run_program K U n (registrations i))) is"

definition speed_client_main :: "kernel \<Rightarrow> (int \<Rightarrow> int \<Rightarrow> string) \<Rightarrow> string list \<Rightarrow> nat \<Rightarrow> int act" where
  "speed_client_main K float_text argv n =
     (if length argv \<noteq> 2 then usage K argv
      else
        let U = speed_client_callbacks K; n_clients = atoi (argv ! 1); all = [0..<nat n_clients] in
        andThen make_handler (\<lambda>handler.
        andThen (new_clients K U n handler (\<lambda>i.
          [Client_on i CONNECT 0 (flag_value DEFAULT),
           Client_on i ERROR 1 (flag_value DEFAULT)]) all) (\<lambda>_.
        andThen (run_program K U n
          ([Read_clock ''before_connect'',
            Assign ''min_time'' (\<lambda>_. 10000000), Assign ''max_time'' (\<lambda>_. -1), Assign ''avg_time'' (\<lambda>_. 0),
            Assign ''min_idx'' (\<lambda>_. 0), Assign ''max_idx'' (\<lambda>_. 0)]
           @ concat (map (speed_connect n_clients) all)
           @ [Read_clock ''after_connect'', Print [Text (nl @ nl)]])) (\<lambda>_.
        andThen (print_now K (speed_results float_text n_clients)) (\<lambda>_.
        andThen (poll_while K (execute K U n) (ret ()) n handler) (\<lambda>_.
        andThen (run_program K U n (map Client_close all)) (\<lambda>_. ret 0)))))))"

section \<open>tcp-rtt-speed-test\<close>

text \<open>
  The message is 65535 times the letter \<^verbatim>\<open>a\<close> and a terminator, which \<^verbatim>\<open>sizeof\<close> counts.  Reading the
  data of a socket that does not exist is a misuse of the program.
\<close>

definition MESSAGE_STR :: bytes where
  "MESSAGE_STR = replicate 65535 97 @ [0]"

definition MESSAGE_SIZE :: int where
  "MESSAGE_SIZE = 65536"

definition with_data :: "ptr \<Rightarrow> world \<Rightarrow> (entity \<Rightarrow> cmd list) \<Rightarrow> cmd list" where
  "with_data p w f = (case heap w p of None \<Rightarrow> [Set_data p ''total_recv_bytes'' (\<lambda>_. 0)] | Some s \<Rightarrow> f (data s))"

text \<open>What both ends do with received bytes; \<open>complete\<close> is what follows a complete message.\<close>

definition count_bytes :: "ptr \<Rightarrow> bytes \<Rightarrow> world \<Rightarrow> cmd list \<Rightarrow> cmd list" where
  "count_bytes conn message w complete =
     Print [Text ''r''] #
     with_data conn w (\<lambda>d.
       let total = (d ''total_recv_bytes'' + int (length message)) mod 2 ^ 64 in
       Set_data conn ''total_recv_bytes'' (\<lambda>_. total) #
       (if total > MESSAGE_SIZE then
          [Print [Text (nl @ ''error: connection received more bytes: total_recv_bytes: '' @ int_to_string total @ nl)]]
        else if total = MESSAGE_SIZE then Print [Text ''*''] # complete
        else []))"

definition check_bytes :: "ptr \<Rightarrow> world \<Rightarrow> cmd list" where
  "check_bytes conn w = with_data conn w (\<lambda>d.
     if d ''total_recv_bytes'' \<noteq> MESSAGE_SIZE then
       [Print [Text (nl @ ''error: disconnected connection did not recv all bytes: total_recv_bytes: ''
          @ int_to_string (d ''total_recv_bytes'') @ nl)]]
     else [Print [Text ''-'']])"

fun rtt_server_callbacks :: "kernel \<Rightarrow> user_program" where
  "rtt_server_callbacks K u (A_connection conn) w =
     (if u = 0 then [Print [Text ''server listening on '', Ip_of conn, Text '' on socket '', Fd_of conn, Text nl,
         Text ''server will send + or - when connections are accepted/disconnected'', Text nl,
         Text ''server will send r when an accepted connection received data'', Text nl]]
      else if u = 2 then [Print [Text ''+'']]
      else check_bytes conn w)"
| "rtt_server_callbacks K u (A_connection_bytes conn message) w =
     count_bytes conn message w [Connection_send conn MESSAGE_STR]"
| "rtt_server_callbacks K u (A_error func err) w =
     [Print [Text (nl @ ''error: '' @ func @ '': '' @ error_text K err @ nl)]]"
| "rtt_server_callbacks K u _ w = []"

definition rtt_server_setup :: "cmd list" where
  "rtt_server_setup =
     [Server_on 0 LISTEN 0 (flag_value DEFAULT),
      Server_on 0 TCP_RECEIVE 1 (flag_value DEFAULT),
      Server_on 0 ACCEPT 2 (flag_value DEFAULT),
      Server_on 0 DISCONNECT 3 (flag_value DEFAULT),
      Server_on 0 ERROR 4 (flag_value DEFAULT),
      Server_listen 0 ''127.0.0.1'' 8000 False]"

definition rtt_server_main :: "kernel \<Rightarrow> nat \<Rightarrow> unit act" where
  "rtt_server_main K = server_main K (rtt_server_callbacks K) rtt_server_setup"

text \<open>
  The four callbacks of client \<open>i\<close> have the numbers from \<open>4 * i\<close> on; they capture the index and the number
  of clients.
\<close>

fun rtt_client_callbacks :: "kernel \<Rightarrow> int \<Rightarrow> user_program" where
  "rtt_client_callbacks K n_clients u (A_connection connection) w =
     (if u mod 4 = 0 then
        [Print [Text ''+''],
         Read_clock ''before_send'',
         Set_data connection ''send_time'' (\<lambda>w. variables w ''before_send''),
         Connection_send connection MESSAGE_STR,
         Read_clock ''after_send'',
         Assign ''send_time_ms'' (elapsed ''before_send'' ''after_send'')]
        @ record_time ''send_time_ms'' ''min_send_time'' ''min_send_idx'' ''max_send_time'' ''max_send_idx''
            ''avg_send_time'' (int (u div 4)) n_clients
      else Print [Text (''closed'' @ nl)] # check_bytes connection w)"
| "rtt_client_callbacks K n_clients u (A_connection_bytes conn message) w =
     Read_clock ''after_recv'' #
     count_bytes conn message w (with_data conn w (\<lambda>d.
       Assign ''rtt_ms'' (\<lambda>w. variables w ''after_recv'' - d ''send_time'')
       # record_time ''rtt_ms'' ''min_rtt'' ''min_rtt_idx'' ''max_rtt'' ''max_rtt_idx'' ''avg_rtt'' (int (u div 4)) n_clients
       @ [Connection_close conn]))"
| "rtt_client_callbacks K n_clients u (A_error func err) w =
     [Print [Text (nl @ ''error: '' @ func @ '': '' @ error_text K err @ nl)]]"
| "rtt_client_callbacks K n_clients u _ w = []"

definition rtt_results :: "(int \<Rightarrow> int \<Rightarrow> string) \<Rightarrow> int \<Rightarrow> world \<Rightarrow> string" where
  "rtt_results float_text n_clients w =
     (let total_time = elapsed ''before_connect'' ''after_connect'' w; v = variables w;
          by_client = (\<lambda>x idx. float_text (v x) 1000000 @ ''ms (by client['' @ int_to_string (v idx) @ ''])'' @ nl) in
      ''*************************************'' @ nl
      @ ''results for '' @ int_to_string n_clients @ '' connections'' @ nl @ nl
      @ ''total connection time: '' @ float_text total_time 1000 @ ''us ('' @ float_text total_time 1000000 @ ''ms)'' @ nl @ nl
      @ ''send time (time to send first bytes of message, message may have been queued and flushed after)'' @ nl
      @ ''  max send time: '' @ by_client ''max_send_time'' ''max_send_idx''
      @ ''  min send time: '' @ by_client ''min_send_time'' ''min_send_idx''
      @ ''  avg send time: '' @ float_text (v ''avg_send_time'') 1000000 @ ''ms'' @ nl @ nl
      @ ''rount trip time, time from send to recv response'' @ nl
      @ ''  max rtt: '' @ by_client ''max_rtt'' ''max_rtt_idx''
      @ ''  min rtt: '' @ by_client ''min_rtt'' ''min_rtt_idx''
      @ ''  avg rtt: '' @ float_text (v ''avg_rtt'') 1000000 @ ''ms'' @ nl)"

definition rtt_client_main :: "kernel \<Rightarrow> (int \<Rightarrow> int \<Rightarrow> string) \<Rightarrow> string list \<Rightarrow> nat \<Rightarrow> int act" where
  "rtt_client_main K float_text argv n =
     (if length argv \<noteq> 2 then usage K argv
      else
        andThen make_handler (\<lambda>handler.
        let n_clients = atoi (argv ! 1); all = [0..<nat n_clients]; U = rtt_client_callbacks K n_clients in
        andThen (run_program K U n
          [Assign ''min_send_time'' (\<lambda>_. 100000), Assign ''max_send_time'' (\<lambda>_. -1), Assign ''avg_send_time'' (\<lambda>_. 0),
           Assign ''max_send_idx'' (\<lambda>_. 0), Assign ''min_send_idx'' (\<lambda>_. 0),
           Assign ''min_rtt'' (\<lambda>_. 100000), Assign ''max_rtt'' (\<lambda>_. -1), Assign ''avg_rtt'' (\<lambda>_. 0),
           Assign ''max_rtt_idx'' (\<lambda>_. 0), Assign ''min_rtt_idx'' (\<lambda>_. 0)]) (\<lambda>_.
        andThen (new_clients K U n handler (\<lambda>i.
          [Client_on i CONNECT (4 * i) (flag_value DEFAULT),
           Client_on i TCP_RECEIVE (4 * i + 1) (flag_value DEFAULT),
           Client_on i TCP_CLOSED (4 * i + 2) (flag_value DEFAULT),
           Client_on i ERROR (4 * i + 3) (flag_value DEFAULT)]) all) (\<lambda>_.
        andThen (run_program K U n
          ([Read_clock ''before_connect'']
           @ map (\<lambda>i. Client_connect i ''127.0.0.1'' 8000 False) all
           @ [Read_clock ''after_connect''])) (\<lambda>_.
        andThen (print_now K (\<lambda>w. ''handler count '' @ nat_to_string (impl_count (handlers w handler)) @ nl)) (\<lambda>_.
        andThen (poll_while K (execute K U n) (ret ()) n handler) (\<lambda>_.
        andThen (run_program K U n [Print [Text (nl @ nl)]]) (\<lambda>_.
        andThen (print_now K (rtt_results float_text n_clients)) (\<lambda>_. ret 0)))))))))"

end
