(* ===== verification/Program_Outcomes.thy ===== *)
theory Program_Outcomes
  imports Example_Programs
begin

text \<open>
  How the example programs may end: a calculus for main programs (\<open>fine\<close>), rules for registrations, calls,
  constructors and loops, and one lemma per program.
\<close>

section \<open>The worlds of careful programs\<close>

text \<open>
  Besides the invariant: the callbacks make no connections and keep to the objects \<open>E\<close>, which are alive raw
  and udp sockets, each action of a server or client has at most one callback, all sockets are polled by
  the first handler, none is being closed, and assertions hold unless \<open>F\<close> has them.
\<close>

definition keeps_to :: "scope \<Rightarrow> user_program \<Rightarrow> bool" where
  "keeps_to E U \<longleftrightarrow> frugal U \<and> (\<forall>u a w. checks (E ++ arg_scope a) (U u a w))"

definition one_handler :: "world \<Rightarrow> bool" where
  "one_handler w \<longleftrightarrow> (\<forall>i. srv_handler (servers w i) = 0) \<and> (\<forall>c. c_handler (get_container c w) = 0) \<and>
     (\<forall>p s. heap w p = Some s \<longrightarrow> shandler s = 0)"

definition good :: "fault set \<Rightarrow> scope \<Rightarrow> kernel \<Rightarrow> user_program \<Rightarrow> world \<Rightarrow> bool" where
  "good F E K U w \<longleftrightarrow> sound K U w \<and> at_rest w \<and> keeps_to E U \<and> solitary w \<and> one_handler w \<and> E \<subseteq>\<^sub>m datagrams w \<and>
     (AssertFailed \<in> F \<or> steadfast K w)"

lemma good_sound: "good F E K U w \<Longrightarrow> sound K U w"
  and good_rest: "good F E K U w \<Longrightarrow> at_rest w"
  and good_timid: "good F E K U w \<Longrightarrow> timid U"
  and good_container: "good F E K U w \<Longrightarrow> c_handler (get_container c w) = 0"
  and good_server: "good F E K U w \<Longrightarrow> srv_handler (servers w i) = 0"
  and good_handler: "good F E K U w \<Longrightarrow> heap w p = Some s \<Longrightarrow> shandler s = 0"
  by (auto simp: good_def keeps_to_def one_handler_def frugal_timid)

lemma good_tidy: "good F E K U w \<Longrightarrow> tidy U w"
  unfolding good_def tidy_def careful_def keeps_to_def by (blast intro: checks_mono map_add_mono)

lemma one_handler_steps:
  assumes I: "sound K U w" "sound K U w'" and st: "steps {} w w'" and one: "one_handler w"
  shows "one_handler w'"
  unfolding one_handler_def
proof (intro conjI allI impI)
  show c: "c_handler (get_container c w') = 0" "srv_handler (servers w' i) = 0" for c i
    using st one by (simp_all add: steps_def one_handler_def)
  fix p s assume s: "heap w' p = Some s"
  show "shandler s = 0"
  proof (cases "sclass s = Tcp_connection")
    case True
    then obtain c k where "home s = Some (c, k)"
      using connection_stored [OF I(2) s] by blast
    then show ?thesis
      using in_place [OF I(2) s True] c(1) by simp
  next
    case False
    then obtain t where t: "heap w p = Some t"
      using st s unfolding steps_def by blast
    then have "p < next_ptr w" by (rule soundD(7) [OF I(1)])
    then obtain t' where "heap w p = Some t'" "shandler s = shandler t'"
      using st s unfolding steps_def by blast
    then show ?thesis using one by (simp add: one_handler_def)
  qed
qed

lemma good_steps: "good F E K U w \<Longrightarrow> sound K U w' \<Longrightarrow> steps {} w w' \<Longrightarrow> good F E K U w'"
  using solitary_steps [of "{}" w w'] datagrams_steps [of "{}" w w'] steadfast_steps [of "{}" w w' K]
    rest_steps [of w w'] one_handler_steps [of K U w w']
  by (auto simp: good_def intro: map_le_trans)

text \<open>Constructions and registrations keep the class, handler and descriptor of every socket.\<close>

definition outline :: "sock \<Rightarrow> sock_class \<times> hid \<times> int" where
  "outline s = (sclass s, shandler s, sock_fd s)"

lemma good_same:
  assumes I: "good F E K U w" and w': "sound K U w'" "solitary w'" "\<And>i. srv_handler (servers w' i) = 0" "\<And>c. c_handler (get_container c w') = 0"
    and same: "\<And>p. map_option outline (heap w' p) = map_option outline (heap w p)"
  shows "good F E K U w'"
proof -
  have old: "\<exists>s. heap w p = Some s \<and> outline s = outline s'" if "heap w' p = Some s'" for p s'
    using same [of p] that by (cases "heap w p") simp_all
  have "map_option sclass (heap w' p) = map_option sclass (heap w p)" for p
    using same [of p] by (cases "heap w' p"; cases "heap w p") (simp_all add: outline_def)
  then have "scope_of w' = scope_of w"
    by (simp add: scope_of_def fun_eq_iff)
  then have "datagrams w' = datagrams w"
    by (simp add: datagrams_def)
  moreover have "at_rest w'"
    unfolding at_rest_def
  proof (intro allI impI)
    fix p s' assume "heap w' p = Some s'"
    then obtain s where "heap w p = Some s" "outline s = outline s'"
      using old by blast
    moreover from this have "\<not> closing s"
      using good_rest [OF I] unfolding at_rest_def by blast
    ultimately show "\<not> closing s'"
      by (simp add: closing_def outline_def)
  qed
  moreover have "shandler s' = 0" if "heap w' p = Some s'" for p s'
    using old [OF that] good_handler [OF I] by (auto simp: outline_def)
  ultimately show ?thesis
    using I w' by (simp add: good_def steadfast_def one_handler_def)
qed

lemma datagrams_scope: "good F E K U w \<Longrightarrow> E \<subseteq>\<^sub>m scope_of w"
  unfolding good_def datagrams_def by (blast intro: map_le_trans forget_le)

lemma good_object: "good F E K U w \<Longrightarrow> E p = Some cls \<Longrightarrow> \<exists>s. heap w p = Some s \<and> sclass s = cls \<and> cls \<noteq> Tcp_connection"
  unfolding good_def using map_le_Some datagrams_Some by metis

text \<open>
  Ends for want of fuel, in one of the faults \<open>F\<close>, or in a good world with \<open>Q\<close>; on a kernel that hands out
  too many descriptors perhaps also on an invalidated poll iterator.
\<close>

definition tolerated :: "kernel \<Rightarrow> fault \<Rightarrow> bool" where
  "tolerated K e \<longleftrightarrow> e = OutOfFuel \<or> e = InvalidatedPollIterator \<and> \<not> few_descriptors K"

definition fine :: "fault set \<Rightarrow> scope \<Rightarrow> kernel \<Rightarrow> user_program \<Rightarrow> fault + ('a \<times> world) \<Rightarrow> ('a \<Rightarrow> world \<Rightarrow> bool) \<Rightarrow> bool" where
  "fine F E K U r Q \<longleftrightarrow> (case r of Inl e \<Rightarrow> tolerated K e \<or> e \<in> F | Inr (a, w) \<Rightarrow> good F E K U w \<and> Q a w)"

lemma fine_simps [simp]:
  "fine F E K U (Inr (a, w)) Q = (good F E K U w \<and> Q a w)" "fine F E K U (Inl e) Q = (tolerated K e \<or> e \<in> F)"
  by (simp_all add: fine_def)

lemma fine_then:
  assumes "fine F E K U (m w) R" and "\<And>a w'. good F E K U w' \<Longrightarrow> R a w' \<Longrightarrow> fine F E K U (k a w') Q"
  shows "fine F E K U (andThen m k w) Q"
  using assms by (cases "m w") (auto simp: andThen_apply)

lemma fine_ends:
  assumes I: "good F E K U w" and r: "ends K U {} w r Q"
  shows "fine F E K U r Q"
proof (cases r)
  case (Inl e)
  then have "blamed K U w e"
    using r by (simp add: ends_def)
  then show ?thesis
    using Inl I good_tidy [OF I] by (auto simp: blamed_def good_def allowed_def tolerated_def counted_def keeps_to_def)
next
  case (Inr x)
  then show ?thesis
    using r good_steps [OF I] by (cases x) simp
qed

lemma fine_weaken: "fine F E K U r Q \<Longrightarrow> (\<And>a w. Q a w \<Longrightarrow> Q' a w) \<Longrightarrow> fine F E K U r Q'"
  by (auto simp: fine_def split: sum.splits)

lemma fine_reads: "good F E K U w \<Longrightarrow> fine F E K U (reads f w) (\<lambda>x w'. x = f w \<and> w' = w)"
  by (simp add: prog_simps)

lemma fine_ret: "good F E K U w \<Longrightarrow> fine F E K U (ret x w) (\<lambda>_ _. True)"
  by (simp add: prog_simps)

section \<open>Calls, loops and registrations\<close>

text \<open>A scope of raw and udp sockets outlives every command.\<close>

lemma checks_lasting: "forget E = E \<Longrightarrow> checks E cs = list_all (permits E) cs"
  by (induction cs) simp_all

lemma shy_calls: "good F E K U w \<Longrightarrow> list_all (\<lambda>c. connecting c \<longrightarrow> calm U w) cs"
  using calm_rest [OF good_rest] by (simp add: list_all_iff)

lemma calls_fine:
  assumes I: "good F E K U w" and c: "list_all callback_cmd cs" "checks E cs"
  shows "fine F E K U (run_program K U n cs w) (\<lambda>_ _. True)"
  unfolding run_program_def
  by (rule fine_ends [OF I], rule program.run_cmds_safe [OF good_sound [OF I] c(1) shy_calls [OF I] good_sound [OF I] steps_refl, where E = E])
    (use c(2) datagrams_scope [OF I] in simp)

lemma poll_fine:
  assumes I: "good F E K U w"
  shows "fine F E K U (events_poll K (execute K U n) h timeout w) (\<lambda>polled w'. \<not> polled \<longrightarrow> sockets (handlers w' h) = [])"
proof -
  have e: "fine F E K U (events_poll K (execute K U n) h timeout w) (\<lambda>_ _. True)"
    by (rule fine_ends [OF I program.poll_safe [OF good_sound [OF I] calm_rest [OF good_rest [OF I]]]])
  show ?thesis
  proof (cases "sockets (handlers w h) = []")
    case True
    then show ?thesis using I by (simp add: events_poll_def impl_empty_def prog_simps)
  next
    case False
    then have "events_poll K (execute K U n) h timeout w = andThen (poll_impl K (execute K U n) h timeout) (\<lambda>_. ret True) w"
      by (simp add: events_poll_def impl_empty_def andThen_apply [of "reads f" for f] reads_apply)
    then show ?thesis
      using e by (auto simp: andThen_apply ret_apply fine_def split: sum.splits)
  qed
qed

lemma poll_while_fine:
  assumes "\<And>w. good F E K U w \<Longrightarrow> fine F E K U (body w) (\<lambda>_ _. True)"
  shows "good F E K U w \<Longrightarrow>
    fine F E K U (poll_while K (execute K U n) body rounds h w) (\<lambda>_ w'. sockets (handlers w' h) = [])"
proof (induction rounds arbitrary: w)
  case 0
  then show ?case by (simp add: prog_simps tolerated_def)
next
  case (Suc rounds)
  show ?case
    unfolding poll_while.simps
    by (rule fine_then, rule poll_fine [OF Suc.prems])
      (auto intro!: fine_then assms Suc.IH simp: ret_apply)
qed

text \<open>The loop ends when all sockets are closed; closing everything then does nothing more.\<close>

definition all_closed :: "world \<Rightarrow> bool" where
  "all_closed w \<longleftrightarrow> (\<forall>p s. heap w p = Some s \<longrightarrow> sock_fd s < 0)"

lemma all_closed_open: "good F E K U w \<Longrightarrow> all_closed w \<Longrightarrow> open_fds (trace w) = {}"
  using owned [OF good_sound good_timid, of F E K U w] open_nonneg [of _ "trace w"] by (fastforce simp: all_closed_def)

lemma idle_handler:
  assumes I: "good F E K U w" and "sockets (handlers w 0) = []"
  shows "all_closed w"
  unfolding all_closed_def
proof (intro allI impI)
  fix p s assume s: "heap w p = Some s"
  have "registry (handlers w 0) fd = None" for fd
    using assms(2) soundD(2) [OF good_sound [OF I], of 0] registry_None_iff by fastforce
  then show "sock_fd s < 0"
    using is_polled [OF good_sound [OF I] s] good_handler [OF I s] by fastforce
qed

lemma all_closed_empty:
  assumes I: "good F E K U w" and "all_closed w"
  shows "c_sockets (get_container c w) = []"
proof (rule ccontr)
  assume "c_sockets (get_container c w) \<noteq> []"
  then obtain k p where "map_begin (c_sockets (get_container c w)) = Some (k, p)"
    by (cases "c_sockets (get_container c w)") auto
  then have "stored w c k p"
    using std_map.begin_Some [OF soundD(10) [OF good_sound [OF I]]] by (simp add: stored_def)
  then obtain s where "heap w p = Some s" "sclass s = Tcp_connection"
    by (rule stored_connection [OF good_sound [OF I]])
  then show False
    using good_rest [OF I] assms(2) by (auto simp: at_rest_def closing_def all_closed_def)
qed

fun closing_cmd :: "scope \<Rightarrow> cmd \<Rightarrow> bool" where
  "closing_cmd E (Server_close i) = True"
| "closing_cmd E (Client_close i) = True"
| "closing_cmd E (Socket_close p) = datagram_in E p"
| "closing_cmd E c = False"

lemma closing_cmd_idle:
  assumes I: "good F E K U w" and "all_closed w" and "closing_cmd E c"
  shows "run_cmd K X n c w = Inr ((), w)"
proof -
  have none: "container_close K X n c w = Inr ((), w)" for c n
    using all_closed_empty [OF I assms(2), of c] by (cases n) (simp_all add: prog_simps)
  have "run_cmd K X n (Socket_close p) w = Inr ((), w)" if d: "datagram_in E p" for p
  proof -
    obtain cls where cls: "E p = Some cls" "cls = Raw_socket \<or> cls = Udp_socket"
      using d by (auto simp: datagram_in_def)
    then obtain s where s: "heap w p = Some s" "sclass s = cls"
      using good_object [OF I cls(1)] by blast
    then have "sock_fd s < 0" using assms(2) by (simp add: all_closed_def)
    then show ?thesis
      using s cls(2) sock_close_closed [OF s(1)] by (auto simp: live_def prog_simps)
  qed
  then show ?thesis
    using assms(3) none by (cases c) (auto simp: server_close_def client_close_def prog_simps)
qed

lemma closing_fine:
  "good F E K U w \<Longrightarrow> all_closed w \<Longrightarrow> list_all (closing_cmd E) cs \<Longrightarrow>
   fine F E K U (run_program K U n cs w) (\<lambda>_. all_closed)"
  unfolding run_program_def
proof (induction cs)
  case Nil
  then show ?case by (simp add: prog_simps)
next
  case (Cons c cs)
  then show ?case
    using closing_cmd_idle [OF Cons.prems(1,2), of c] by (simp add: andThen_apply del: run_cmd.simps)
qed

text \<open>
  Registrations at servers and clients, and assignments, touch neither handlers nor containers.  A
  program that registers once at every tag leaves every action with at most one callback.
\<close>

fun registration :: "cmd \<Rightarrow> bool" where
  "registration (Server_on i t u fl) = (get_action t (server_actions_list []) \<noteq> None)"
| "registration (Client_on i t u fl) = (get_action t (client_actions_list []) \<noteq> None)"
| "registration (Assign x f) = True"
| "registration c = False"

fun targets :: "cmd \<Rightarrow> (obj \<times> tag) list" where
  "targets (Server_on i t u fl) = [(Server_obj i, t)]"
| "targets (Client_on i t u fl) = [(Client_obj i, t)]"
| "targets c = []"

definition vacant :: "world \<Rightarrow> obj \<times> tag \<Rightarrow> bool" where
  "vacant w x \<longleftrightarrow> (\<exists>acts. actions_of (fst x) w = Some acts \<and> acts (snd x) = [])"

definition registrable :: "cmd list \<Rightarrow> world \<Rightarrow> bool" where
  "registrable cs w \<longleftrightarrow> list_all registration cs \<and> distinct (concat (map targets cs)) \<and> list_all (vacant w) (concat (map targets cs))"

definition same_places :: "world \<Rightarrow> world \<Rightarrow> bool" where
  "same_places w w' \<longleftrightarrow> next_handler w' = next_handler w \<and>
     (\<forall>i. c_sockets (get_container (Connections i) w') = c_sockets (get_container (Connections i) w))"

lemma register_good:
  assumes I: "good F E K U w" and ob: "ob = Server_obj i \<or> ob = Client_obj i" and acts: "actions_of ob w = Some acts" "acts t = []"
    and w'_def: "w' = put_actions ob (acts(t := add_callback (User u) fl [])) w"
  shows "good F E K U w' \<and> same_places w w' \<and> (\<forall>x. vacant w x \<longrightarrow> x \<noteq> (ob, t) \<longrightarrow> vacant w' x)"
proof -
  have S: "sound K U w" "solitary w" using I by (simp_all add: good_def)
  have "sound K U w'"
    using ob acts table_on_sound [OF S(1), of i t u fl] by (auto simp: w'_def)
  moreover have "length (add_callback (User u) fl []) = 1"
    by (simp add: add_callback_def Let_def)
  then have "solitary w'"
    using ob acts S(2) by (auto simp: w'_def solitary_def)
  moreover have "heap w' = heap w" "srv_handler (servers w' j) = srv_handler (servers w j)"
      "c_handler (get_container c w') = c_handler (get_container c w)" for c j
    using ob by (cases c; auto simp: w'_def)+
  ultimately have "good F E K U w'"
    by (intro good_same [OF I]) (simp_all add: good_container [OF I] good_server [OF I])
  moreover have "vacant w' x" if "vacant w x" "x \<noteq> (ob, t)" for x
    using that ob acts by (cases x; cases "fst x") (auto simp: vacant_def w'_def split: if_splits)
  ultimately show ?thesis
    using ob by (auto simp: same_places_def w'_def)
qed

lemma registration_fine:
  assumes I: "good F E K U w" and c: "registration c" "list_all (vacant w) (targets c)"
  shows "fine F E K U (run_cmd K X n c w) (\<lambda>_ w'. same_places w w' \<and> (\<forall>x. vacant w x \<longrightarrow> x \<notin> set (targets c) \<longrightarrow> vacant w' x))"
proof -
  consider (server) i t u fl where "c = Server_on i t u fl" | (client) i t u fl where "c = Client_on i t u fl"
    | (assign) x f where "c = Assign x f"
    using c(1) by (cases c) auto
  then show ?thesis
  proof cases
    case server
    then show ?thesis
      using c register_good [OF I, of "Server_obj i" i _ t _ u fl] by (auto simp: on_def vacant_def)
  next
    case client
    then show ?thesis
      using c register_good [OF I, of "Client_obj i" i _ t _ u fl] by (auto simp: on_def vacant_def)
  next
    case assign
    have same: "vacant (w\<lparr>variables := v\<rparr>) y = vacant w y" for v y
      by (cases y; cases "fst y") (simp_all add: vacant_def)
    show ?thesis
      using inv_variables [OF good_sound [OF I]] good_steps [OF I]
      by (auto simp: assign same_places_def prog_simps set_variable_def same)
  qed
qed

lemma registrations_fine:
  "good F E K U w \<Longrightarrow> registrable cs w \<Longrightarrow> fine F E K U (run_program K U n cs w) (\<lambda>_. same_places w)"
  unfolding run_program_def
proof (induction cs arbitrary: w)
  case Nil
  then show ?case by (simp add: prog_simps same_places_def)
next
  case (Cons c cs)
  have c: "registration c" "list_all (vacant w) (targets c)"
    using Cons.prems(2) by (simp_all add: registrable_def)
  show ?case
    unfolding run_all.simps
  proof (rule fine_then, rule registration_fine [OF Cons.prems(1) c])
    fix u w' assume w': "good F E K U w'"
      "same_places w w' \<and> (\<forall>x. vacant w x \<longrightarrow> x \<notin> set (targets c) \<longrightarrow> vacant w' x)"
    have "vacant w' x" if "c' \<in> set cs" "x \<in> set (targets c')" for c' x
    proof -
      have "x \<notin> set (targets c)" "vacant w x"
        using Cons.prems(2) that unfolding registrable_def list_all_iff by fastforce+
      then show ?thesis using w'(2) by blast
    qed
    then have "registrable cs w'"
      using Cons.prems(2) by (auto simp: registrable_def list_all_iff)
    then show "fine F E K U (run_all (run_cmd K (execute K U n) n) cs w') (\<lambda>_. same_places w)"
      by (intro fine_weaken [OF Cons.IH [OF w'(1)]]) (use w'(2) in \<open>simp_all add: same_places_def\<close>)
  qed
qed

text \<open>Registrations at a raw or udp socket.\<close>

lemma socket_on_fine:
  assumes I: "good F E K U w" and p: "E p = Some cls" and t: "get_action t (class_actions cls) \<noteq> None"
  shows "fine F E K U (run_cmd K X n (Socket_on p t u fl) w) (\<lambda>_ _. True)"
proof -
  obtain s where s: "heap w p = Some s" "sclass s = cls" "cls \<noteq> Tcp_connection"
    using good_object [OF I p] by blast
  then have cls: "cls = Udp_socket \<or> cls = Raw_socket"
    by (cases cls) simp_all
  let ?w = "w\<lparr>heap := (heap w)(p \<mapsto> s\<lparr>sactions := (sactions s)(t := add_callback (User u) fl (sactions s t))\<rparr>)\<rparr>"
  have "sound K U ?w"
    by (intro socket_on_sound [OF good_sound [OF I] s(1)]) (use s(2) cls in auto)
  then have "good F E K U ?w"
    using I s(1) good_container [OF I] good_server [OF I] by (intro good_same [OF I]) (auto simp: good_def solitary_def outline_def)
  then show ?thesis
    using s t cls by (auto simp: live_def prog_simps on_def)
qed

lemma socket_registrations_fine:
  "good F E K U w \<Longrightarrow> E p = Some cls \<Longrightarrow> list_all (\<lambda>(t, u). get_action t (class_actions cls) \<noteq> None) ts \<Longrightarrow>
   fine F E K U (run_program K U n (map (\<lambda>(t, u). Socket_on p t u fl) ts) w) (\<lambda>_ _. True)"
  unfolding run_program_def
proof (induction ts arbitrary: w)
  case Nil
  then show ?case by (simp add: prog_simps)
next
  case (Cons x ts)
  obtain t u where x: "x = (t, u)" by (cases x)
  show ?case
    unfolding x list.map run_all.simps prod.case
    by (rule fine_then, rule socket_on_fine [OF Cons.prems(1,2)]) (use Cons x in simp_all)
qed

lemma run_program_append:
  "run_program K U n (cs @ ds) = andThen (run_program K U n cs) (\<lambda>_. run_program K U n ds)"
  by (induction cs) (simp_all add: run_program_def andThen_assoc andThen_ret_left)

section \<open>The programs\<close>

lemma callbacks_disciplined:
  "disciplined (tcp_server_callbacks K)" "disciplined (speed_server_callbacks K)"
  "disciplined (rtt_server_callbacks K)" "disciplined (tcp_client_callbacks K)"
  "disciplined (speed_client_callbacks K)" "disciplined (rtt_client_callbacks K nc)"
  "disciplined (udp_server_callbacks K p)" "disciplined (udp_client_callbacks K)"
proof -
  have e: "list_all printing (print_error K f e)" "list_all callback_cmd (print_error K f e)" for f e
    by (simp_all add: print_error_def)
  have r: "list_all callback_cmd (record_time t a b c d e i nc)" for t a b c d e i
    by (simp add: record_time_def assign_if_def)
  have d: "list_all callback_cmd (with_data q w f)" if "\<And>d. list_all callback_cmd (f d)" for q w f
    using that by (simp add: with_data_def split: option.split)
  have b: "list_all callback_cmd (count_bytes q m w cs)" if "list_all callback_cmd cs" for q m w cs
    using that by (auto simp: count_bytes_def Let_def intro!: d)
  have k: "list_all callback_cmd (check_bytes q w)" for q w
    unfolding check_bytes_def by (rule d) simp
  have "list_all callback_cmd (tcp_server_callbacks K u a w)" "list_all callback_cmd (speed_server_callbacks K u a w)"
    "list_all callback_cmd (rtt_server_callbacks K u a w)"
    "list_all callback_cmd (tcp_client_callbacks K u a w)" "list_all callback_cmd (speed_client_callbacks K u a w)"
    "list_all callback_cmd (rtt_client_callbacks K nc u a w)"
    "list_all callback_cmd (udp_server_callbacks K p u a w)"
    "list_all callback_cmd (udp_client_callbacks K u a w)" for u a w
    by (cases a; simp add: e r b d k)+
  then show "disciplined (tcp_server_callbacks K)" "disciplined (speed_server_callbacks K)"
    "disciplined (rtt_server_callbacks K)" "disciplined (tcp_client_callbacks K)"
    "disciplined (speed_client_callbacks K)" "disciplined (rtt_client_callbacks K nc)"
    "disciplined (udp_server_callbacks K p)" "disciplined (udp_client_callbacks K)"
    by (simp_all add: disciplined_def e)
qed

text \<open>
  No callback of the programs names an object it may have destroyed: the servers' and clients' name only
  the connection they are given, the udp server's the socket of the server.
\<close>

lemma arg_scopes:
  "(E ++ arg_scope (A_connection p)) p = Some Tcp_connection" "(E ++ arg_scope (A_connection_bytes p b)) p = Some Tcp_connection"
  by simp_all

lemma gentle_checks: "list_all (\<lambda>c. gentle c \<and> permits E c) cs \<Longrightarrow> checks E (cs @ ds) = checks E ds"
  by (induction cs) simp_all

lemma callbacks_careful:
  "keeps_to Map.empty (tcp_server_callbacks K)" "keeps_to Map.empty (speed_server_callbacks K)"
  "keeps_to Map.empty (rtt_server_callbacks K)" "keeps_to Map.empty (tcp_client_callbacks K)"
  "keeps_to Map.empty (speed_client_callbacks K)" "keeps_to Map.empty (rtt_client_callbacks K nc)"
  "keeps_to [p \<mapsto> Udp_socket] (udp_server_callbacks K p)" "keeps_to [p \<mapsto> Udp_socket] (udp_client_callbacks K)"
proof -
  have te: "list_all (\<lambda>c. \<not> adding c) (print_error K f e)" for f e
    by (simp add: print_error_def)
  have tr: "list_all (\<lambda>c. \<not> adding c) (record_time t a b c d e i nc)" for t a b c d e i
    by (simp add: record_time_def assign_if_def)
  have td: "list_all (\<lambda>c. \<not> adding c) (with_data q w f)" if "\<And>d. list_all (\<lambda>c. \<not> adding c) (f d)" for q w f
    using that by (simp add: with_data_def split: option.split)
  have tb: "list_all (\<lambda>c. \<not> adding c) (count_bytes q m w cs)" if "list_all (\<lambda>c. \<not> adding c) cs" for q m w cs
    using that by (auto simp: count_bytes_def Let_def intro!: td)
  have tk: "list_all (\<lambda>c. \<not> adding c) (check_bytes q w)" for q w
    unfolding check_bytes_def by (rule td) simp
  have e: "checks E (print_error K f e)" for E f e
    by (simp add: print_error_def)
  have r: "checks E (record_time t a b c d e i nc @ cs) = checks E cs" for E t a b c d e i cs
    by (rule gentle_checks) (simp add: record_time_def assign_if_def)
  note r' = r [where cs = "[]", simplified]
  have d: "checks E (with_data q w f)" if "\<And>d. checks E (f d)" "E q = Some Tcp_connection" for E q w f
    using that by (simp add: with_data_def split: option.split)
  have b: "checks E (count_bytes q m w cs)" if "checks E cs" "E q = Some Tcp_connection" for E q m w cs
    using that by (auto simp: count_bytes_def Let_def intro!: d)
  have k: "checks E (check_bytes q w)" if "E q = Some Tcp_connection" for E q w
    unfolding check_bytes_def by (rule d) (use that in simp_all)
  have "list_all (\<lambda>c. \<not> adding c) (tcp_server_callbacks K u a w)"
    "list_all (\<lambda>c. \<not> adding c) (speed_server_callbacks K u a w)"
    "list_all (\<lambda>c. \<not> adding c) (rtt_server_callbacks K u a w)"
    "list_all (\<lambda>c. \<not> adding c) (tcp_client_callbacks K u a w)"
    "list_all (\<lambda>c. \<not> adding c) (speed_client_callbacks K u a w)"
    "list_all (\<lambda>c. \<not> adding c) (rtt_client_callbacks K nc u a w)"
    "list_all (\<lambda>c. \<not> adding c) (udp_server_callbacks K p u a w)"
    "list_all (\<lambda>c. \<not> adding c) (udp_client_callbacks K u a w)" for u a w
    by (cases a; simp add: te tr td tb tk)+
  moreover have "checks (Map.empty ++ arg_scope a) (tcp_server_callbacks K u a w)"
    "checks (Map.empty ++ arg_scope a) (speed_server_callbacks K u a w)"
    "checks (Map.empty ++ arg_scope a) (rtt_server_callbacks K u a w)"
    "checks (Map.empty ++ arg_scope a) (tcp_client_callbacks K u a w)"
    "checks (Map.empty ++ arg_scope a) (speed_client_callbacks K u a w)"
    "checks (Map.empty ++ arg_scope a) (rtt_client_callbacks K nc u a w)"
    "checks ([p \<mapsto> Udp_socket] ++ arg_scope a) (udp_server_callbacks K p u a w)"
    "checks ([p \<mapsto> Udp_socket] ++ arg_scope a) (udp_client_callbacks K u a w)" for u a w
    by (cases a; simp add: e r r' b d k datagram_in_def)+
  ultimately show "keeps_to Map.empty (tcp_server_callbacks K)"
    "keeps_to Map.empty (speed_server_callbacks K)"
    "keeps_to Map.empty (rtt_server_callbacks K)"
    "keeps_to Map.empty (tcp_client_callbacks K)"
    "keeps_to Map.empty (speed_client_callbacks K)"
    "keeps_to Map.empty (rtt_client_callbacks K nc)"
    "keeps_to [p \<mapsto> Udp_socket] (udp_server_callbacks K p)"
    "keeps_to [p \<mapsto> Udp_socket] (udp_client_callbacks K)"
    by (simp_all add: keeps_to_def frugal_def)
qed

lemma container_empty_world: "get_container c empty_world = \<lparr>c_handler = 0, c_sockets = []\<rparr>"
  by (cases c) (simp_all add: empty_world_def)

text \<open>
  Before \<^verbatim>\<open>main\<close> there are no objects, no handler either; the first handler constructed leads to
  the empty world.
\<close>

definition start_world :: world where
  "start_world = empty_world\<lparr>next_handler := 0\<rparr>"

lemma first_handler: "make_handler start_world = Inr (0, empty_world)"
  by (simp add: make_handler_def start_world_def empty_world_def new_handler_def set_handler_def fun_upd_idem_iff)

lemma from_start:
  "andThen make_handler k start_world = k 0 empty_world"
  "andThen (pollable_entity None) k start_world = k 0 empty_world"
  "server_ctor i None start_world = server_ctor i (Some 0) empty_world"
  "udp_socket_ctor None start_world = udp_socket_ctor (Some 0) empty_world"
  by (simp_all add: first_handler andThen_apply pollable_entity_def server_ctor_def udp_socket_ctor_def ret_apply)

lemma all_containers: "(\<forall>c. P c) \<longleftrightarrow> (\<forall>i. P (Listeners i)) \<and> (\<forall>i. P (Clients i)) \<and> (\<forall>i. P (Connections i))"
  by (metis container_ref.exhaust)

text \<open>The empty world, and the parts the mains share.\<close>

lemma empty_good:
  "env_ok K U \<Longrightarrow> keeps_to Map.empty U \<Longrightarrow> AssertFailed \<in> F \<or> positive_descriptors K \<Longrightarrow> good F Map.empty K U empty_world"
  using empty_world_sound
  using container_empty_world
  by (auto simp: good_def at_rest_def one_handler_def solitary_def steadfast_def datagrams_def forget_def scope_of_def fun_eq_iff)
    (simp_all add: empty_world_def)

abbreviation harmless_calls :: "scope \<Rightarrow> cmd list \<Rightarrow> bool" where
  "harmless_calls E cs \<equiv> list_all callback_cmd cs \<and> checks E cs"

lemma call_fine: "good F E K U w \<Longrightarrow> harmless_calls E cs \<Longrightarrow> fine F E K U (run_program K U n cs w) (\<lambda>_ _. True)"
  by (rule calls_fine) simp_all

lemma setup_fine:
  assumes "good F E K U w" and "registrable rs w" and "harmless_calls E cs"
  shows "fine F E K U (run_program K U n (rs @ cs) w) (\<lambda>_ _. True)"
  unfolding run_program_append
  by (rule fine_then, rule registrations_fine [OF assms(1,2)], rule call_fine [OF _ assms(3)])

lemma loop_fine:
  assumes "good F E K U w" and "harmless_calls E cs" and "list_all (closing_cmd E) ds"
  shows "fine F E K U (andThen (poll_while K (execute K U n) (run_program K U n cs) n 0) (\<lambda>_. run_program K U n ds) w)
    (\<lambda>_. all_closed)"
proof (rule fine_then)
  show "fine F E K U (poll_while K (execute K U n) (run_program K U n cs) n 0 w) (\<lambda>_ w'. sockets (handlers w' 0) = [])"
    by (rule poll_while_fine [OF call_fine]) (use assms in auto)
qed (use assms(3) closing_fine idle_handler in blast)

lemma no_calls: "run_program K U n [] = ret ()"
  by (simp add: run_program_def)

lemma idle_loop_fine:
  assumes "good F E K U w"
  shows "fine F E K U (poll_while K (execute K U n) (ret ()) n 0 w) (\<lambda>_. all_closed)"
proof -
  have "fine F E K U (poll_while K (execute K U n) (ret ()) n 0 w) (\<lambda>_ w'. sockets (handlers w' 0) = [])"
    by (rule poll_while_fine [OF fine_ret assms])
  then show ?thesis
    using idle_handler by (auto simp: fine_def split: sum.splits)
qed

lemma server_main_fine:
  assumes I: "good F Map.empty K U empty_world"
    and rs: "list_all registration rs" "distinct (concat (map targets rs))" "list_all (\<lambda>x. fst x = Server_obj 0) (concat (map targets rs))"
    and cs: "harmless_calls Map.empty cs"
  shows "fine F Map.empty K U (server_main K U (rs @ cs) n start_world) (\<lambda>_. all_closed)"
  unfolding server_main_def andThen_apply [of "server_ctor 0 None"] from_start
  unfolding andThen_apply [symmetric]
proof (rule fine_then)
  have "c_sockets (get_container (Listeners 0) empty_world) = []" "c_sockets (get_container (Clients 0) empty_world) = []"
    by (simp_all add: empty_world_def)
  then have s: "server_ctor 0 (Some 0) empty_world = Inr (x, w') \<Longrightarrow> sound K U w'" for x w'
    using server_ctor_sound [OF good_sound [OF I], of 0 "Some 0" x w'] by (simp add: empty_world_def)
  have "\<exists>x w'. server_ctor 0 (Some 0) empty_world = Inr (x, w') \<and> heap w' = heap empty_world \<and>
      srv_actions (servers w' 0) = (\<lambda>_. []) \<and> solitary w' \<and> (\<forall>i. srv_handler (servers w' i) = 0) \<and>
      (\<forall>c. c_handler (get_container c w') = 0)"
    by (simp add: server_ctor_def pollable_entity_def prog_simps solitary_def empty_world_def
        new_container_def all_containers)
  then obtain x v where v: "server_ctor 0 (Some 0) empty_world = Inr (x, v)" "heap v = heap empty_world"
      "srv_actions (servers v 0) = (\<lambda>_. [])" "solitary v" "\<And>i. srv_handler (servers v i) = 0"
      "\<And>c. c_handler (get_container c v) = 0"
    by blast
  then have "good F Map.empty K U v"
    by (intro good_same [OF I s]) simp_all
  then show "fine F Map.empty K U (server_ctor 0 (Some 0) empty_world) (\<lambda>_ w'. srv_actions (servers w' 0) = (\<lambda>_. []))"
    using v by simp
  fix a w assume w: "good F Map.empty K U w" "srv_actions (servers w 0) = (\<lambda>_. [])"
  then have "list_all (vacant w) (concat (map targets rs))"
    using rs(3) by (auto simp: list_all_iff vacant_def)
  then have reg: "registrable rs w"
    using rs by (simp add: registrable_def)
  show "fine F Map.empty K U (andThen (run_program K U n (rs @ cs)) (\<lambda>_. andThen (reads (\<lambda>w. srv_handler (servers w 0)))
      (\<lambda>h. andThen (poll_while K (execute K U n) (ret ()) n h) (\<lambda>_. run_program K U n [Server_close 0]))) w) (\<lambda>_. all_closed)"
  proof (rule fine_then, rule setup_fine [OF w(1) reg cs])
    fix u v assume v: "good F Map.empty K U v"
    have "fine F Map.empty K U (andThen (poll_while K (execute K U n) (ret ()) n 0) (\<lambda>_. run_program K U n [Server_close 0]) v)
        (\<lambda>_. all_closed)"
      by (rule loop_fine [where cs = "[]", unfolded no_calls, OF v]) simp_all
    then show "fine F Map.empty K U (andThen (reads (\<lambda>w. srv_handler (servers w 0)))
      (\<lambda>h. andThen (poll_while K (execute K U n) (ret ()) n h) (\<lambda>_. run_program K U n [Server_close 0])) v) (\<lambda>_. all_closed)"
      using good_server [OF v, of 0] by (simp add: andThen_apply [of "reads f" for f] reads_apply)
  qed
qed

lemma client_ctor_fine:
  assumes I: "good F E K U w" and "\<forall>j. c_sockets (get_container (Connections j) w) = []" and "0 < next_handler w"
  shows "fine F E K U (client_ctor i 0 w) (\<lambda>_ w'. same_places w w' \<and> cl_actions (clients w' i) = (\<lambda>_. []))"
proof -
  obtain w' where w': "client_ctor i 0 w = Inr ((), w')" "heap w' = heap w" "servers w' = servers w" "next_handler w' = next_handler w"
      "clients w' = (clients w)(i := \<lparr>cl_handler = 0, cl_actions = (\<lambda>_. []), cl_container = new_container 0\<rparr>)"
    by (simp add: client_ctor_def prog_simps)
  have "c_handler (get_container c w') = 0" for c
    using w' good_container [OF I, of c] by (cases c) (simp_all add: new_container_def)
  moreover have "sound K U w'"
    by (rule client_ctor_sound [OF good_sound [OF I] _ assms(3) w'(1)]) (use assms(2) in simp)
  ultimately have "good F E K U w'"
    using w' I good_server [OF I] by (intro good_same [OF I]) (auto simp: good_def solitary_def)
  then show ?thesis
    using w' assms(2) by (simp add: same_places_def new_container_def)
qed

text \<open>Construction of a client and its registrations.\<close>

definition client_registrations :: "nat \<Rightarrow> cmd list \<Rightarrow> bool" where
  "client_registrations i rs \<longleftrightarrow> list_all registration rs \<and> distinct (concat (map targets rs)) \<and>
     list_all (\<lambda>x. fst x = Client_obj i) (concat (map targets rs))"

lemma client_registrable: "client_registrations i rs \<Longrightarrow> cl_actions (clients w i) = (\<lambda>_. []) \<Longrightarrow> registrable rs w"
  by (auto simp: client_registrations_def registrable_def list_all_iff vacant_def)

lemma new_clients_fine:
  assumes "\<And>i. client_registrations i (rs i)"
  shows "good F E K U w \<Longrightarrow> \<forall>j. c_sockets (get_container (Connections j) w) = [] \<Longrightarrow> 0 < next_handler w \<Longrightarrow>
     fine F E K U (new_clients K U n 0 rs is w) (\<lambda>_ _. True)"
  unfolding new_clients_def
proof (induction "is" arbitrary: w)
  case Nil
  then show ?case by (simp add: prog_simps)
next
  case (Cons i "is")
  show ?case
    unfolding run_all.simps andThen_assoc
  proof (rule fine_then, rule client_ctor_fine [OF Cons.prems], elim conjE, rule fine_then,
      rule registrations_fine, assumption, rule client_registrable [OF assms], assumption)
    fix w1 w2 assume "same_places w w1" "same_places w1 w2" and I: "good F E K U w2"
    then have "same_places w w2" by (simp add: same_places_def)
    then show "fine F E K U (run_all (\<lambda>i. andThen (client_ctor i 0) (\<lambda>_. run_program K U n (rs i))) is w2) (\<lambda>_ _. True)"
      by (intro Cons.IH [OF I]) (use Cons.prems in \<open>simp_all add: same_places_def\<close>)
  qed
qed

lemma client_fine:
  assumes I: "good F E K U w" and c: "\<forall>j. c_sockets (get_container (Connections j) w) = []" "0 < next_handler w"
    and stp: "setup = rs @ cs" "client_registrations i rs" "harmless_calls E cs"
    and rst: "\<And>w. good F E K U w \<Longrightarrow> fine F E K U (rest w) Q"
  shows "fine F E K U (andThen (client_ctor i 0) (\<lambda>_. andThen (run_program K U n setup) (\<lambda>_. rest)) w) Q"
  unfolding stp(1)
proof (rule fine_then, rule client_ctor_fine [OF I c], elim conjE)
  fix x v assume "good F E K U v" "cl_actions (clients v i) = (\<lambda>_. [])"
  then show "fine F E K U (andThen (run_program K U n (rs @ cs)) (\<lambda>_. rest) v) Q"
    by (intro fine_then rst) (rule setup_fine [OF _ client_registrable [OF stp(2)] stp(3)])
qed

lemma tcp_client_main_fine:
  assumes I0: "good F Map.empty K (tcp_client_callbacks K) empty_world"
  shows "fine F Map.empty K (tcp_client_callbacks K) (tcp_client_main K pointer_text n start_world) (\<lambda>_. all_closed)"
  unfolding tcp_client_main_def Let_def from_start
proof -
  let ?U = "tcp_client_callbacks K" and ?E = "Map.empty :: scope" and ?w = empty_world
  let ?on = "[Client_on 0 CONNECT 0 (flag_value DEFAULT), Client_on 0 TCP_CLOSED 1 (flag_value DEFAULT),
     Client_on 0 TCP_RECEIVE 2 (flag_value DEFAULT), Client_on 0 ERROR 3 (flag_value DEFAULT)]"
  have echo: "fine F ?E K ?U (run_program K ?U n [Print [Text t]] ?w) (\<lambda>_ w'. next_handler w' = 1 \<and> clients w' = clients ?w)" for t
  proof -
    have "fine F ?E K ?U (print K [Text t] ?w) (\<lambda>_ w'. echoes ?w w')"
      by (rule fine_ends [OF I0 print_safe [OF good_sound [OF I0]]]) simp_all
    then show ?thesis
      by (auto simp: run_program_def andThen_apply ret_apply fine_def echoes_def empty_world_def split: sum.splits)
  qed
  show "fine F ?E K ?U (andThen (run_program K ?U n [Print [Text (''handler:     '' @ pointer_text 0 @ nl)]]) (\<lambda>_.
      andThen (client_ctor 0 0) (\<lambda>_.
      andThen (run_program K ?U n
        [Client_on 0 CONNECT 0 (flag_value DEFAULT), Client_on 0 TCP_CLOSED 1 (flag_value DEFAULT),
         Client_on 0 TCP_RECEIVE 2 (flag_value DEFAULT), Client_on 0 ERROR 3 (flag_value DEFAULT),
         Client_connect 0 ''127.0.0.1'' 8000 False]) (\<lambda>_.
      andThen (reads (\<lambda>w. cl_handler (clients w 0))) (\<lambda>h'.
      andThen (run_program K ?U n [Print [Text (''handlers:    '' @ pointer_text h' @ nl)]]) (\<lambda>_.
      andThen (poll_while K (execute K ?U n) (ret ()) n 0) (\<lambda>_. run_program K ?U n [Client_close 0])))))) ?w) (\<lambda>_. all_closed)"
  proof (rule fine_then, rule echo, elim conjE,
      rule client_fine [where rs = ?on and cs = "[Client_connect 0 ''127.0.0.1'' 8000 False]"])
    fix v assume v: "good F ?E K ?U v"
    show "fine F ?E K ?U (andThen (reads (\<lambda>w. cl_handler (clients w 0))) (\<lambda>h'.
        andThen (run_program K ?U n [Print [Text (''handlers:    '' @ pointer_text h' @ nl)]]) (\<lambda>_.
        andThen (poll_while K (execute K ?U n) (ret ()) n 0) (\<lambda>_. run_program K ?U n [Client_close 0]))) v) (\<lambda>_. all_closed)"
      by (rule fine_then, rule fine_reads [OF v], rule fine_then, rule call_fine)
        (auto intro!: loop_fine [where cs = "[]", unfolded no_calls])
  qed (auto simp: client_registrations_def action_list_defs empty_world_def)
qed

text \<open>A program called with the wrong arguments prints its usage.\<close>

lemma usage_outcome: "argv \<noteq> [] \<Longrightarrow> \<exists>t. usage K argv w = Inr (1, after K (Sys_write 1 t) w)"
  unfolding usage_def by (cases argv) (auto simp: print_def discard_def prog_simps)

lemma echoes_closed: "echoes w w' \<Longrightarrow> all_closed w' = all_closed w"
  by (simp add: all_closed_def echoes_heap)

lemma print_now_fine: "good F E K U w \<Longrightarrow> fine F E K U (print_now K f w) (\<lambda>_ w'. all_closed w' = all_closed w)"
  unfolding print_now_def
  by (rule fine_then [OF fine_reads], assumption)
    (auto intro!: fine_weaken [OF fine_ends [OF _ print_safe [OF good_sound]]] simp: echoes_closed)

lemma print_call_fine:
  assumes I: "good F E K U w" and "all_closed w"
  shows "fine F E K U (run_program K U n [Print [Text t]] w) (\<lambda>_. all_closed)"
  unfolding run_program_def run_all.simps run_cmd.simps
proof (rule fine_then)
  show "fine F E K U (print K [Text t] w) (\<lambda>_. all_closed)"
    by (rule fine_weaken, rule fine_ends [OF I print_safe [OF good_sound [OF I]]])
      (use assms(2) in \<open>simp_all add: echoes_closed\<close>)
qed (simp add: ret_apply)

lemma no_connections: "\<forall>j. c_sockets (get_container (Connections j) empty_world) = []"
  by (simp add: empty_world_def)

lemma client_lists:
  "list_all callback_cmd (concat (map (speed_connect nc) all))" "list_all callback_cmd (map Client_close all)"
  "list_all callback_cmd (map (\<lambda>i. Client_connect i host port False) all)"
  "list_all (permits E) (concat (map (speed_connect nc) all))" "list_all (permits E) (map Client_close all)"
  "list_all (permits E) (map (\<lambda>i. Client_connect i host port False) all)"
  by (induction all) (simp_all add: speed_connect_def record_time_def assign_if_def)

lemma forget_empty [simp]: "forget Map.empty = Map.empty" "forget [p \<mapsto> Udp_socket] = [p \<mapsto> Udp_socket]"
  by (auto simp: forget_def)

lemma speed_client_main_fine:
  assumes I: "good F Map.empty K (speed_client_callbacks K) empty_world" and "length argv = 2"
  shows "fine F Map.empty K (speed_client_callbacks K) (speed_client_main K ft argv n start_world) (\<lambda>_. all_closed)"
proof -
  let ?E = "Map.empty :: scope"
  have last: "fine F ?E K U (andThen (poll_while K (execute K U n) (ret ()) n 0) (\<lambda>_.
      andThen (run_program K U n (map Client_close all)) (\<lambda>_. ret x)) w) (\<lambda>_. all_closed)"
    if "good F ?E K U w" for U all w and x :: int
    by (rule fine_then, rule idle_loop_fine [OF that], rule fine_then, rule closing_fine, assumption+)
      (simp_all add: list_all_iff prog_simps)
  show ?thesis
    unfolding speed_client_main_def Let_def assms(2)
    by (simp only: simp_thms if_False from_start, rule fine_then, rule new_clients_fine [OF _ I no_connections],
        simp add: client_registrations_def action_list_defs, simp add: empty_world_def,
        rule fine_then, rule call_fine, assumption, simp add: client_lists checks_lasting,
        rule fine_then, rule print_now_fine, assumption, rule last)
qed

lemma rtt_client_main_fine:
  assumes I: "good F Map.empty K (rtt_client_callbacks K (atoi (argv ! 1))) empty_world" and "length argv = 2"
  shows "fine F Map.empty K (rtt_client_callbacks K (atoi (argv ! 1))) (rtt_client_main K ft argv n start_world) (\<lambda>_. all_closed)"
proof -
  let ?E = "Map.empty :: scope"
  have last: "fine F ?E K U (andThen (poll_while K (execute K U n) (ret ()) n 0) (\<lambda>_.
      andThen (run_program K U n [Print [Text t]]) (\<lambda>_. andThen (print_now K f) (\<lambda>_. ret x))) w) (\<lambda>_. all_closed)"
    if "good F ?E K U w" for U w t f and x :: int
    by (rule fine_then, rule idle_loop_fine [OF that], rule fine_then, rule print_call_fine, assumption+,
        rule fine_then, rule print_now_fine, assumption) (simp_all add: prog_simps all_closed_def)
  show ?thesis
    unfolding rtt_client_main_def Let_def assms(2)
    by (simp only: simp_thms if_False from_start, rule fine_then, rule registrations_fine [OF I], simp add: registrable_def,
        rule fine_then, rule new_clients_fine, simp add: client_registrations_def action_list_defs, assumption,
        simp add: same_places_def empty_world_def, simp add: same_places_def empty_world_def,
        rule fine_then, rule call_fine, assumption, simp add: client_lists checks_lasting,
        rule fine_then, rule print_now_fine, assumption, rule last)
qed

text \<open>A udp socket made first is the first object on the heap.\<close>

lemma udp_ctor_empty:
  assumes env: "env_ok K U" and U: "keeps_to [0 \<mapsto> Udp_socket] U" and F: "AssertFailed \<in> F"
  shows "fine F [0 \<mapsto> Udp_socket] K U (udp_socket_ctor None start_world) (\<lambda>p w. p = 0)"
proof -
  obtain w s where w: "udp_socket_ctor (Some 0) empty_world = Inr (0, w)" "heap w = [0 \<mapsto> s]" "sclass s = Udp_socket"
      "shandler s = 0" "sock_fd s < 0" "servers w = servers empty_world" "clients w = clients empty_world"
    by (simp add: udp_socket_ctor_def init_socket_def pollable_entity_def prog_simps Let_def
        on_def action_list_defs new_sock_def empty_world_def)
  have "sound K U w"
    using udp_ctor_sound [OF empty_world_sound [OF env] _ w(1)] by (simp add: empty_world_def)
  moreover have "solitary w"
    using w(6,7) by (simp add: solitary_def empty_world_def)
  moreover have "get_container c w = get_container c empty_world" for c
    by (rule get_container_cong) (simp_all add: w(6,7))
  then have "one_handler w"
    using w(2,4,6) by (simp add: one_handler_def container_empty_world) (simp add: empty_world_def)
  moreover have "at_rest w"
    using w(2,3) by (simp add: at_rest_def closing_def)
  moreover have "[0 \<mapsto> Udp_socket] \<subseteq>\<^sub>m datagrams w"
    using w(2,3) datagrams_Some [of w 0 Udp_socket] by (auto simp: map_le_def)
  ultimately show ?thesis
    using w(1) U F by (simp add: good_def from_start)
qed

lemma get_sock_fine: "good F E K U w \<Longrightarrow> E p = Some cls \<Longrightarrow> fine F E K U (get_sock p w) (\<lambda>s w'. w' = w \<and> shandler s = 0)"
  using good_object [of F E K U w p cls] good_handler [of F E K U w p] by (auto simp: prog_simps)

text \<open>Registrations at a udp socket, calls, and a loop on its handler.\<close>

lemma udp_program_fine:
  assumes I: "good F E K U w" "E p = Some Udp_socket"
    and stp: "cs = map (\<lambda>(t, u). Socket_on p t u fl) ts @ ds"
      "list_all (\<lambda>(t, u). get_action t (class_actions Udp_socket) \<noteq> None) ts" "harmless_calls E ds"
    and k: "\<And>s w. good F E K U w \<Longrightarrow> shandler s = 0 \<Longrightarrow> fine F E K U (k s w) Q"
  shows "fine F E K U (andThen (run_program K U n cs) (\<lambda>_. andThen (get_sock p) k) w) Q"
  unfolding stp(1) run_program_append andThen_assoc
proof (rule fine_then, rule socket_registrations_fine [OF I stp(2)], rule fine_then, rule call_fine [OF _ stp(3)], assumption)
  fix v assume v: "good F E K U v"
  show "fine F E K U (andThen (get_sock p) k v) Q"
    by (rule fine_then, rule get_sock_fine [OF v I(2)]) (use k in simp)
qed

lemma udp_server_main_fine:
  assumes env: "env_ok K (udp_server_callbacks K 0)" and F: "AssertFailed \<in> F"
  shows "fine F [0 \<mapsto> Udp_socket] K (udp_server_callbacks K 0) (udp_server_main K n start_world) (\<lambda>_. all_closed)"
  unfolding udp_server_main_def Let_def
proof (rule fine_then, rule udp_ctor_empty [OF env callbacks_careful(7) F], simp only:,
    rule udp_program_fine [where ts = "[(UDP_RECEIVE, 0), (UDP_BIND, 1), (UDP_CLOSED, 2), (ERROR, 3)]"
      and ds = "[Udp_bind 0 ''127.0.0.1'' 8000 False]"])
  let ?U = "udp_server_callbacks K 0"
  fix s w assume "good F [0 \<mapsto> Udp_socket] K ?U w" "shandler s = 0"
  then show "fine F [0 \<mapsto> Udp_socket] K ?U (andThen (poll_while K (execute K ?U n) (ret ()) n (shandler s))
      (\<lambda>_. run_program K ?U n [Socket_close 0]) w) (\<lambda>_. all_closed)"
    by (simp only:) (intro loop_fine [where cs = "[]", unfolded no_calls], simp_all add: datagram_in_def)
qed (simp_all add: action_list_defs)

lemma resolve_port_fine:
  assumes I: "good F E K U w" and F: "range LogicError \<subseteq> F"
  shows "fine F E K U (address_from_port (world_resolver K) host port AF_INET w) (\<lambda>_ _. True)"
proof -
  let ?R = "world_resolver K"
  have ends: "fine F E K U (addrinfo ?R new_address host AF_INET w) (\<lambda>(r, a) w'. r = AI_SUCCESS \<longrightarrow> sa_family a = AF_INET)"
    by (rule fine_weaken [OF fine_ends [OF I ends_addrinfo [OF good_sound [OF I]]]]) auto
  show ?thesis
  proof (cases "addrinfo ?R new_address host AF_INET w")
    case (Inl e)
    then show ?thesis
      using ends by (simp add: address_from_port_def andThen_apply)
  next
    case (Inr x)
    then obtain r a w' where x: "addrinfo ?R new_address host AF_INET w = Inr ((r, a), w')"
      by (metis prod.collapse)
    then have w': "good F E K U w'" "r = AI_SUCCESS \<Longrightarrow> sa_family a = AF_INET"
      using ends by simp_all
    have "\<exists>b. set_port Sockaddr_in port a = Inr b" if "r = AI_SUCCESS"
      using set_port_family [of a False port] w'(2) [OF that] by (simp add: inet_family_def inet_sockaddr_def)
    then show ?thesis
      using w'(1) x F by (auto simp: address_from_port_def prog_simps lift_fault_def)
  qed
qed

lemma udp_client_main_fine:
  assumes env: "env_ok K (udp_client_callbacks K)" and F: "AssertFailed \<in> F" "range LogicError \<subseteq> F"
  shows "fine F [0 \<mapsto> Udp_socket] K (udp_client_callbacks K) (udp_client_main K n start_world) (\<lambda>_. all_closed)"
  unfolding udp_client_main_def Let_def
proof (rule fine_then, rule udp_ctor_empty [OF env callbacks_careful(8) F(1)], simp only:,
    rule fine_then, rule resolve_port_fine [OF _ F(2)], assumption)
  let ?U = "udp_client_callbacks K" and ?E = "[0 \<mapsto> Udp_socket] :: scope"
  fix a w assume w: "good F ?E K ?U w"
  show "fine F ?E K ?U (andThen (run_program K ?U n
        [Socket_on 0 UDP_RECEIVE 0 (flag_value DEFAULT), Socket_on 0 UDP_CLOSED 1 (flag_value DEFAULT),
         Socket_on 0 ERROR 2 (flag_value DEFAULT), Udp_open 0 AF_INET, Socket_fcntl 0 F_SETFL O_NONBLOCK,
         Socket_send_to 0 a (bytes_of ''BEGIN'' @ [0]) 0]) (\<lambda>_.
      andThen (get_sock 0) (\<lambda>s.
      andThen (poll_while K (execute K ?U n)
        (run_program K ?U n [Socket_send_to 0 a (bytes_of ''hello world'' @ [0]) 0]) n (shandler s)) (\<lambda>_.
      run_program K ?U n [Socket_close 0]))) w) (\<lambda>_. all_closed)"
    by (rule udp_program_fine [OF w, where ts = "[(UDP_RECEIVE, 0), (UDP_CLOSED, 1), (ERROR, 2)]"
        and ds = "[Udp_open 0 AF_INET, Socket_fcntl 0 F_SETFL O_NONBLOCK, Socket_send_to 0 a (bytes_of ''BEGIN'' @ [0]) 0]"])
      (auto intro!: loop_fine simp: action_list_defs datagram_in_def)
qed

end
