(* ===== verification/Program_Properties.thy ===== *)
theory Program_Properties
  imports Program_Outcomes
begin

text \<open>
  Properties of the example programs: none corrupts memory or leaves a descriptor open, what the udp
  server, the raw listener and the server of the round trip test do with a message, what closing leaves,
  and a program that breaks the discipline.
\<close>

section \<open>The answer of the udp server\<close>

text \<open>
  A computation that only makes the calls \<open>cs\<close>, besides conversions of addresses to text and to names.
\<close>

fun conversion :: "syscall \<Rightarrow> bool" where
  "conversion (Lib_inet_ntop fam b n) = True"
| "conversion (Lib_getnameinfo a len n) = True"
| "conversion c = False"

definition makes_calls :: "world \<Rightarrow> world \<Rightarrow> syscall list \<Rightarrow> bool" where
  "makes_calls w w' cs \<longleftrightarrow> (\<exists>tr e. w' = w\<lparr>trace := trace w @ tr, errno := e\<rparr> \<and>
     filter (\<lambda>c. \<not> conversion c) (map fst tr) = cs)"

lemma makes_no_calls: "makes_calls w w []"
  unfolding makes_calls_def by (intro exI [of _ "[]"] exI [of _ "errno w"]) simp

lemma makes_calls_trans: "makes_calls w w1 cs \<Longrightarrow> makes_calls w1 w2 ds \<Longrightarrow> makes_calls w w2 (cs @ ds)"
proof -
  assume "makes_calls w w1 cs" "makes_calls w1 w2 ds"
  then obtain t e t' e' where "w1 = w\<lparr>trace := trace w @ t, errno := e\<rparr>" "filter (\<lambda>c. \<not> conversion c) (map fst t) = cs"
      "w2 = w1\<lparr>trace := trace w1 @ t', errno := e'\<rparr>" "filter (\<lambda>c. \<not> conversion c) (map fst t') = ds"
    by (auto simp: makes_calls_def)
  then show ?thesis
    unfolding makes_calls_def by (intro exI [of _ "t @ t'"] exI [of _ e']) simp
qed

lemma makes_call: "makes_calls w (after K c w) (if conversion c then [] else [c])"
  unfolding makes_calls_def after_def
  by (intro exI [of _ "[(c, reply K c w)]"] exI [of _ "if ret_value (reply K c w) < 0 then ret_errno (reply K c w) else errno w"]) simp

lemma makes_calls_heap: "makes_calls w w' cs \<Longrightarrow> heap w' = heap w"
  by (auto simp: makes_calls_def)

lemma get_ip_calls: "\<exists>t w'. get_ip (world_resolver K) a w = Inr (t, w') \<and> makes_calls w w' []"
  using makes_no_calls [of w] makes_call [of w K "Lib_inet_ntop f b n" for f b n]
  by (auto simp: get_ip_def prog_simps external_def world_resolver_def answer_def split: option.splits)

lemma name_calls:
  "\<exists>r w'. resolve_loop (external (getnameinfo (world_resolver K) a len room)) fst m w = Inr (r, w') \<and> makes_calls w w' []"
proof (induction "nat m" arbitrary: m w rule: less_induct)
  case less
  let ?c = "Lib_getnameinfo a len room" and ?loop = "resolve_loop (external (getnameinfo (world_resolver K) a len room)) fst"
  have one: "makes_calls w (after K ?c w) []"
    using makes_call [of w K ?c] by simp
  show ?case
  proof (cases "m - 1 > 0")
    case True
    obtain r w' where "?loop (m - 1) (after K ?c w) = Inr (r, w')" "makes_calls (after K ?c w) w' []"
      using less [of "m - 1" "after K ?c w"] True by auto
    then show ?thesis
      using one makes_calls_trans [OF one] True
      by (subst resolve_loop.simps) (simp add: prog_simps external_def world_resolver_def answer_def)
  next
    case False
    then show ?thesis
      using one by (subst resolve_loop.simps) (simp add: prog_simps external_def world_resolver_def answer_def)
  qed
qed

lemma describe_host_calls: "\<exists>t w'. describe_host (world_resolver K) a w = Inr (t, w') \<and> makes_calls w w' []"
proof -
  obtain r w' where "resolve_loop (external (getnameinfo (world_resolver K) a (sa_size a) HOSTNAME_BUFFER_SIZE)) fst
      (int MAX_HOST_RESOLVE_RETRIES) w = Inr (r, w')" "makes_calls w w' []"
    using name_calls by blast
  then show ?thesis
    by (auto simp: describe_host_def nameinfo_of_def nameinfo_def prog_simps split: option.splits)
qed

text \<open>The description of an IPv6 address writes through a null pointer, all others return.\<close>

lemma to_string_calls:
  "if sa_family a = AF_INET6 then to_string (world_resolver K) a w = Inl NullPointer
   else \<exists>t w'. to_string (world_resolver K) a w = Inr (t, w') \<and> makes_calls w w' []"
proof -
  obtain h w1 where h: "describe_host (world_resolver K) a w = Inr (h, w1)" "makes_calls w w1 []"
    using describe_host_calls by blast
  obtain ip w2 where ip: "get_ip (world_resolver K) a w1 = Inr (ip, w2)" "makes_calls w1 w2 []"
    using get_ip_calls by blast
  from makes_calls_trans [OF h(2) ip(2)] makes_no_calls [of w] show ?thesis
    by (auto simp: to_string_def to_string_inet_def to_string_inet6_def prog_simps h(1) ip(1) to_type_def af_defs)
qed

lemma render_calls:
  assumes "printable i" and "\<forall>q. i = Ip_of q \<or> i = Fd_of q \<longrightarrow> heap w q \<noteq> None"
  shows "\<exists>t w'. render K i w = Inr (t, w') \<and> makes_calls w w' []"
proof -
  have cls: "c = Tcp_connection \<or> c = Raw_socket \<or> c = Udp_socket" for c
    by (cases c) simp_all
  have "makes_calls w w []" by (rule makes_no_calls)
  then show ?thesis
    using assms get_ip_calls [of K _ w] cls
    by (cases i) (auto simp: prog_simps live_def get_socket_def split: option.splits)
qed

lemma render_all_calls:
  "list_all printable is \<Longrightarrow> \<forall>q. Ip_of q \<in> set is \<or> Fd_of q \<in> set is \<longrightarrow> heap w q \<noteq> None \<Longrightarrow>
   \<exists>t w'. render_all K is w = Inr (t, w') \<and> makes_calls w w' []"
proof (induction "is" arbitrary: w)
  case Nil
  then show ?case using makes_no_calls by (auto simp: prog_simps)
next
  case (Cons i "is")
  obtain t w1 where 1: "render K i w = Inr (t, w1)" "makes_calls w w1 []"
    using render_calls [of i w K] Cons.prems by auto
  obtain t' w2 where "render_all K is w1 = Inr (t', w2)" "makes_calls w1 w2 []"
    using Cons.IH [of w1] Cons.prems makes_calls_heap [OF 1(2)] by auto
  then show ?case
    using 1 makes_calls_trans [OF 1(2)] by (fastforce simp: prog_simps)
qed

lemma print_calls:
  assumes "list_all printable is" and "\<forall>q. Ip_of q \<in> set is \<or> Fd_of q \<in> set is \<longrightarrow> heap w q \<noteq> None"
  shows "\<exists>t w' w1. print K is w = Inr ((), w') \<and> makes_calls w w' [Sys_write 1 t] \<and> render_all K is w = Inr (t, w1)"
proof -
  obtain t w1 where 1: "render_all K is w = Inr (t, w1)" "makes_calls w w1 []"
    using render_all_calls [OF assms] by blast
  have "makes_calls w1 (after K (Sys_write 1 t) w1) [Sys_write 1 t]"
    using makes_call [of w1 K "Sys_write 1 t"] by simp
  from makes_calls_trans [OF 1(2) this] 1 show ?thesis
    by (simp add: print_def discard_def prog_simps)
qed


text \<open>A single ordinary callback.\<close>

lemma andThen_unit: "andThen m (\<lambda>_. ret ()) = m"
  by (rule ext) (auto simp: andThen_def ret_def split: sum.splits)

lemma execute_one:
  assumes "actions_of ob w = Some acts" and "types_of ob w = Some types"
    and "get_action t types = Some (t, args_prototype a)" and "acts t = [\<lparr>exec = cb, flags = 0\<rparr>]"
  shows "execute K U (Suc n) ob t a w = run_callback K U (execute K U n) n cb a w"
proof -
  have "has_flag 0 f = False" for f by (simp add: has_flag_def)
  then show ?thesis
    using assms by (simp add: execute_action_apply andThen_apply touch_list_def andThen_unit)
qed

text \<open>A udp socket with the callbacks of its constructor and the one of the server for datagrams.\<close>

definition serving_sock :: "ptr \<Rightarrow> sock \<Rightarrow> bool" where
  "serving_sock p s \<longleftrightarrow> sclass s = Udp_socket \<and> 0 < sock_fd s \<and>
     sactions s READABLE = [\<lparr>exec = Udp_recvfrom p, flags = 0\<rparr>] \<and>
     sactions s RECVFROM = [\<lparr>exec = Udp_receive p, flags = 0\<rparr>] \<and>
     sactions s UDP_RECEIVE = [\<lparr>exec = User 0, flags = 0\<rparr>]"

lemma udp_server_calls:
  assumes s: "heap w p = Some s" "serving_sock p s"
    and sent: "\<And>h m a n. 0 \<le> ret_value (respond K h (Sys_sendto (sock_fd s) m 0 a n))"
  shows "\<exists>t w'. run_callback K (udp_server_callbacks K p) X n (User 0) (A_address_bytes addr message) w = Inr ((), w') \<and>
    makes_calls w w' [Sys_write 1 t, Sys_write 1 (text_of message @ nl),
      Sys_sendto (sock_fd s) (bytes_of ''received msg'' @ [0]) 0 addr (sa_size addr)]"
proof -
  let ?send = "Sys_sendto (sock_fd s) (bytes_of ''received msg'' @ [0]) 0 addr (sa_size addr)"
  obtain t w1 where 1: "print K [Text ''received from '', Ip addr, Text '' on endpoint listening on '', Ip_of p, Text '':'', Text nl] w
      = Inr ((), w1)" "makes_calls w w1 [Sys_write 1 t]"
    using print_calls [of "[Text ''received from '', Ip addr, Text '' on endpoint listening on '', Ip_of p, Text '':'', Text nl]" w K] s(1)
    by auto
  obtain w2 where 2: "print K [Text (text_of message), Text nl] w1 = Inr ((), w2)"
      "makes_calls w1 w2 [Sys_write 1 (text_of message @ nl)]"
    using print_calls [of "[Text (text_of message), Text nl]" w1 K] by (auto simp: prog_simps)
  have heap: "heap w2 p = Some s"
    using makes_calls_heap [OF 1(2)] makes_calls_heap [OF 2(2)] s(1) by simp
  moreover have "\<not> ret_value (respond K (trace w2) ?send) < 0"
    using sent by (simp add: not_less)
  ultimately have "run_cmd K X n (Socket_send_to p addr (bytes_of ''received msg'' @ [0]) 0) w2 = Inr ((), after K ?send w2)"
    using s(2) by (simp add: live_def prog_simps discard_def raw_send_to_def get_socket_def serving_sock_def reply_def)
  moreover have "makes_calls w2 (after K ?send w2) [?send]"
    using makes_call [of w2 K ?send] by simp
  ultimately show ?thesis
    using 1 2 makes_calls_trans [OF makes_calls_trans [OF 1(2) 2(2)]]
    by (simp add: andThen_apply ret_apply) blast
qed

section \<open>The raw listener\<close>

text \<open>A raw socket with the two callbacks the raw listener registers for its datagrams.\<close>

definition listening_sock :: "sock \<Rightarrow> bool" where
  "listening_sock s \<longleftrightarrow> sclass s = Raw_socket \<and> 0 < sock_fd s \<and>
     sactions s READABLE = [\<lparr>exec = User 0, flags = 0\<rparr>] \<and> sactions s RECVFROM = [\<lparr>exec = User 1, flags = 0\<rparr>]"

lemma listener_prints:
  "if sa_family addr = AF_INET6
   then run_callback K (raw_listener_callbacks K p) X n (User 1) (A_address_bytes addr message) w = Inl NullPointer
   else \<exists>t w'. run_callback K (raw_listener_callbacks K p) X n (User 1) (A_address_bytes addr message) w = Inr ((), w') \<and>
     makes_calls w w' [Sys_write 1 (''received message from '' @ t @ '': '' @ text_of message @ nl)]"
proof (cases "sa_family addr = AF_INET6")
  case True
  then show ?thesis
    using to_string_calls [of addr K w] by (simp add: print_def prog_simps)
next
  case False
  then obtain t w1 where t: "to_string (world_resolver K) addr w = Inr (t, w1)" "makes_calls w w1 []"
    using to_string_calls [of addr K w] by auto
  let ?output = "Sys_write 1 (''received message from '' @ t @ '': '' @ text_of message @ nl)"
  have "makes_calls w (after K ?output w1) [?output]"
    using makes_calls_trans [OF t(2) makes_call [of w1 K ?output]] by simp
  then show ?thesis
    using False t(1) by (auto simp: print_def discard_def prog_simps)
qed

section \<open>What closing leaves\<close>

lemma container_close_leaves:
  "container_close K X n c w = Inr (x, w') \<Longrightarrow> map_begin (c_sockets (get_container c w')) = None"
proof (induction n arbitrary: w)
  case 0
  then show ?case by (auto simp: prog_simps split: option.splits)
next
  case (Suc n)
  then show ?case by (auto simp: prog_simps split: option.splits sum.splits)
qed

section \<open>The answer of the server of the round trip test\<close>

text \<open>A client connection of a server with a single callback for messages.\<close>

definition counting_sock :: "ptr \<Rightarrow> sid \<Rightarrow> sock \<Rightarrow> bool" where
  "counting_sock p i s \<longleftrightarrow> sclass s = Tcp_connection \<and>
     sactions s READABLE = [\<lparr>exec = Connection_recv p, flags = 0\<rparr>] \<and>
     sactions s RECV = [\<lparr>exec = Server_receive i p, flags = 0\<rparr>]"

definition add_bytes :: "bytes \<Rightarrow> sock \<Rightarrow> int" where
  "add_bytes message s = (data s ''total_recv_bytes'' + int (length message)) mod 2 ^ 64"

definition trace_calls :: "world \<Rightarrow> world \<Rightarrow> syscall list \<Rightarrow> bool" where
  "trace_calls w w' cs \<longleftrightarrow> (\<exists>tr. trace w' = trace w @ tr \<and> map fst tr = cs)"

lemma print_text: "print K [Text t] w = Inr ((), after K (Sys_write 1 t) w)"
  by (simp add: print_def discard_def prog_simps)

lemma rtt_receive:
  assumes s: "heap w p = Some s" "sclass s = Tcp_connection"
    and sent: "\<And>h. ret_value (respond K h (Sys_send (sock_fd s) MESSAGE_STR 0)) = MESSAGE_SIZE"
  shows "\<exists>w' t. run_callback K (rtt_server_callbacks K) X n (User 1) (A_connection_bytes p message) w = Inr ((), w') \<and>
    heap w' = (heap w)(p \<mapsto> s\<lparr>data := (data s)(''total_recv_bytes'' := add_bytes message s)\<rparr>) \<and>
    trace_calls w w' (Sys_write 1 ''r'' #
      (if add_bytes message s > MESSAGE_SIZE then [Sys_write 1 t]
       else if add_bytes message s = MESSAGE_SIZE then [Sys_write 1 ''*'', Sys_send (sock_fd s) MESSAGE_STR 0]
       else []))"
proof -
  have len: "length MESSAGE_STR = 65536" "to_int32 MESSAGE_SIZE = 65536"
    by (simp_all add: MESSAGE_STR_def MESSAGE_SIZE_def to_int32_def)
  have sent': "ret_value (reply K (Sys_send (sock_fd s) MESSAGE_STR 0) v) = MESSAGE_SIZE" for v
    using sent by (simp add: reply_def)
  show ?thesis
    using s
    by (simp add: count_bytes_def with_data_def Let_def add_bytes_def print_text live_def prog_simps set_data_def
        discard_def connection_send_def len sent' trace_calls_def)
qed


definition datagram_kernel :: kernel where
  "datagram_kernel = demo_kernel (\<lambda>h c. case c of
       Sys_recvfrom fd n fl m \<Rightarrow> Some ((plain_ret 2)\<lparr>ret_data := [104, 105], ret_addr := Some [16, 2, 0, 80, 127, 0, 0, 1]\<rparr>)
     | Sys_recv fd n fl \<Rightarrow> Some ((plain_ret 2)\<lparr>ret_data := [104, 105]\<rparr>)
     | Sys_send fd b fl \<Rightarrow> Some (plain_ret 65536)
     | _ \<Rightarrow> None)"

lemma datagram_replies:
  "reply datagram_kernel (Sys_recvfrom fd n fl m) w =
     (plain_ret 2)\<lparr>ret_data := [104, 105], ret_addr := Some [16, 2, 0, 80, 127, 0, 0, 1]\<rparr>"
  "reply datagram_kernel (Sys_recv fd n fl) w = (plain_ret 2)\<lparr>ret_data := [104, 105]\<rparr>"
  "ret_value (respond datagram_kernel h (Sys_send fd b fl)) = MESSAGE_SIZE"
  "0 \<le> ret_value (respond datagram_kernel h (Sys_sendto fd b fl a n))"
  by (simp_all add: reply_def datagram_kernel_def demo_kernel_def plain_ret_def MESSAGE_SIZE_def)

lemma received_hi:
  "take (nat (to_int32 2)) (filled_buffer [104, 105]) = [104, 105]"
  "text_of (take (nat (to_int32 2)) (datagram_buffer [104, 105])) = ''hi''" "to_int32 2 = 2"
proof -
  show two: "to_int32 2 = 2" by (simp add: to_int32_def)
  show "take (nat (to_int32 2)) (filled_buffer [104, 105]) = [104, 105]"
    by (simp add: two filled_buffer_def write_at_def RECV_BUFFER_SIZE_def)
  have "take (nat (to_int32 2)) (datagram_buffer [104, 105]) = [104, 105]"
    by (simp add: two datagram_buffer_def write_at_def DATAGRAM_BUFFER_SIZE_def)
  moreover have "text_of [104, 105] = ''hi''"
    by code_simp
  ultimately show "text_of (take (nat (to_int32 2)) (datagram_buffer [104, 105])) = ''hi''"
    by (simp only:)
qed

definition refusing_kernel :: kernel where
  "refusing_kernel = demo_kernel (\<lambda>h c. case c of Sys_bind fd a n \<Rightarrow> Some (plain_ret (-1)) | _ \<Rightarrow> None)"

text \<open>How the example programs end, in two parts: streams, and datagrams.\<close>

lemma fine_result:
  "fine F E K U r (\<lambda>_. all_closed) \<Longrightarrow>
   case r of Inl e \<Rightarrow> e = OutOfFuel \<or> e = InvalidatedPollIterator \<and> \<not> few_descriptors K \<or> e \<in> F | Inr (x, w) \<Rightarrow> obeys (trace w) \<and> open_fds (trace w) = {}"
  using all_closed_open by (fastforce simp: fine_def tolerated_def good_def sound_but_def protocol_ok_def split: sum.splits)

lemma fine_discard: "fine F E K U (m w) (\<lambda>_. Q) \<Longrightarrow> fine F E K U (discard m w) (\<lambda>_. Q)"
  by (auto simp: fine_def discard_def prog_simps split: sum.splits)

lemma usage_ends:
  assumes "argv \<noteq> []"
  shows "case discard (usage K argv) start_world of Inl e \<Rightarrow> P e | Inr (x, w) \<Rightarrow> obeys (trace w) \<and> open_fds (trace w) = {}"
proof -
  obtain t where "usage K argv start_world = Inr (1, after K (Sys_write 1 t) start_world)"
    using usage_outcome [OF assms] by blast
  moreover have "trace start_world = []"
    by (simp add: start_world_def empty_world_def)
  ultimately show ?thesis
    by (simp add: discard_def prog_simps obeys_def open_fds_def)
qed

lemma stream_programs_end:
  assumes K: "fresh_descriptors K" "resolves_family K" and argv: "argv \<noteq> []"
    and m: "m \<in> {tcp_server_main K n, speed_server_main K n, rtt_server_main K n, tcp_client_main K pointer_text n,
       discard (speed_client_main K float_text argv n), discard (rtt_client_main K float_text argv n)}"
  shows "case m start_world of
      Inl e \<Rightarrow> e = OutOfFuel \<or> e = InvalidatedPollIterator \<and> \<not> few_descriptors K \<or>
        e = AssertFailed \<and> \<not> positive_descriptors K
    | Inr (x, w) \<Rightarrow> obeys (trace w) \<and> open_fds (trace w) = {}"
proof -
  let ?F = "{e. e = AssertFailed \<and> \<not> positive_descriptors K}"
  have env: "disciplined U \<Longrightarrow> env_ok K U" for U
    using K by (simp add: env_ok_def)
  have stream: "disciplined U \<Longrightarrow> keeps_to Map.empty U \<Longrightarrow> good ?F Map.empty K U empty_world" for U
    by (rule empty_good [OF env]) auto
  note goods = stream [OF callbacks_disciplined(1) callbacks_careful(1)] stream [OF callbacks_disciplined(2) callbacks_careful(2)]
    stream [OF callbacks_disciplined(3) callbacks_careful(3)] stream [OF callbacks_disciplined(4) callbacks_careful(4)]
    stream [OF callbacks_disciplined(5) callbacks_careful(5)] stream [OF callbacks_disciplined(6) callbacks_careful(6)]
  have servers: "fine ?F Map.empty K (tcp_server_callbacks K) (tcp_server_main K n start_world) (\<lambda>_. all_closed)"
    "fine ?F Map.empty K (speed_server_callbacks K) (speed_server_main K n start_world) (\<lambda>_. all_closed)"
    "fine ?F Map.empty K (rtt_server_callbacks K) (rtt_server_main K n start_world) (\<lambda>_. all_closed)"
    unfolding tcp_server_main_def speed_server_main_def rtt_server_main_def
    using server_main_fine [OF goods(1), of "take 6 tcp_server_setup" "drop 6 tcp_server_setup"]
      server_main_fine [OF goods(2), of "take 4 speed_server_setup" "drop 4 speed_server_setup"]
      server_main_fine [OF goods(3), of "take 5 rtt_server_setup" "drop 5 rtt_server_setup"]
    by (simp_all add: tcp_server_setup_def speed_server_setup_def rtt_server_setup_def action_list_defs)
  have client: "fine ?F Map.empty K (tcp_client_callbacks K) (tcp_client_main K pointer_text n start_world) (\<lambda>_. all_closed)"
    by (rule tcp_client_main_fine [OF goods(4)])
  have clients: "fine ?F Map.empty K (speed_client_callbacks K) (discard (speed_client_main K float_text argv n) start_world) (\<lambda>_. all_closed)"
    "fine ?F Map.empty K (rtt_client_callbacks K (atoi (argv ! 1))) (discard (rtt_client_main K float_text argv n) start_world) (\<lambda>_. all_closed)"
    if "length argv = 2"
    by (rule fine_discard, rule speed_client_main_fine [OF goods(5) that])
      (rule fine_discard, rule rtt_client_main_fine [OF goods(6) that])
  have "m = discard (usage K argv)" if "m \<noteq> tcp_server_main K n" "m \<noteq> speed_server_main K n" "m \<noteq> rtt_server_main K n"
      "m \<noteq> tcp_client_main K pointer_text n" "length argv \<noteq> 2"
    using m that by (auto simp: speed_client_main_def rtt_client_main_def)
  then consider (usage) "m = discard (usage K argv)" | (program) U where "fine ?F Map.empty K U (m start_world) (\<lambda>_. all_closed)"
    using m servers client clients by blast
  then show ?thesis
  proof cases
    case usage
    then show ?thesis using usage_ends [OF argv] by simp
  next
    case program
    from fine_result [OF this] show ?thesis by (auto split: sum.splits)
  qed
qed

lemma datagram_programs_end:
  assumes "fresh_descriptors K" and "resolves_family K"
  shows "case udp_server_main K n start_world of Inl e \<Rightarrow> e \<in> {OutOfFuel, AssertFailed} \<or> e = InvalidatedPollIterator \<and> \<not> few_descriptors K
      | Inr (x, w) \<Rightarrow> obeys (trace w) \<and> open_fds (trace w) = {}"
    and "case udp_client_main K n start_world of Inl e \<Rightarrow> e \<in> {OutOfFuel, AssertFailed} \<union> range LogicError \<or> e = InvalidatedPollIterator \<and> \<not> few_descriptors K
      | Inr (x, w) \<Rightarrow> obeys (trace w) \<and> open_fds (trace w) = {}"
proof -
  have "env_ok K (udp_server_callbacks K 0)" "env_ok K (udp_client_callbacks K)"
    using assms by (simp_all add: env_ok_def callbacks_disciplined)
  then have "fine {AssertFailed} [0 \<mapsto> Udp_socket] K (udp_server_callbacks K 0) (udp_server_main K n start_world) (\<lambda>_. all_closed)"
    "fine ({AssertFailed} \<union> range LogicError) [0 \<mapsto> Udp_socket] K (udp_client_callbacks K) (udp_client_main K n start_world) (\<lambda>_. all_closed)"
    by (auto intro: udp_server_main_fine udp_client_main_fine)
  from this [THEN fine_result] show
    "case udp_server_main K n start_world of Inl e \<Rightarrow> e \<in> {OutOfFuel, AssertFailed} \<or> e = InvalidatedPollIterator \<and> \<not> few_descriptors K
      | Inr (x, w) \<Rightarrow> obeys (trace w) \<and> open_fds (trace w) = {}"
    "case udp_client_main K n start_world of Inl e \<Rightarrow> e \<in> {OutOfFuel, AssertFailed} \<union> range LogicError \<or> e = InvalidatedPollIterator \<and> \<not> few_descriptors K
      | Inr (x, w) \<Rightarrow> obeys (trace w) \<and> open_fds (trace w) = {}"
    by (auto split: sum.splits)
qed

text \<open>A kernel that refuses connections.\<close>

definition unreachable_kernel :: kernel where
  "unreachable_kernel = demo_kernel (\<lambda>h c. if opens_descriptor c then Some (plain_ret (next_descriptor h)) else
     case c of Sys_connect fd a n \<Rightarrow> Some ((plain_ret (-1))\<lparr>ret_errno := 111\<rparr>) | _ \<Rightarrow> None)"

lemma unreachable_kernel_ok: "fresh_descriptors unreachable_kernel" "resolves_family unreachable_kernel"
proof -
  show "fresh_descriptors unreachable_kernel"
    using next_descriptor_unused by (simp add: fresh_descriptors_def unreachable_kernel_def demo_kernel_def plain_ret_def)
  show "resolves_family unreachable_kernel"
    by (auto simp: resolves_family_def unreachable_kernel_def demo_kernel_def plain_ret_def)
qed

fun closes_on_error :: user_program where
  "closes_on_error u (A_error f e) w = [Server_close 0]"
| "closes_on_error u _ w = []"

section \<open>Properties\<close>


text \<open>
  C9. When one of the example programs returns, every descriptor it has opened is closed: the loop over
  \<^verbatim>\<open>poll\<close> ends only when the handler has no socket left, and then nothing is open.
\<close>

theorem programs_close_everything:
  assumes "fresh_descriptors K" and "resolves_family K" and "argv \<noteq> []"
    and "m \<in> {tcp_server_main K n, speed_server_main K n, rtt_server_main K n, tcp_client_main K pointer_text n,
       discard (speed_client_main K float_text argv n), discard (rtt_client_main K float_text argv n),
       udp_server_main K n, udp_client_main K n}"
    and "m start_world = Inr ((), w)"
  shows "open_fds (trace w) = {}"
  using stream_programs_end [OF assms(1-3), of m n pointer_text float_text] datagram_programs_end [OF assms(1,2), of n] assms(4,5)
  by auto





text \<open>
  C20. The server of the round trip test adds every received message to the count of its connection and
  answers exactly when the count reaches the length of the message.
\<close>

theorem rtt_server_answers_complete_message:
  fixes w K
  defines "r \<equiv> \<lambda>fd. reply K (Sys_recv fd RECV_BUFFER_SIZE 0) w"
  assumes s: "heap w p = Some s" "counting_sock p i s"
    and hook: "srv_actions (servers w i) TCP_RECEIVE = [\<lparr>exec = User 1, flags = 0\<rparr>]"
    and received: "0 < to_int32 (ret_value (r (sock_fd s)))"
    and message: "message = take (nat (to_int32 (ret_value (r (sock_fd s))))) (filled_buffer (ret_data (r (sock_fd s))))"
    and sent: "\<And>h. ret_value (respond K h (Sys_send (sock_fd s) MESSAGE_STR 0)) = MESSAGE_SIZE"
  shows "\<exists>w' t. execute K (rtt_server_callbacks K) (n + 3) (Socket_obj p) READABLE A_none w = Inr ((), w') \<and>
    heap w' = (heap w)(p \<mapsto> s\<lparr>data := (data s)(''total_recv_bytes'' := add_bytes message s)\<rparr>) \<and>
    trace_calls w w' (Sys_recv (sock_fd s) RECV_BUFFER_SIZE 0 # Sys_write 1 ''r'' #
      (if add_bytes message s > MESSAGE_SIZE then [Sys_write 1 t]
       else if add_bytes message s = MESSAGE_SIZE then [Sys_write 1 ''*'', Sys_send (sock_fd s) MESSAGE_STR 0]
       else []))"
proof -
  let ?U = "rtt_server_callbacks K" and ?recv = "Sys_recv (sock_fd s) RECV_BUFFER_SIZE 0"
  let ?w1 = "after K ?recv w" and ?r = "r (sock_fd s)"
  have s': "sclass s = Tcp_connection" and w1: "heap ?w1 p = Some s"
    using s by (simp_all add: counting_sock_def)
  obtain w' t where w': "run_callback K ?U (execute K ?U n) n (User 1) (A_connection_bytes p message) ?w1 = Inr ((), w')"
    "heap w' = (heap ?w1)(p \<mapsto> s\<lparr>data := (data s)(''total_recv_bytes'' := add_bytes message s)\<rparr>)"
    "trace_calls ?w1 w' (Sys_write 1 ''r'' # (if add_bytes message s > MESSAGE_SIZE then [Sys_write 1 t]
       else if add_bytes message s = MESSAGE_SIZE then [Sys_write 1 ''*'', Sys_send (sock_fd s) MESSAGE_STR 0] else []))"
    using rtt_receive [OF w1 s' sent] by blast
  have "execute K ?U (Suc n) (Server_obj i) TCP_RECEIVE (A_connection_bytes p message) ?w1 = Inr ((), w')"
    using w'(1) hook by (subst execute_one [where acts = "srv_actions (servers w i)" and types = "server_actions_list []"])
      (simp_all add: action_list_defs del: run_callback.simps)
  then have "run_callback K ?U (execute K ?U (Suc n)) (Suc n) (Server_receive i p) (A_bytes message) ?w1 = Inr ((), w')"
    by (simp del: execute.simps)
  then have "execute K ?U (Suc (Suc n)) (Socket_obj p) RECV (A_bytes message) ?w1 = Inr ((), w')"
    using s(2) w1 s' by (subst execute_one [where acts = "sactions s" and types = "class_actions Tcp_connection"])
      (simp_all add: counting_sock_def action_list_defs del: execute.simps run_callback.simps)
  moreover have "execute K ?U (Suc (Suc (Suc n))) (Socket_obj p) READABLE A_none w =
      run_callback K ?U (execute K ?U (Suc (Suc n))) (Suc (Suc n)) (Connection_recv p) A_none w"
    by (rule execute_one [where acts = "sactions s" and types = "class_actions Tcp_connection"])
      (use s s' in \<open>simp_all add: counting_sock_def action_list_defs\<close>)
  moreover have "sys K ?recv w = Inr (?r, ?w1)"
    by (simp add: sys_apply r_def)
  ultimately have "execute K ?U (Suc (Suc (Suc n))) (Socket_obj p) READABLE A_none w = Inr ((), w')"
    using s(1) received message
    by (simp add: connection_recv_def discard_def andThen_apply get_sock_apply ret_apply Let_def del: execute.simps)
  moreover have "trace_calls w w' (?recv # cs)" if "trace_calls ?w1 w' cs" for cs
    using that by (auto simp: trace_calls_def)
  ultimately show ?thesis
    using w'(2,3) by (intro exI [of _ w'] exI [of _ t]) (simp add: numeral_3_eq_3 del: execute.simps)
qed


section \<open>Witnesses\<close>


text \<open>The client of the tcp example after its registrations, and what remains of its program.\<close>

definition registered_world :: world where
  "registered_world = empty_world\<lparr>trace := [(Sys_write 1 (''handler:     '' @ nl), plain_ret 0)],
    clients := (clients empty_world)(0 := \<lparr>cl_handler = 0,
      cl_actions = (\<lambda>_. [])(CONNECT := [\<lparr>exec = User 0, flags = 0\<rparr>], TCP_CLOSED := [\<lparr>exec = User 1, flags = 0\<rparr>],
        TCP_RECEIVE := [\<lparr>exec = User 2, flags = 0\<rparr>], ERROR := [\<lparr>exec = User 3, flags = 0\<rparr>]),
      cl_container = new_container 0\<rparr>)\<rparr>"

definition connect_and_poll :: "kernel \<Rightarrow> user_program \<Rightarrow> nat \<Rightarrow> unit act" where
  "connect_and_poll K U n =
     andThen (run_program K U n [Client_connect 0 ''127.0.0.1'' 8000 False]) (\<lambda>_.
     andThen (reads (\<lambda>w. cl_handler (clients w 0))) (\<lambda>h.
     andThen (run_program K U n [Print [Text (''handlers:    '' @ nl)]]) (\<lambda>_.
     andThen (poll_while K (execute K U n) (ret ()) n 0) (\<lambda>_. run_program K U n [Client_close 0]))))"

lemma registered: "tcp_client_main unreachable_kernel (\<lambda>_. []) n start_world =
    connect_and_poll unreachable_kernel (tcp_client_callbacks unreachable_kernel) n registered_world"
proof -
  let ?K = unreachable_kernel and ?U = "tcp_client_callbacks unreachable_kernel"
  let ?w1 = "empty_world\<lparr>trace := [(Sys_write 1 (''handler:     '' @ nl), plain_ret 0)]\<rparr>"
  have "after ?K (Sys_write 1 t) empty_world = empty_world\<lparr>trace := [(Sys_write 1 t, plain_ret 0)]\<rparr>" for t
    by (simp add: after_def reply_def unreachable_kernel_def demo_kernel_def plain_ret_def empty_world_def)
  then have w1: "run_program ?K ?U n [Print [Text (''handler:     '' @ [] @ nl)]] empty_world = Inr ((), ?w1)"
    by (simp add: run_program_def print_text andThen_apply ret_apply)
  obtain w2 where w2: "client_ctor 0 0 ?w1 = Inr ((), w2)"
      "w2 = ?w1\<lparr>clients := (clients empty_world)(0 := \<lparr>cl_handler = 0, cl_actions = (\<lambda>_. []), cl_container = new_container 0\<rparr>)\<rparr>"
    by (simp add: client_ctor_def prog_simps)
  have w3: "run_program ?K ?U n [Client_on 0 CONNECT 0 (flag_value DEFAULT), Client_on 0 TCP_CLOSED 1 (flag_value DEFAULT),
      Client_on 0 TCP_RECEIVE 2 (flag_value DEFAULT), Client_on 0 ERROR 3 (flag_value DEFAULT)] w2 = Inr ((), registered_world)"
    by (simp add: w2(2) run_program_def on_def action_list_defs add_callback_def registered_world_def prog_simps flag_value.simps)
  have "run_program ?K ?U n [Client_on 0 CONNECT 0 (flag_value DEFAULT), Client_on 0 TCP_CLOSED 1 (flag_value DEFAULT),
      Client_on 0 TCP_RECEIVE 2 (flag_value DEFAULT), Client_on 0 ERROR 3 (flag_value DEFAULT),
      Client_connect 0 ''127.0.0.1'' 8000 False] w2 = run_program ?K ?U n [Client_connect 0 ''127.0.0.1'' 8000 False] registered_world"
    using run_program_append [of ?K ?U n "[Client_on 0 CONNECT 0 (flag_value DEFAULT), Client_on 0 TCP_CLOSED 1 (flag_value DEFAULT),
      Client_on 0 TCP_RECEIVE 2 (flag_value DEFAULT), Client_on 0 ERROR 3 (flag_value DEFAULT)]" "[Client_connect 0 ''127.0.0.1'' 8000 False]"]
    by (simp only: append.simps andThen_apply w3 sum.case prod.case)
  then show ?thesis
    unfolding tcp_client_main_def Let_def from_start connect_and_poll_def append_Nil
    by (simp only: andThen_apply w1 [unfolded append_Nil] w2(1) sum.case prod.case)
qed

theorem programs_close_everything_witness:
  "\<exists>w. tcp_client_main unreachable_kernel (\<lambda>_. []) 3 start_world = Inr ((), w) \<and> open_fds (trace w) = {} \<and> next_ptr w = 1"
proof -
  have "case connect_and_poll unreachable_kernel (tcp_client_callbacks unreachable_kernel) 3 registered_world of
      Inl e \<Rightarrow> False | Inr (x, w) \<Rightarrow> next_ptr w = 1"
    by code_simp
  then obtain w where w: "tcp_client_main unreachable_kernel (\<lambda>_. []) 3 start_world = Inr ((), w)" "next_ptr w = 1"
    unfolding registered by (auto split: sum.splits)
  have "open_fds (trace w) = {}"
    by (rule programs_close_everything [OF unreachable_kernel_ok, of "[[]]" "tcp_client_main unreachable_kernel (\<lambda>_. []) 3" 3 "\<lambda>_. []"])
      (use w in simp_all)
  then show ?thesis
    using w by blast
qed




theorem rtt_server_answers_complete_message_witness:
  "\<exists>w w'. execute datagram_kernel (rtt_server_callbacks datagram_kernel) 3 (Socket_obj 0) READABLE A_none w = Inr ((), w') \<and>
     trace_calls w w' [Sys_recv 3 RECV_BUFFER_SIZE 0, Sys_write 1 ''r'', Sys_write 1 ''*'', Sys_send 3 MESSAGE_STR 0]"
proof -
  let ?s = "(new_sock Tcp_connection 0 3)\<lparr>data := (\<lambda>_. 65534), sactions := (\<lambda>_. [])(
    READABLE := [\<lparr>exec = Connection_recv 0, flags = 0\<rparr>], RECV := [\<lparr>exec = Server_receive 0 0, flags = 0\<rparr>])\<rparr>"
  have "sock_fd ?s = 3" "counting_sock 0 0 ?s" "add_bytes [104, 105] ?s = MESSAGE_SIZE"
    by (simp_all add: counting_sock_def new_sock_def add_bytes_def MESSAGE_SIZE_def)
  then obtain s where s: "sock_fd s = 3" "counting_sock 0 0 s" "add_bytes [104, 105] s = MESSAGE_SIZE" by blast
  obtain w :: world where w: "heap w 0 = Some s" "srv_actions (servers w 0) TCP_RECEIVE = [\<lparr>exec = User 1, flags = 0\<rparr>]"
    by (rule that [of "empty_world\<lparr>heap := [0 \<mapsto> s], servers := (\<lambda>_. (servers empty_world 0)\<lparr>srv_actions := (\<lambda>_. [\<lparr>exec = User 1, flags = 0\<rparr>])\<rparr>)\<rparr>"])
      simp_all
  have e: "ret_value ((plain_ret 2)\<lparr>ret_data := d\<rparr>) = 2" "ret_data ((plain_ret 2)\<lparr>ret_data := d\<rparr>) = d" for d
    by (simp_all add: plain_ret_def)
  have r: "0 < to_int32 (ret_value (reply datagram_kernel (Sys_recv (sock_fd s) RECV_BUFFER_SIZE 0) w))"
    "[104, 105] = take (nat (to_int32 (ret_value (reply datagram_kernel (Sys_recv (sock_fd s) RECV_BUFFER_SIZE 0) w))))
       (filled_buffer (ret_data (reply datagram_kernel (Sys_recv (sock_fd s) RECV_BUFFER_SIZE 0) w)))"
    by (simp_all only: datagram_replies e received_hi(1)) (simp add: received_hi(3))
  show ?thesis
    using rtt_server_answers_complete_message [OF w(1) s(2) w(2) r datagram_replies(3), of 0] s(1,3)
    by auto
qed

end
